(* ===== verification/Prelude.thy ===== *)
theory Prelude
  imports Main "HOL-Library.AList" "HOL-Library.Multiset"
begin

text \<open>
  Shared material of the development: the outcome type of remote and local calls, the
  hint collections, and generic facts on lists and association lists. A Go map is an
  association list with distinct keys (its order is the order in which the program happens
  to iterate); lookups go through \<^const>\<open>map_of\<close>, updates through \<^const>\<open>AList.update\<close> and
  \<^const>\<open>AList.delete\<close>.
\<close>

named_theorems go_lib "equations of the modelled Go library functions"
named_theorems frame "parts of a state that an operation leaves alone"
named_theorems keeps "operations that preserve an invariant"

section \<open>Outcomes of calls\<close>

text \<open>
  What a caller of an RPC (or of a handler that takes a mutex) observes: the call never
  returns because a mutex is never released, it returns a Go error, or it returns a reply.
\<close>

datatype 'r outcome = Blocked | Error string | Reply 'r

text \<open>
  What the network does to one RPC: the handler runs and its reply arrives; the connection
  fails before the handler runs; the handler runs but its reply is lost.
\<close>

datatype net = Delivered | Unreachable | ReplyLost

record status =
  success :: bool
  errorMessage :: string

definition okReply :: status where
  "okReply = \<lparr>success = True, errorMessage = []\<rparr>"

definition failReply :: "string \<Rightarrow> status" where
  "failReply msg = \<lparr>success = False, errorMessage = msg\<rparr>"

lemma success_replies [simp]:
  "success okReply" "\<not> success (failReply m)" "errorMessage (failReply m) = m"
  by (simp_all add: okReply_def failReply_def)

lemma okReply_neq_failReply [simp]: "okReply \<noteq> failReply m" "failReply m \<noteq> okReply"
  by (simp_all add: okReply_def failReply_def)

definition through :: "net \<Rightarrow> 's \<Rightarrow> 's \<times> 'r outcome \<Rightarrow> 's \<times> 'r outcome" where
  "through n s run =
     (case n of
        Unreachable \<Rightarrow> (s, Error ''dial'')
      | ReplyLost \<Rightarrow> (fst run, (case snd run of Blocked \<Rightarrow> Blocked | _ \<Rightarrow> Error ''connection lost''))
      | Delivered \<Rightarrow> run)"

lemma through_simps [simp]:
  "through Unreachable s run = (s, Error ''dial'')"
  "through Delivered s run = run"
  by (simp_all add: through_def)

lemma through_Reply:
  "through n s run = (s', Reply r) \<longleftrightarrow> n = Delivered \<and> run = (s', Reply r)"
  by (auto simp: through_def split: net.splits outcome.splits)

section \<open>Association lists\<close>

lemma map_of_update [simp]:
  "map_of (AList.update k v al) = (map_of al)(k \<mapsto> v)"
  by (simp add: update_conv')

lemma map_of_delete [simp]:
  "map_of (AList.delete k al) = (map_of al)(k := None)"
  by (simp add: delete_conv')

lemma length_delete:
  assumes "distinct (map fst al)" and "map_of al k = Some v"
  shows "Suc (length (AList.delete k al)) = length al"
  using assms
proof (induction al)
  case (Cons p al)
  show ?case
  proof (cases "fst p = k")
    case True
    then have "k \<notin> fst ` set al" using Cons.prems by auto
    then have "AList.delete k al = al" by simp
    with True show ?thesis by (cases p) simp
  next
    case False
    with Cons show ?thesis by (cases p) (auto split: if_splits)
  qed
qed simp

lemma length_update_new:
  "map_of al k = None \<Longrightarrow> length (AList.update k v al) = Suc (length al)"
  by (induction al) (auto split: if_splits)

lemma length_update_old:
  "map_of al k = Some w \<Longrightarrow> length (AList.update k v al) = length al"
  by (induction al) (auto split: if_splits)

lemma set_update_fst:
  "fst ` set (AList.update k v al) = insert k (fst ` set al)"
  by (simp add: dom_update)

lemma set_update:
  "distinct (map fst al) \<Longrightarrow> set (AList.update k v al) = insert (k, v) {p \<in> set al. fst p \<noteq> k}"
proof (induction al)
  case (Cons p al)
  show ?case
  proof (cases "fst p = k")
    case True
    then have "k \<notin> fst ` set al" using Cons.prems by auto
    then have "\<forall>q\<in>set al. fst q \<noteq> k" by (metis image_eqI)
    with True show ?thesis by (cases p) auto
  next
    case False
    with Cons show ?thesis by (cases p) auto
  qed
qed simp

lemma distinct_update_fst:
  "distinct (map fst al) \<Longrightarrow> distinct (map fst (AList.update k v al))"
  by (rule distinct_update)

lemma map_of_perm:
  assumes "mset al = mset al'" and "distinct (map fst al)"
  shows "map_of al = map_of al'"
proof -
  have "distinct (map fst al')"
    using assms mset_eq_imp_distinct_iff [of "map fst al" "map fst al'"] by simp
  moreover have "set al = set al'" using assms(1) by (rule mset_eq_setD)
  ultimately show ?thesis using assms(2) by (metis map_of_inject_set)
qed

section \<open>Lists\<close>

lemma sort_key_mset_eq:
  assumes "mset xs = mset ys" and "distinct (map f xs)"
  shows "sort_key f xs = sort_key f ys"
proof (rule map_sorted_distinct_set_unique)
  have eq: "set xs = set ys" using assms(1) by (rule mset_eq_setD)
  have d: "distinct (map f ys)"
    using assms mset_eq_imp_distinct_iff [of "map f xs" "map f ys"] by simp
  show "inj_on f (set (sort_key f xs) \<union> set (sort_key f ys))"
    using assms(2) eq by (simp add: distinct_map)
  show "sorted (map f (sort_key f xs))" "sorted (map f (sort_key f ys))"
    by simp_all
  show "distinct (map f (sort_key f xs))" "distinct (map f (sort_key f ys))"
    using assms(2) d by (simp_all add: distinct_map)
  show "set (sort_key f xs) = set (sort_key f ys)" by (simp add: eq)
qed

lemma map_sort_key_distinct:
  assumes "distinct (map f xs)"
  shows "map f (sort_key f xs) = sort (map f xs)"
  by (rule properties_for_sort [symmetric]) simp_all

lemma foldl_inv:
  assumes "P s" and "\<And>s x. P s \<Longrightarrow> x \<in> set xs \<Longrightarrow> P (f s x)"
  shows "P (foldl f s xs)"
  using assms by (induction xs arbitrary: s) auto

text \<open>Calls to different addresses, one after the other: each changes its own node only.\<close>

lemma fold_pointwise:
  assumes "distinct addrs" and "\<And>c b a. step (c, b) a = (c(a := fst (g a (c a))), b \<or> snd (g a (c a)))"
  shows "foldl step (c, b) addrs =
     ((\<lambda>a. if a \<in> set addrs then fst (g a (c a)) else c a), b \<or> (\<exists>a\<in>set addrs. snd (g a (c a))))"
  using assms(1)
proof (induction addrs arbitrary: c b)
  case (Cons a addrs)
  then have "a \<notin> set addrs" by simp
  with Cons show ?case by (auto simp: assms(2) fun_eq_iff)
qed simp

end
