(* ===== verification/GoStrings.thy ===== *)
theory GoStrings
  imports Prelude "HOL-Library.List_Lexorder" "HOL-Library.Char_ord"
begin

text \<open>
  The parts of Go's \<^verbatim>\<open>strings\<close>, \<^verbatim>\<open>strconv\<close>, \<^verbatim>\<open>fmt\<close> and \<^verbatim>\<open>bufio\<close> packages that the program
  uses. A Go string is a sequence of bytes, which is what \<^typ>\<open>string\<close> is; the order on
  strings is the bytewise lexicographic one in both. Character classes (white space, case)
  are the ASCII ones.
\<close>

abbreviation NL :: char where "NL \<equiv> CHR 0x0A"
abbreviation CR :: char where "CR \<equiv> CHR 0x0D"
abbreviation TAB :: char where "TAB \<equiv> CHR 0x09"
abbreviation DQ :: char where "DQ \<equiv> CHR 0x22"

section \<open>Splitting and joining\<close>

text \<open>\<^verbatim>\<open>strings.Split(s, c)\<close> for a one-byte separator.\<close>

fun split_on :: "char \<Rightarrow> string \<Rightarrow> string list" where
  "split_on c [] = [[]]"
| "split_on c (x # xs) =
     (if x = c then [] # split_on c xs
      else (case split_on c xs of [] \<Rightarrow> [[x]] | y # ys \<Rightarrow> (x # y) # ys))"

text \<open>\<^verbatim>\<open>strings.Join(parts, sep)\<close>.\<close>

fun join :: "string \<Rightarrow> string list \<Rightarrow> string" where
  "join sep [] = []"
| "join sep [p] = p"
| "join sep (p # q # ps) = p @ sep @ join sep (q # ps)"

text \<open>\<^verbatim>\<open>strings.SplitN(s, c, 2)\<close>.\<close>

definition splitn2 :: "char \<Rightarrow> string \<Rightarrow> string list" where
  "splitn2 c s =
     (case dropWhile (\<lambda>x. x \<noteq> c) s of
        [] \<Rightarrow> [s]
      | _ # rest \<Rightarrow> [takeWhile (\<lambda>x. x \<noteq> c) s, rest])"

text \<open>\<^verbatim>\<open>strings.Index(s, c)\<close> and \<^verbatim>\<open>strings.LastIndex(s, c)\<close>; \<^const>\<open>None\<close> is \<open>-1\<close>.\<close>

fun index_of :: "char \<Rightarrow> string \<Rightarrow> nat option" where
  "index_of c [] = None"
| "index_of c (x # xs) = (if x = c then Some 0 else map_option Suc (index_of c xs))"

fun last_index :: "char \<Rightarrow> string \<Rightarrow> nat option" where
  "last_index c [] = None"
| "last_index c (x # xs) =
     (case last_index c xs of
        Some i \<Rightarrow> Some (Suc i)
      | None \<Rightarrow> (if x = c then Some 0 else None))"

definition has_prefix :: "string \<Rightarrow> string \<Rightarrow> bool" where
  "has_prefix p s \<longleftrightarrow> take (length p) s = p"

fun contains :: "string \<Rightarrow> string \<Rightarrow> bool" where
  "contains p [] \<longleftrightarrow> p = []"
| "contains p (x # xs) \<longleftrightarrow> has_prefix p (x # xs) \<or> contains p xs"

definition trim_suffix_char :: "char \<Rightarrow> string \<Rightarrow> string" where
  "trim_suffix_char c s = (if s \<noteq> [] \<and> last s = c then butlast s else s)"

definition trim_chars :: "(char \<Rightarrow> bool) \<Rightarrow> string \<Rightarrow> string" where
  "trim_chars P s = rev (dropWhile P (rev (dropWhile P s)))"

definition is_space :: "char \<Rightarrow> bool" where
  "is_space c \<longleftrightarrow> c \<in> {CHR '' '', TAB, NL, CHR 0x0B, CHR 0x0C, CR}"

definition trim_space :: "string \<Rightarrow> string" where
  "trim_space = trim_chars is_space"

text \<open>\<^verbatim>\<open>strings.Fields\<close>: the maximal runs of non-space bytes.\<close>

fun fields_aux :: "string \<Rightarrow> string \<Rightarrow> string list" where
  "fields_aux cur [] = (if cur = [] then [] else [rev cur])"
| "fields_aux cur (x # xs) =
     (if is_space x then (if cur = [] then fields_aux [] xs else rev cur # fields_aux [] xs)
      else fields_aux (x # cur) xs)"

definition fields_of :: "string \<Rightarrow> string list" where
  "fields_of s = fields_aux [] s"

definition upper_char :: "char \<Rightarrow> char" where
  "upper_char c =
     (let n = of_char c :: nat in if 97 \<le> n \<and> n \<le> 122 then char_of (n - 32) else c)"

definition to_upper :: "string \<Rightarrow> string" where
  "to_upper = map upper_char"

definition equal_fold :: "string \<Rightarrow> string \<Rightarrow> bool" where
  "equal_fold a b \<longleftrightarrow> to_upper a = to_upper b"

lemma split_on_not_Nil [simp]: "split_on c s \<noteq> []"
  by (induction s) (auto split: list.splits)

lemma split_on_append:
  "c \<notin> set a \<Longrightarrow> split_on c (a @ c # b) = a # split_on c b"
  by (induction a) auto

lemma split_on_free: "c \<notin> set a \<Longrightarrow> split_on c a = [a]"
  by (induction a) auto

lemma split_on_set: "p \<in> set (split_on c s) \<Longrightarrow> c \<notin> set p"
  by (induction s arbitrary: p) (auto split: if_splits list.splits)

lemma split_on_join:
  "ps \<noteq> [] \<Longrightarrow> \<forall>p\<in>set ps. c \<notin> set p \<Longrightarrow> split_on c (join [c] ps) = ps"
  by (induction "[c]" ps rule: join.induct) (auto simp: split_on_append split_on_free)

lemma splitn2_hit: "c \<notin> set a \<Longrightarrow> splitn2 c (a @ c # b) = [a, b]"
proof -
  assume a: "c \<notin> set a"
  then have "dropWhile (\<lambda>x. x \<noteq> c) (a @ c # b) = c # b"
    "takeWhile (\<lambda>x. x \<noteq> c) (a @ c # b) = a"
    by (induction a) auto
  then show ?thesis by (simp add: splitn2_def)
qed

lemma splitn2_miss: "c \<notin> set s \<Longrightarrow> splitn2 c s = [s]"
proof -
  assume "c \<notin> set s"
  then have "dropWhile (\<lambda>x. x \<noteq> c) s = []" by (auto simp: dropWhile_eq_Nil_conv)
  then show ?thesis by (simp only: splitn2_def list.case)
qed

lemma index_of_None: "index_of c s = None \<longleftrightarrow> c \<notin> set s"
  by (induction s) auto

lemma index_of_append: "c \<notin> set a \<Longrightarrow> index_of c (a @ c # b) = Some (length a)"
  by (induction a) auto

lemma index_of_lt: "index_of c s = Some i \<Longrightarrow> i < length s"
  by (induction s arbitrary: i) (auto split: if_splits)

lemma last_index_None: "last_index c s = None \<longleftrightarrow> c \<notin> set s"
  by (induction s) (auto split: option.splits)

lemma last_index_append: "c \<notin> set b \<Longrightarrow> last_index c (a @ c # b) = Some (length a)"
  by (induction a) (auto simp: last_index_None split: option.split)

lemma has_prefix_iff: "has_prefix p s \<longleftrightarrow> (\<exists>r. s = p @ r)"
  unfolding has_prefix_def by (metis append_eq_conv_conj append_take_drop_id)

lemma contains_iff: "contains p s \<longleftrightarrow> (\<exists>a b. s = a @ p @ b)"
proof (induction s)
  case (Cons x s)
  show ?case
  proof
    assume "contains p (x # s)"
    then consider r where "x # s = p @ r" | a b where "s = a @ p @ b"
      using Cons by (auto simp: has_prefix_iff)
    then show "\<exists>a b. x # s = a @ p @ b"
    proof cases
      case 1
      then have "x # s = [] @ p @ r" by simp
      then show ?thesis by blast
    next
      case 2
      then have "x # s = (x # a) @ p @ b" by simp
      then show ?thesis by blast
    qed
  next
    assume "\<exists>a b. x # s = a @ p @ b"
    then obtain a b where ab: "x # s = a @ p @ b" by blast
    show "contains p (x # s)"
    proof (cases a)
      case Nil
      with ab have "has_prefix p (x # s)" by (auto simp: has_prefix_iff)
      then show ?thesis by simp
    next
      case (Cons y a')
      with ab have "s = a' @ p @ b" by simp
      then have "\<exists>a b. s = a @ p @ b" by blast
      with Cons.IH show ?thesis by simp
    qed
  qed
qed auto

section \<open>Line scanner\<close>

text \<open>
  \<^verbatim>\<open>bufio.Scanner\<close> with the default split function: lines without their newline and one
  trailing carriage return, an unterminated last line counts when it is not empty, and
  scanning stops for good at the first line that does not fit the 64 KiB buffer with its
  newline (\<^verbatim>\<open>Scan\<close> then returns false and the program never asks \<^verbatim>\<open>Err\<close>).
\<close>

definition maxTokenSize :: nat where "maxTokenSize = 65536"

definition raw_lines :: "string \<Rightarrow> string list" where
  "raw_lines s = (let ps = split_on NL s in if last ps = [] then butlast ps else ps)"

definition drop_cr :: "string \<Rightarrow> string" where
  "drop_cr = trim_suffix_char CR"

definition scan_lines :: "string \<Rightarrow> string list" where
  "scan_lines s = map drop_cr (takeWhile (\<lambda>l. length l < maxTokenSize) (raw_lines s))"

text \<open>A line the scanner returns as it is.\<close>

definition scannable :: "string \<Rightarrow> bool" where
  "scannable l \<longleftrightarrow> NL \<notin> set l \<and> (l = [] \<or> last l \<noteq> CR) \<and> length l < maxTokenSize"

definition unlines :: "string list \<Rightarrow> string" where
  "unlines ls = concat (map (\<lambda>l. l @ [NL]) ls)"

lemma unlines_simps [simp]:
  "unlines [] = []" "unlines (l # ls) = l @ NL # unlines ls"
  "unlines (ls @ ls') = unlines ls @ unlines ls'"
  by (simp_all add: unlines_def)

lemma split_on_unlines:
  "\<forall>l\<in>set ls. NL \<notin> set l \<Longrightarrow> split_on NL (unlines ls @ r) = ls @ split_on NL r"
  by (induction ls) (auto simp: split_on_append)

lemma raw_lines_unlines:
  assumes "\<forall>l\<in>set ls. NL \<notin> set l"
  shows "raw_lines (unlines ls) = ls"
  using split_on_unlines [OF assms, of "[]"] by (simp add: raw_lines_def)

lemma drop_cr_id: "l = [] \<or> last l \<noteq> CR \<Longrightarrow> drop_cr l = l"
  by (auto simp: drop_cr_def trim_suffix_char_def)

lemma scan_lines_unlines:
  assumes "\<forall>l\<in>set ls. scannable l"
  shows "scan_lines (unlines ls) = ls"
proof -
  have "raw_lines (unlines ls) = ls"
    using assms by (intro raw_lines_unlines) (auto simp: scannable_def)
  moreover have "takeWhile (\<lambda>l. length l < maxTokenSize) ls = ls"
    using assms by (simp only: scannable_def takeWhile_eq_all_conv) blast
  moreover have "map drop_cr ls = ls"
    using assms by (intro map_idI) (auto simp: scannable_def drop_cr_id)
  ultimately show ?thesis by (simp only: scan_lines_def)
qed

lemma scan_lines_stops:
  assumes "NL \<notin> set l" and "maxTokenSize \<le> length l"
  shows "scan_lines (l @ NL # r) = []"
proof -
  have l: "l \<noteq> []" using assms(2) by (auto simp: maxTokenSize_def)
  have "raw_lines (l @ NL # r) = l # raw_lines r"
    using assms(1) by (simp add: raw_lines_def split_on_append Let_def)
  with assms(2) show ?thesis by (simp add: scan_lines_def)
qed

lemma scan_lines_no_NL: "l \<in> set (scan_lines s) \<Longrightarrow> NL \<notin> set l"
proof -
  assume "l \<in> set (scan_lines s)"
  then obtain r where "r \<in> set (raw_lines s)" "l = drop_cr r"
    by (auto simp: scan_lines_def dest: set_takeWhileD)
  moreover then have "NL \<notin> set r"
    by (auto simp: raw_lines_def Let_def split: if_splits dest: in_set_butlastD split_on_set)
  ultimately show ?thesis
    by (auto simp: drop_cr_def trim_suffix_char_def split: if_splits dest: in_set_butlastD)
qed

section \<open>Decimal numbers\<close>

definition digit :: "nat \<Rightarrow> char" where
  "digit d = char_of (48 + d)"

definition digit_val :: "char \<Rightarrow> nat option" where
  "digit_val c = (let n = of_char c :: nat in if 48 \<le> n \<and> n \<le> 57 then Some (n - 48) else None)"

fun show_nat :: "nat \<Rightarrow> string" where
  "show_nat n = (if n < 10 then [digit n] else show_nat (n div 10) @ [digit (n mod 10)])"

declare show_nat.simps [simp del]

text \<open>The verb \<^verbatim>\<open>%d\<close>.\<close>

definition show_int :: "int \<Rightarrow> string" where
  "show_int i = (if i < 0 then CHR ''-'' # show_nat (nat (- i)) else show_nat (nat i))"

fun read_digits :: "nat \<Rightarrow> string \<Rightarrow> nat option" where
  "read_digits acc [] = Some acc"
| "read_digits acc (c # cs) =
     (case digit_val c of None \<Rightarrow> None | Some d \<Rightarrow> read_digits (10 * acc + d) cs)"

text \<open>
  \<^verbatim>\<open>strconv.Atoi\<close>: an optional sign and at least one digit; \<^const>\<open>None\<close> is a syntax error or a
  value outside the 64-bit range.
\<close>

definition atoi :: "string \<Rightarrow> int option" where
  "atoi s =
     (let (neg, ds) = (case s of
          [] \<Rightarrow> (False, s)
        | c # cs \<Rightarrow> (if c = CHR ''-'' then (True, cs) else if c = CHR ''+'' then (False, cs)
                     else (False, s)))
      in if ds = [] then None
         else case read_digits 0 ds of
           None \<Rightarrow> None
         | Some n \<Rightarrow>
             (let i = (if neg then - int n else int n)
              in if - (2 ^ 63) \<le> i \<and> i < 2 ^ 63 then Some i else None))"

lemma digit_val_digit [simp]: "d < 10 \<Longrightarrow> digit_val (digit d) = Some d"
  by (simp add: digit_val_def digit_def Let_def)

lemma digit_val_range: "digit_val c = Some d \<Longrightarrow> d < 10"
  by (auto simp: digit_val_def Let_def split: if_splits)

lemma digit_not_special:
  "d < 10 \<Longrightarrow> c = digit d \<Longrightarrow> digit_val c \<noteq> None"
  by simp

lemma show_nat_digits: "c \<in> set (show_nat n) \<Longrightarrow> \<exists>d<10. c = digit d"
proof (induction n rule: show_nat.induct)
  case (1 n)
  show ?case
  proof (cases "n < 10")
    case True
    with 1 show ?thesis by (subst (asm) (2) show_nat.simps) auto
  next
    case False
    with 1 have "c \<in> set (show_nat (n div 10)) \<or> c = digit (n mod 10)"
      by (subst (asm) (2) show_nat.simps) auto
    with 1 False show ?thesis by (metis mod_less_divisor zero_less_numeral)
  qed
qed

lemma show_nat_no: "digit_val c = None \<Longrightarrow> c \<notin> set (show_nat n)"
  using show_nat_digits by fastforce

lemma show_nat_not_Nil [simp]: "show_nat n \<noteq> []"
  by (subst show_nat.simps) simp

lemma read_digits_append:
  "read_digits acc (a @ b) = Option.bind (read_digits acc a) (\<lambda>n. read_digits n b)"
  by (induction a arbitrary: acc) (auto split: option.split)

lemma read_show_nat: "read_digits 0 (show_nat n) = Some n"
proof (induction n rule: show_nat.induct)
  case (1 n)
  show ?case
  proof (cases "n < 10")
    case True
    then show ?thesis by (subst show_nat.simps) simp
  next
    case False
    with 1 have "read_digits 0 (show_nat (n div 10)) = Some (n div 10)" by simp
    with False show ?thesis by (subst show_nat.simps) (simp add: read_digits_append)
  qed
qed

lemma show_nat_inj: "show_nat a = show_nat b \<Longrightarrow> a = b"
  by (metis option.inject read_show_nat)

lemma hd_show_nat: "\<exists>d<10. hd (show_nat n) = digit d"
  by (rule show_nat_digits [of _ n]) simp

lemma digit_neq: "d < 10 \<Longrightarrow> digit_val c = None \<Longrightarrow> digit d \<noteq> c"
  by auto

lemma digit_val_specials [simp]:
  "digit_val (CHR ''-'') = None" "digit_val (CHR ''+'') = None" "digit_val (CHR '':'') = None"
  "digit_val TAB = None" "digit_val NL = None" "digit_val CR = None"
  "digit_val (CHR '' '') = None" "digit_val (CHR ''_'') = None"
  by (simp_all add: digit_val_def)

lemma show_int_inj: "show_int a = show_int b \<Longrightarrow> a = b"
proof -
  have sep: "CHR ''-'' # show_nat m \<noteq> show_nat n" for m n
  proof
    assume "CHR ''-'' # show_nat m = show_nat n"
    then have "CHR ''-'' \<in> set (show_nat n)" by (metis list.set_intros(1))
    then show False using show_nat_no [of "CHR ''-''"] by simp
  qed
  assume "show_int a = show_int b"
  then show ?thesis
    using sep sep [symmetric]
    by (auto simp: show_int_def split: if_splits dest!: show_nat_inj)
qed

lemma show_int_no:
  "digit_val c = None \<Longrightarrow> c \<noteq> CHR ''-'' \<Longrightarrow> c \<notin> set (show_int i)"
  by (auto simp: show_int_def show_nat_no)

lemma show_int_not_Nil [simp]: "show_int i \<noteq> []"
  by (simp add: show_int_def)

lemma atoi_show_int:
  assumes "- (2 ^ 63) \<le> i" and "i < 2 ^ 63"
  shows "atoi (show_int i) = Some i"
proof (cases "i < 0")
  case True
  with assms show ?thesis by (simp add: atoi_def show_int_def read_show_nat)
next
  case False
  obtain c cs where c: "show_nat (nat i) = c # cs" by (cases "show_nat (nat i)") auto
  then obtain d where "d < 10" "c = digit d" using hd_show_nat [of "nat i"] by auto
  then have "c \<noteq> CHR ''-''" "c \<noteq> CHR ''+''" using digit_neq by auto
  with False assms show ?thesis
    using read_show_nat [of "nat i"] c by (simp add: atoi_def show_int_def)
qed

end
