(* ===== verification/LogCodec.thy ===== *)
theory LogCodec
  imports GoStrings
begin

text \<open>
  The operation log of a HyDFS file is a text file with one JSON object per line
  (\<^verbatim>\<open>utils.OperationLogEntry\<close> through \<^verbatim>\<open>encoding/json\<close>): the operation ID as a JSON string, the
  data in base64, \<^verbatim>\<open>null\<close> for no data (an empty byte slice arrives over RPC as nil). Bytes
  above 127 are passed through, as the library does for valid UTF-8. The decoder accepts the
  lines the encoder writes; the program never meets other lines.
\<close>

section \<open>Base64\<close>

definition b64_alphabet :: string where
  "b64_alphabet = ''ABCDEFGHIJKLMNOPQRSTUVWXYZabcdefghijklmnopqrstuvwxyz0123456789+/''"

definition b64_char :: "nat \<Rightarrow> char" where "b64_char n = b64_alphabet ! n"

definition b64_val :: "char \<Rightarrow> nat option" where "b64_val c = index_of c b64_alphabet"

lemma b64_val_char:
  assumes "n < 64"
  shows "b64_val (b64_char n) = Some n \<and> b64_char n \<noteq> CHR ''='' \<and> b64_char n \<noteq> NL
    \<and> b64_char n \<noteq> DQ"
proof -
  have "list_all (\<lambda>n. b64_val (b64_char n) = Some n \<and> b64_char n \<noteq> CHR ''='' \<and> b64_char n \<noteq> NL
      \<and> b64_char n \<noteq> DQ) [0..<64]"
    by code_simp
  with assms show ?thesis by (auto simp: list_all_iff)
qed

fun base64 :: "string \<Rightarrow> string" where
  "base64 [] = []"
| "base64 [a] = (let x = of_char a in
     [b64_char (x div 4), b64_char (x mod 4 * 16), CHR ''='', CHR ''=''])"
| "base64 [a, b] = (let x = of_char a; y = of_char b in
     [b64_char (x div 4), b64_char (x mod 4 * 16 + y div 16), b64_char (y mod 16 * 4), CHR ''=''])"
| "base64 (a # b # c # r) = (let x = of_char a; y = of_char b; z = of_char c in
     [b64_char (x div 4), b64_char (x mod 4 * 16 + y div 16), b64_char (y mod 16 * 4 + z div 64),
      b64_char (z mod 64)] @ base64 r)"

fun unbase64 :: "string \<Rightarrow> string option" where
  "unbase64 [] = Some []"
| "unbase64 (w # x # y # z # r) =
     (case (b64_val w, b64_val x) of
        (Some w', Some x') \<Rightarrow>
          if y = CHR ''='' \<and> z = CHR ''='' \<and> r = [] then Some [char_of (w' * 4 + x' div 16)]
          else (case b64_val y of
             None \<Rightarrow> None
           | Some y' \<Rightarrow>
               if z = CHR ''='' \<and> r = []
               then Some [char_of (w' * 4 + x' div 16), char_of (x' mod 16 * 16 + y' div 4)]
               else (case (b64_val z, unbase64 r) of
                  (Some z', Some rest) \<Rightarrow>
                    Some ([char_of (w' * 4 + x' div 16), char_of (x' mod 16 * 16 + y' div 4),
                           char_of (y' mod 4 * 64 + z')] @ rest)
                | _ \<Rightarrow> None))
      | _ \<Rightarrow> None)"
| "unbase64 _ = None"

lemma b64_arith:
  fixes x y z :: nat
  assumes "x < 256" "y < 256" "z < 256"
  shows "x div 4 < 64" "x mod 4 * 16 < 64" "x mod 4 * 16 + y div 16 < 64" "y mod 16 * 4 < 64"
    "y mod 16 * 4 + z div 64 < 64" "z mod 64 < 64"
    "y div 16 div 16 = 0" "y div 16 mod 16 = y div 16" "z div 64 div 4 = 0" "z div 64 mod 4 = z div 64"
proof -
  have b: "x div 4 < 64" "x mod 4 < 4" "y div 16 < 16" "y mod 16 < 16" "z div 64 < 4" "z mod 64 < 64"
    using assms by simp_all
  then show "x div 4 < 64" "x mod 4 * 16 < 64" "x mod 4 * 16 + y div 16 < 64" "y mod 16 * 4 < 64"
    "y mod 16 * 4 + z div 64 < 64" "z mod 64 < 64"
    by linarith+
  show "y div 16 div 16 = 0" "y div 16 mod 16 = y div 16" "z div 64 div 4 = 0"
    "z div 64 mod 4 = z div 64"
    using b by simp_all
qed

lemma b64_middle: "char_of ((of_char c :: nat) div 16 mod 16 * 16 + of_char c mod 16) = c"
proof -
  have "(of_char c :: nat) div 16 < 16" using nat_of_char_less_256 [of c] by linarith
  then have "(of_char c :: nat) div 16 mod 16 = of_char c div 16" by (rule mod_less)
  then show ?thesis by (simp only: div_mult_mod_eq char_of_char)
qed

lemma unbase64_base64: "unbase64 (base64 s) = Some s"
proof (induction s rule: base64.induct)
  case (2 a)
  then show ?case using b64_arith [of "of_char a" 0 0] by (simp add: Let_def b64_val_char)
next
  case (3 a b)
  then show ?case
    using b64_arith [of "of_char a" "of_char b" 0]
    by (simp add: Let_def b64_val_char b64_middle)
next
  case (4 a b c r)
  then show ?case
    using b64_arith [of "of_char a" "of_char b" "of_char c"]
    by (simp add: Let_def b64_val_char b64_middle)
qed simp

lemma base64_set: "c \<in> set (base64 s) \<Longrightarrow> c \<noteq> NL \<and> c \<noteq> DQ"
proof (induction s rule: base64.induct)
  case (2 a)
  then show ?case using b64_arith [of "of_char a" 0 0] by (auto simp: Let_def b64_val_char)
next
  case (3 a b)
  then show ?case
    using b64_arith [of "of_char a" "of_char b" 0] by (auto simp: Let_def b64_val_char)
next
  case (4 a b c' r)
  then show ?case
    using b64_arith [of "of_char a" "of_char b" "of_char c'"] by (auto simp: Let_def b64_val_char)
qed simp

lemma length_base64: "length (base64 s) = 4 * ((length s + 2) div 3)"
proof (induction s rule: base64.induct)
  case (4 a b c r)
  have "length (a # b # c # r) + 2 = (length r + 2) + 3" by simp
  then have "(length (a # b # c # r) + 2) div 3 = Suc ((length r + 2) div 3)" by simp
  with 4 show ?case by (simp add: Let_def)
qed (simp_all add: Let_def)

section \<open>JSON strings\<close>

definition hex_char :: "nat \<Rightarrow> char" where "hex_char n = ''0123456789abcdef'' ! n"

definition hex_val :: "char \<Rightarrow> nat option" where "hex_val c = index_of c ''0123456789abcdef''"

lemma hex_val_char:
  assumes "n < 16"
  shows "hex_val (hex_char n) = Some n \<and> hex_char n \<noteq> NL"
proof -
  have "list_all (\<lambda>n. hex_val (hex_char n) = Some n \<and> hex_char n \<noteq> NL) [0..<16]"
    by code_simp
  with assms show ?thesis by (auto simp: list_all_iff)
qed

definition json_esc :: "char \<Rightarrow> string" where
  "json_esc c =
     (if c = DQ then [CHR 0x5C, DQ]
      else if c = CHR 0x5C then [CHR 0x5C, CHR 0x5C]
      else if c = NL then [CHR 0x5C, CHR ''n'']
      else if c = CR then [CHR 0x5C, CHR ''r'']
      else if c = TAB then [CHR 0x5C, CHR ''t'']
      else if c = CHR 0x08 then [CHR 0x5C, CHR ''b'']
      else if c = CHR 0x0C then [CHR 0x5C, CHR ''f'']
      else if (of_char c :: nat) < 32 \<or> c \<in> {CHR ''<'', CHR ''>'', CHR ''&''}
      then [CHR 0x5C, CHR ''u'', CHR ''0'', CHR ''0'',
            hex_char (of_char c div 16), hex_char (of_char c mod 16)]
      else [c])"

definition json_quote :: "string \<Rightarrow> string" where
  "json_quote s = DQ # concat (map json_esc s) @ [DQ]"

text \<open>Reads the rest of a JSON string after its opening quote.\<close>

fun json_unquote :: "string \<Rightarrow> (string \<times> string) option" where
  "json_unquote [] = None"
| "json_unquote (c # r) =
     (if c = DQ then Some ([], r)
      else if c = CHR 0x5C then
        (case r of
           [] \<Rightarrow> None
         | e # r1 \<Rightarrow>
             if e = CHR ''u'' then
               (case r1 of
                  z1 # z2 # h # l # r2 \<Rightarrow>
                    (case (hex_val h, hex_val l) of
                       (Some h', Some l') \<Rightarrow>
                         if z1 = CHR ''0'' \<and> z2 = CHR ''0''
                         then map_option (apfst ((#) (char_of (16 * h' + l')))) (json_unquote r2)
                         else None
                     | _ \<Rightarrow> None)
                | _ \<Rightarrow> None)
             else map_option (apfst ((#) (if e = CHR ''n'' then NL else if e = CHR ''r'' then CR
                     else if e = CHR ''t'' then TAB else if e = CHR ''b'' then CHR 0x08
                     else if e = CHR ''f'' then CHR 0x0C else e))) (json_unquote r1))
      else map_option (apfst ((#) c)) (json_unquote r))"

lemma json_unquote_esc: "json_unquote (json_esc c @ r) = map_option (apfst ((#) c)) (json_unquote r)"
proof -
  let ?n = "of_char c :: nat"
  have n: "?n div 16 < 16" "?n mod 16 < 16" "16 * (?n div 16) + ?n mod 16 = ?n"
    using nat_of_char_less_256 [of c] by presburger+
  show ?thesis
    using n by (auto simp: json_esc_def hex_val_char)
qed

lemma json_unquote_quote: "json_unquote (concat (map json_esc s) @ DQ # r) = Some (s, r)"
  by (induction s) (simp_all add: json_unquote_esc)

lemma json_esc_NL: "NL \<notin> set (json_esc c)"
proof -
  let ?n = "of_char c :: nat"
  have "?n div 16 < 16" "?n mod 16 < 16"
    using nat_of_char_less_256 [of c] by presburger+
  then have "hex_char (?n div 16) \<noteq> NL" "hex_char (?n mod 16) \<noteq> NL"
    using hex_val_char by blast+
  then show ?thesis by (simp add: json_esc_def)
qed

section \<open>Log lines\<close>

text \<open>\<^verbatim>\<open>utils.OperationLogEntry\<close>.\<close>

record OperationLogEntry =
  OpID :: string
  Data :: string

definition marshal :: "OperationLogEntry \<Rightarrow> string" where
  "marshal e =
     ''{'' @ json_quote ''op_id'' @ '':'' @ json_quote (OpID e) @ '','' @ json_quote ''data'' @ '':''
     @ (if Data e = [] then ''null'' else DQ # base64 (Data e) @ [DQ]) @ ''}''"

definition strip :: "string \<Rightarrow> string \<Rightarrow> string option" where
  "strip p s = (if has_prefix p s then Some (drop (length p) s) else None)"

definition unmarshal :: "string \<Rightarrow> OperationLogEntry option" where
  "unmarshal s =
     Option.bind (strip (''{'' @ json_quote ''op_id'' @ '':'' @ [DQ]) s) (\<lambda>s1.
     Option.bind (json_unquote s1) (\<lambda>(opid, s2).
     Option.bind (strip ('','' @ json_quote ''data'' @ '':'') s2) (\<lambda>s3.
       if s3 = ''null}'' then Some \<lparr>OpID = opid, Data = []\<rparr>
       else Option.bind (strip [DQ] s3) (\<lambda>s4.
            Option.bind (unbase64 (takeWhile (\<lambda>c. c \<noteq> DQ) s4)) (\<lambda>d.
              if dropWhile (\<lambda>c. c \<noteq> DQ) s4 = [DQ, CHR ''}''] then Some \<lparr>OpID = opid, Data = d\<rparr>
              else None)))))"

lemma strip_append [simp]: "strip p (p @ r) = Some r"
  by (auto simp: strip_def has_prefix_def)

lemma base64_until_quote:
  "takeWhile (\<lambda>c. c \<noteq> DQ) (base64 d @ DQ # r) = base64 d"
  "dropWhile (\<lambda>c. c \<noteq> DQ) (base64 d @ DQ # r) = DQ # r"
proof -
  have "\<forall>c\<in>set (base64 d). c \<noteq> DQ" using base64_set by blast
  then show "takeWhile (\<lambda>c. c \<noteq> DQ) (base64 d @ DQ # r) = base64 d"
    "dropWhile (\<lambda>c. c \<noteq> DQ) (base64 d @ DQ # r) = DQ # r"
    by (simp_all add: takeWhile_append2 dropWhile_append2)
qed

text \<open>The two fixed parts of a line.\<close>

definition line_head :: string where "line_head = ''{'' @ json_quote ''op_id'' @ '':'' @ [DQ]"
definition line_middle :: string where "line_middle = '','' @ json_quote ''data'' @ '':''"

definition line_data :: "string \<Rightarrow> string" where
  "line_data d = (if d = [] then ''null}'' else [DQ] @ base64 d @ [DQ, CHR ''}''])"

definition unmarshal_data :: "string \<Rightarrow> string \<Rightarrow> OperationLogEntry option" where
  "unmarshal_data opid s3 =
     (if s3 = ''null}'' then Some \<lparr>OpID = opid, Data = []\<rparr>
      else Option.bind (strip [DQ] s3) (\<lambda>s4.
           Option.bind (unbase64 (takeWhile (\<lambda>c. c \<noteq> DQ) s4)) (\<lambda>d.
             if dropWhile (\<lambda>c. c \<noteq> DQ) s4 = [DQ, CHR ''}''] then Some \<lparr>OpID = opid, Data = d\<rparr>
             else None)))"

lemma unmarshal_line_data: "unmarshal_data opid (line_data d) = Some \<lparr>OpID = opid, Data = d\<rparr>"
proof (cases "d = []")
  case True
  then show ?thesis by (simp add: unmarshal_data_def line_data_def)
next
  case False
  have "[DQ] @ base64 d @ [DQ, CHR ''}''] \<noteq> ''null}''" by simp
  then show ?thesis
    unfolding unmarshal_data_def line_data_def using False
    by (simp only: if_False strip_append Option.bind.bind_lunit base64_until_quote unbase64_base64) simp
qed

lemma unmarshal_alt:
  "unmarshal s =
     Option.bind (strip line_head s) (\<lambda>s1.
     Option.bind (json_unquote s1) (\<lambda>(opid, s2).
     Option.bind (strip line_middle s2) (unmarshal_data opid)))"
  unfolding unmarshal_def line_head_def line_middle_def unmarshal_data_def [abs_def] by (rule refl)

lemma marshal_alt:
  "marshal e = line_head @ concat (map json_esc (OpID e)) @ DQ # line_middle @ line_data (Data e)"
  by (simp add: marshal_def json_quote_def line_head_def line_middle_def line_data_def)

lemma unmarshal_marshal: "unmarshal (marshal e) = Some e"
  unfolding unmarshal_alt marshal_alt
  by (simp add: json_unquote_quote unmarshal_line_data)

lemma marshal_inj: "marshal e = marshal e' \<Longrightarrow> e = e'"
  by (metis option.inject unmarshal_marshal)

lemma NL_marshal: "NL \<notin> set (marshal e)"
  using json_esc_NL base64_set by (auto simp: marshal_def json_quote_def)

lemma last_marshal: "last (marshal e) = CHR ''}''" "marshal e \<noteq> []"
  by (simp_all add: marshal_def)

lemma scannable_marshal: "length (marshal e) < maxTokenSize \<Longrightarrow> scannable (marshal e)"
  by (simp add: scannable_def NL_marshal last_marshal)

lemma length_marshal_ge: "4 * ((length (Data e) + 2) div 3) \<le> length (marshal e)"
  by (simp add: marshal_def length_base64)

section \<open>Reading a log\<close>

text \<open>
  The reading loop of \<^verbatim>\<open>GetLocalOperationLog\<close>: scan the lines and keep the ones that decode.
\<close>

definition read_log :: "string \<Rightarrow> OperationLogEntry list" where
  "read_log s = List.map_filter unmarshal (scan_lines s)"

definition log_text :: "OperationLogEntry list \<Rightarrow> string" where
  "log_text es = unlines (map marshal es)"

lemma log_text_snoc: "log_text es @ marshal e @ [NL] = log_text (es @ [e])"
  by (simp add: log_text_def)

definition small :: "OperationLogEntry \<Rightarrow> bool" where
  "small e \<longleftrightarrow> length (marshal e) < maxTokenSize"

lemma read_log_text:
  assumes "\<forall>e\<in>set es. small e"
  shows "read_log (log_text es) = es"
proof -
  have "scan_lines (log_text es) = map marshal es"
    unfolding log_text_def using assms
    by (intro scan_lines_unlines) (auto simp: small_def scannable_marshal)
  then show ?thesis by (simp add: read_log_def map_filter_def unmarshal_marshal o_def)
qed

text \<open>An entry that does not fit the scanner hides itself and everything after it.\<close>

lemma read_log_oversized:
  assumes "\<forall>e\<in>set es. small e" and "\<not> small big"
  shows "read_log (log_text (es @ big # rest)) = es"
proof -
  have "raw_lines (log_text (es @ big # rest)) = map marshal (es @ big # rest)"
    unfolding log_text_def by (rule raw_lines_unlines) (auto simp: NL_marshal)
  moreover have "takeWhile (\<lambda>l. length l < maxTokenSize) (map marshal (es @ big # rest)) = map marshal es"
    using assms by (subst map_append, subst takeWhile_append2) (auto simp: small_def)
  moreover have "map drop_cr (map marshal es) = map marshal es"
    by (rule map_idI) (auto simp: drop_cr_id last_marshal)
  ultimately have "scan_lines (log_text (es @ big # rest)) = map marshal es"
    by (simp only: scan_lines_def)
  then show ?thesis by (simp add: read_log_def map_filter_def unmarshal_marshal o_def)
qed

lemma big_not_small: "maxTokenSize \<le> length (Data e) \<Longrightarrow> \<not> small e"
  using length_marshal_ge [of e] by (auto simp: small_def)

end
