(* ===== verification/FileNode.thy ===== *)
theory FileNode
  imports LogCodec
begin

text \<open>
  One HyDFS node (\<^verbatim>\<open>node/node.go\<close>): its data files, its operation logs, and the mutex of every
  file name. Handlers take a description of what the disk does to each of their calls. A
  mutex that a handler leaves locked on return stays locked: the next handler that wants it
  is \<^const>\<open>Blocked\<close>. File names are taken as directory entries (no path separators).
\<close>

record WriteFileArgs =
  HyDFSFileName :: string
  LocalFile :: string
  NonPrimary :: "string list"
  OperationID :: string

record ReconcileArgs =
  recName :: string
  FinalDataFile :: string
  FinalLogEntries :: string
  FinalDataHash :: string

record hnode =
  files :: "(string \<times> string) list"
  logs :: "(string \<times> string) list"
  fileMetadata :: "(string \<times> bool) list"

definition empty_hnode :: hnode where
  "empty_hnode = \<lparr>files = [], logs = [], fileMetadata = []\<rparr>"

section \<open>Disk\<close>

text \<open>
  One write call: all bytes written, refused with nothing written, or torn after some bytes.
  The program sees an error in the last two cases.
\<close>

datatype write_result = Written | Refused | Torn nat

fun landed :: "write_result \<Rightarrow> string \<Rightarrow> string" where
  "landed Written d = d"
| "landed Refused d = []"
| "landed (Torn n) d = take n d"

record disk =
  dFile :: write_result
  dOpenFile :: bool
  dOpenLog :: bool
  dLog :: write_result

definition goodDisk :: disk where
  "goodDisk = \<lparr>dFile = Written, dOpenFile = True, dOpenLog = True, dLog = Written\<rparr>"

lemma goodDisk_simps [simp]:
  "dFile goodDisk = Written" "dOpenFile goodDisk" "dOpenLog goodDisk" "dLog goodDisk = Written"
  by (simp_all add: goodDisk_def)

definition put_file :: "string \<Rightarrow> string \<Rightarrow> hnode \<Rightarrow> hnode" where
  "put_file f d h = h\<lparr>files := AList.update f d (files h)\<rparr>"

definition put_log :: "string \<Rightarrow> string \<Rightarrow> hnode \<Rightarrow> hnode" where
  "put_log f d h = h\<lparr>logs := AList.update f d (logs h)\<rparr>"

definition drop_file :: "string \<Rightarrow> hnode \<Rightarrow> hnode" where
  "drop_file f h = h\<lparr>files := AList.delete f (files h)\<rparr>"

definition drop_log :: "string \<Rightarrow> hnode \<Rightarrow> hnode" where
  "drop_log f h = h\<lparr>logs := AList.delete f (logs h)\<rparr>"

definition file_at :: "hnode \<Rightarrow> string \<Rightarrow> string option" where
  "file_at h f = map_of (files h) f"

definition log_at :: "hnode \<Rightarrow> string \<Rightarrow> string option" where
  "log_at h f = map_of (logs h) f"

text \<open>\<^verbatim>\<open>os.WriteFile\<close>: a refused call leaves the file as it was, a torn one truncates it first.\<close>

definition write_file :: "write_result \<Rightarrow> string \<Rightarrow> string \<Rightarrow> hnode \<Rightarrow> hnode" where
  "write_file r f d h = (if r = Refused then h else put_file f (landed r d) h)"

definition write_log :: "write_result \<Rightarrow> string \<Rightarrow> string \<Rightarrow> hnode \<Rightarrow> hnode" where
  "write_log r f d h = (if r = Refused then h else put_log f (landed r d) h)"

text \<open>Writing at the end of a file opened with \<^verbatim>\<open>O_APPEND\<close>.\<close>

definition append_file :: "write_result \<Rightarrow> string \<Rightarrow> string \<Rightarrow> hnode \<Rightarrow> hnode" where
  "append_file r f d h =
     put_file f ((case file_at h f of Some c \<Rightarrow> c | None \<Rightarrow> []) @ landed r d) h"

definition append_log :: "write_result \<Rightarrow> string \<Rightarrow> string \<Rightarrow> hnode \<Rightarrow> hnode" where
  "append_log r f d h =
     put_log f ((case log_at h f of Some c \<Rightarrow> c | None \<Rightarrow> []) @ landed r d) h"

lemmas disk_defs = put_file_def put_log_def drop_file_def drop_log_def file_at_def log_at_def
  write_file_def write_log_def append_file_def append_log_def

lemma at_simps [simp]:
  "file_at (put_file f d h) g = (if g = f then Some d else file_at h g)"
  "file_at (put_log f d h) g = file_at h g"
  "log_at (put_file f d h) g = log_at h g"
  "log_at (put_log f d h) g = (if g = f then Some d else log_at h g)"
  "file_at (drop_file f h) g = (if g = f then None else file_at h g)"
  "file_at (drop_log f h) g = file_at h g"
  "log_at (drop_file f h) g = log_at h g"
  "log_at (drop_log f h) g = (if g = f then None else log_at h g)"
  by (simp_all add: disk_defs)

section \<open>Mutexes\<close>

text \<open>\<^verbatim>\<open>getFileMetadata\<close>: the entry of a file name, made on first use, with its mutex free.\<close>

definition getFileMetadata :: "string \<Rightarrow> hnode \<Rightarrow> hnode" where
  "getFileMetadata f h =
     (case map_of (fileMetadata h) f of
        Some _ \<Rightarrow> h
      | None \<Rightarrow> h\<lparr>fileMetadata := AList.update f False (fileMetadata h)\<rparr>)"

definition is_locked :: "hnode \<Rightarrow> string \<Rightarrow> bool" where
  "is_locked h f \<longleftrightarrow> map_of (fileMetadata h) f = Some True"

definition lock_forever :: "string \<Rightarrow> hnode \<Rightarrow> hnode" where
  "lock_forever f h = h\<lparr>fileMetadata := AList.update f True (fileMetadata h)\<rparr>"

text \<open>
  Run a handler body under the mutex of a file. The body says whether the mutex is released
  when it returns.
\<close>

definition with_lock :: "string \<Rightarrow> hnode \<Rightarrow> (hnode \<Rightarrow> hnode \<times> bool \<times> 'r outcome) \<Rightarrow> hnode \<times> 'r outcome" where
  "with_lock f h body =
     (let h = getFileMetadata f h in
      if is_locked h f then (h, Blocked)
      else (case body h of (h', released, r) \<Rightarrow> (if released then h' else lock_forever f h', r)))"

lemma getFileMetadata_simps [simp]:
  "files (getFileMetadata f h) = files h" "logs (getFileMetadata f h) = logs h"
  "file_at (getFileMetadata f h) g = file_at h g" "log_at (getFileMetadata f h) g = log_at h g"
  "is_locked (getFileMetadata f h) g = is_locked h g"
  by (auto simp: getFileMetadata_def disk_defs is_locked_def split: option.split)

lemma lock_forever_simps [simp]:
  "files (lock_forever f h) = files h" "logs (lock_forever f h) = logs h"
  "file_at (lock_forever f h) g = file_at h g" "log_at (lock_forever f h) g = log_at h g"
  "is_locked (lock_forever f h) g = (g = f \<or> is_locked h g)"
  by (auto simp: lock_forever_def disk_defs is_locked_def)

lemma locked_frame [simp]:
  "is_locked (put_file f d h) g = is_locked h g" "is_locked (put_log f d h) g = is_locked h g"
  "is_locked (drop_file f h) g = is_locked h g" "is_locked (drop_log f h) g = is_locked h g"
  by (simp_all add: is_locked_def disk_defs)

lemma with_lock_blocked: "is_locked h f \<Longrightarrow> with_lock f h body = (getFileMetadata f h, Blocked)"
  by (simp add: with_lock_def)

lemma with_lock_free:
  "\<not> is_locked h f \<Longrightarrow> with_lock f h body =
     (case body (getFileMetadata f h) of (h', released, r) \<Rightarrow> (if released then h' else lock_forever f h', r))"
  by (simp add: with_lock_def)

section \<open>Handlers\<close>

definition FileInLocal :: "string \<Rightarrow> hnode \<Rightarrow> bool" where
  "FileInLocal f h \<longleftrightarrow> file_at h f \<noteq> None"

definition log_line :: "WriteFileArgs \<Rightarrow> string" where
  "log_line args = marshal \<lparr>OpID = OperationID args, Data = LocalFile args\<rparr> @ [NL]"

text \<open>
  \<^verbatim>\<open>CreateFile\<close> up to the point where it has released the mutex. A reply with success means the
  handler goes on to the fan-out. Every path releases the mutex.
\<close>

definition create_local :: "disk \<Rightarrow> WriteFileArgs \<Rightarrow> hnode \<Rightarrow> hnode \<times> status outcome" where
  "create_local d args h =
     (let f = HyDFSFileName args in
      with_lock f h (\<lambda>h.
        if log_at h f \<noteq> None then (h, True, Reply (failReply ''Error: File already exists.''))
        else let h1 = write_file (dFile d) f (LocalFile args) h in
          if dFile d \<noteq> Written then (h1, True, Error ''write'')
          else if \<not> dOpenLog d then (drop_file f h1, True, Error ''open log'')
          else let h2 = append_log (dLog d) f (log_line args) h1 in
            if dLog d \<noteq> Written then (drop_log f (drop_file f h2), True, Error ''write log'')
            else (h2, True, Reply okReply)))"

text \<open>
  \<^verbatim>\<open>AppendFile\<close> up to the same point. The two early returns before the first write (log file
  missing, data file cannot be opened) do not release the mutex: the unlock is commented out.
\<close>

definition append_local :: "disk \<Rightarrow> WriteFileArgs \<Rightarrow> hnode \<Rightarrow> hnode \<times> status outcome" where
  "append_local d args h =
     (let f = HyDFSFileName args in
      with_lock f h (\<lambda>h.
        if log_at h f = None then (h, False, Reply (failReply ''Error: File not found.''))
        else if file_at h f = None \<or> \<not> dOpenFile d then (h, False, Error ''open'')
        else let h1 = append_file (dFile d) f (LocalFile args) h in
          if dFile d \<noteq> Written then (h1, True, Error ''write'')
          else if \<not> dOpenLog d then (h1, True, Error ''open log'')
          else let h2 = append_log (dLog d) f (log_line args) h1 in
            if dLog d \<noteq> Written then (h2, True, Error ''write log'')
            else (h2, True, Reply okReply)))"

definition GetFile :: "bool \<Rightarrow> string \<Rightarrow> hnode \<Rightarrow> hnode \<times> (status \<times> string) outcome" where
  "GetFile readOk f h =
     with_lock f h (\<lambda>h.
       (h, True,
        case file_at h f of
          None \<Rightarrow> Reply (failReply ''Error: File not found.'', [])
        | Some c \<Rightarrow> if readOk then Reply (okReply, c) else Error ''read''))"

text \<open>The digest is \<^verbatim>\<open>crypto/sha256\<close>, an argument of the handlers that use it.\<close>

definition CheckFile :: "(string \<Rightarrow> string) \<Rightarrow> string \<Rightarrow> hnode \<Rightarrow> hnode \<times> (status \<times> string) outcome" where
  "CheckFile sha f h =
     with_lock f h (\<lambda>h.
       (h, True,
        case file_at h f of
          None \<Rightarrow> Reply (failReply ''no such file'', [])
        | Some c \<Rightarrow> Reply (okReply, sha c)))"

definition localReconcileFile :: "(string \<Rightarrow> string) \<Rightarrow> disk \<Rightarrow> ReconcileArgs \<Rightarrow> hnode \<Rightarrow> hnode \<times> bool" where
  "localReconcileFile sha d args h =
     (let f = recName args;
          same = (case file_at h f of Some c \<Rightarrow> sha c = FinalDataHash args | None \<Rightarrow> False)
      in if same then (write_log (dLog d) f (FinalLogEntries args) h, dLog d = Written)
         else let h1 = write_file (dFile d) f (FinalDataFile args) h in
           if dFile d \<noteq> Written then (h1, False)
           else (write_log (dLog d) f (FinalLogEntries args) h1, dLog d = Written))"

definition ReconcileFile :: "(string \<Rightarrow> string) \<Rightarrow> disk \<Rightarrow> ReconcileArgs \<Rightarrow> hnode \<Rightarrow> hnode \<times> bool outcome" where
  "ReconcileFile sha d args h =
     with_lock (recName args) h (\<lambda>h.
       case localReconcileFile sha d args h of
         (h', ok) \<Rightarrow> (h', True, if ok then Reply True else Error ''reconcile''))"

definition GetLocalOperationLog :: "string \<Rightarrow> hnode \<Rightarrow> OperationLogEntry list option" where
  "GetLocalOperationLog f h = map_option read_log (log_at h f)"

definition GetOperationLog :: "string \<Rightarrow> hnode \<Rightarrow> hnode \<times> (bool \<times> OperationLogEntry list) outcome" where
  "GetOperationLog f h =
     with_lock f h (\<lambda>h.
       (h, True,
        case GetLocalOperationLog f h of
          None \<Rightarrow> Reply (False, [])
        | Some es \<Rightarrow> Reply (True, es)))"

section \<open>What the handlers do\<close>

text \<open>
  The consistency invariant of a file on a node: the log is the text of some operations and
  the data file is their data in order; every line of the log fits the scanner.
\<close>

definition holds_ops :: "hnode \<Rightarrow> string \<Rightarrow> OperationLogEntry list \<Rightarrow> bool" where
  "holds_ops h f es \<longleftrightarrow>
     log_at h f = Some (log_text es) \<and> file_at h f = Some (concat (map Data es))"

lemma create_local_ok:
  assumes "\<not> is_locked h (HyDFSFileName args)" and "log_at h (HyDFSFileName args) = None"
  shows "\<exists>h'. create_local goodDisk args h = (h', Reply okReply) \<and>
    holds_ops h' (HyDFSFileName args) [\<lparr>OpID = OperationID args, Data = LocalFile args\<rparr>] \<and>
    (\<forall>g. g \<noteq> HyDFSFileName args \<longrightarrow> file_at h' g = file_at h g \<and> log_at h' g = log_at h g) \<and>
    (\<forall>g. is_locked h' g = is_locked h g)"
  using assms
  by (simp add: create_local_def with_lock_free Let_def holds_ops_def write_file_def append_log_def
      log_line_def log_text_def)

lemma append_local_ok:
  assumes "\<not> is_locked h (HyDFSFileName args)" and "holds_ops h (HyDFSFileName args) es"
  shows "\<exists>h'. append_local goodDisk args h = (h', Reply okReply) \<and>
    holds_ops h' (HyDFSFileName args) (es @ [\<lparr>OpID = OperationID args, Data = LocalFile args\<rparr>]) \<and>
    (\<forall>g. g \<noteq> HyDFSFileName args \<longrightarrow> file_at h' g = file_at h g \<and> log_at h' g = log_at h g) \<and>
    (\<forall>g. is_locked h' g = is_locked h g)"
  using assms
  by (simp add: append_local_def with_lock_free Let_def holds_ops_def append_file_def append_log_def
      log_line_def log_text_def)

text \<open>An append, whatever the disk does, that reports success appended the bytes and the log line.\<close>

lemma append_local_Reply:
  assumes "append_local d args h = (h', Reply s)" and "success s"
  shows "\<not> is_locked h (HyDFSFileName args)"
    and "\<exists>c l. file_at h (HyDFSFileName args) = Some c \<and> log_at h (HyDFSFileName args) = Some l \<and>
          file_at h' (HyDFSFileName args) = Some (c @ LocalFile args) \<and>
          log_at h' (HyDFSFileName args) = Some (l @ log_line args)"
  using assms
  by (auto simp: append_local_def with_lock_def Let_def append_file_def append_log_def
      split: if_splits)

lemma create_local_Reply:
  assumes "create_local d args h = (h', Reply s)" and "success s"
  shows "\<not> is_locked h (HyDFSFileName args)" and "log_at h (HyDFSFileName args) = None"
    and "file_at h' (HyDFSFileName args) = Some (LocalFile args)"
    and "log_at h' (HyDFSFileName args) = Some (log_line args)"
  using assms
  by (auto simp: create_local_def with_lock_def Let_def write_file_def append_log_def split: if_splits)

text \<open>Whatever happens, an append leaves the old bytes in place: the content only grows.\<close>

lemma append_local_grows:
  assumes "file_at h f = Some c"
  shows "\<exists>x. file_at (fst (append_local d args h)) f = Some (c @ x)"
  using assms
  by (auto simp: append_local_def with_lock_def Let_def append_file_def append_log_def)

lemma create_local_other:
  "g \<noteq> HyDFSFileName args \<Longrightarrow> file_at (fst (create_local d args h)) g = file_at h g
     \<and> log_at (fst (create_local d args h)) g = log_at h g"
  by (simp add: create_local_def with_lock_def Let_def write_file_def append_log_def)

lemma append_local_other:
  "g \<noteq> HyDFSFileName args \<Longrightarrow> file_at (fst (append_local d args h)) g = file_at h g
     \<and> log_at (fst (append_local d args h)) g = log_at h g"
  by (simp add: append_local_def with_lock_def Let_def append_file_def append_log_def)

lemma create_keeps_locks: "is_locked (fst (create_local d args h)) g = is_locked h g"
  by (simp add: create_local_def with_lock_def Let_def write_file_def append_log_def)

text \<open>Appending to a file the node does not have locks the file name for good.\<close>

lemma append_missing_leaks:
  assumes "\<not> is_locked h (HyDFSFileName args)" and "log_at h (HyDFSFileName args) = None"
  shows "snd (append_local d args h) = Reply (failReply ''Error: File not found.'')"
    and "is_locked (fst (append_local d args h)) (HyDFSFileName args)"
  using assms by (simp_all add: append_local_def with_lock_free Let_def)

lemma locked_blocks_all:
  assumes "is_locked h f"
  shows "HyDFSFileName args = f \<Longrightarrow> snd (create_local d args h) = Blocked"
    and "HyDFSFileName args = f \<Longrightarrow> snd (append_local d args h) = Blocked"
    and "snd (GetFile r f h) = Blocked"
    and "snd (CheckFile sha f h) = Blocked"
    and "recName rargs = f \<Longrightarrow> snd (ReconcileFile sha d rargs h) = Blocked"
    and "snd (GetOperationLog f h) = Blocked"
  using assms
  by (simp_all add: create_local_def append_local_def GetFile_def CheckFile_def ReconcileFile_def
      GetOperationLog_def with_lock_blocked Let_def)

lemma GetFile_content:
  assumes "\<not> is_locked h f" and "file_at h f = Some c"
  shows "snd (GetFile True f h) = Reply (okReply, c)"
  using assms by (simp add: GetFile_def with_lock_free)

lemma GetFile_frame:
  "file_at (fst (GetFile r f h)) g = file_at h g" "log_at (fst (GetFile r f h)) g = log_at h g"
  "is_locked (fst (GetFile r f h)) g = is_locked h g"
  by (simp_all add: GetFile_def with_lock_def Let_def)

text \<open>
  Reconciliation installs the given content. When the digests agree the data file is not
  rewritten, so the digest must not collide on these two contents.
\<close>

lemma localReconcile_ok:
  assumes "FinalDataHash args = sha (FinalDataFile args)"
    and "\<And>c. file_at h (recName args) = Some c \<Longrightarrow> sha c = sha (FinalDataFile args) \<Longrightarrow> c = FinalDataFile args"
  shows "\<exists>h'. localReconcileFile sha goodDisk args h = (h', True) \<and>
    file_at h' (recName args) = Some (FinalDataFile args) \<and>
    log_at h' (recName args) = Some (FinalLogEntries args) \<and>
    (\<forall>g. g \<noteq> recName args \<longrightarrow> file_at h' g = file_at h g \<and> log_at h' g = log_at h g) \<and>
    (\<forall>g. is_locked h' g = is_locked h g)"
  using assms
  by (auto simp: localReconcileFile_def Let_def write_file_def write_log_def split: option.splits)

lemma GetLocalOperationLog_ops:
  assumes "holds_ops h f es" and "\<forall>e\<in>set es. small e"
  shows "GetLocalOperationLog f h = Some es"
  using assms by (simp add: GetLocalOperationLog_def holds_ops_def read_log_text)

end
