(* ===== verification/Constants.thy ===== *)
theory Constants
  imports GoStrings
begin

text \<open>
  \<^verbatim>\<open>constants/constants.go\<close>, \<^verbatim>\<open>member/member.go\<close> and \<^verbatim>\<open>message/message.go\<close>. A member's state is
  a Go string, so it stays a string here. Times (\<^verbatim>\<open>time.Time\<close>, \<^verbatim>\<open>time.Duration\<close>) are integers
  counting nanoseconds.
\<close>

definition Alive :: string where "Alive = ''Alive''"
definition Suspected :: string where "Suspected = ''Suspected''"
definition Failed :: string where "Failed = ''Failed''"
definition Leave :: string where "Leave = ''Leave''"

definition MessagePing :: string where "MessagePing = ''ping''"
definition MessageAck :: string where "MessageAck = ''ack''"
definition MessageGossip :: string where "MessageGossip = ''gossip''"
definition MessageJoin :: string where "MessageJoin = ''join''"

definition ProtocolGossip :: string where "ProtocolGossip = ''gossip''"
definition ProtocolPingAck :: string where "ProtocolPingAck = ''ping''"
definition SuspicionTrue :: string where "SuspicionTrue = ''suspect''"
definition SuspecionFalse :: string where "SuspecionFalse = ''nosuspect''"

definition CommandPort :: string where "CommandPort = ''9080''"
definition RPCPort :: string where "RPCPort = ''9082''"
definition ListenBufSize :: nat where "ListenBufSize = 4096"
definition ReplicaNum :: nat where "ReplicaNum = 3"
definition GossipNum :: nat where "GossipNum = 3"

definition Millisecond :: int where "Millisecond = 1000000"
definition Second :: int where "Second = 1000 * Millisecond"

definition ProtocolPeriod :: int where "ProtocolPeriod = 500 * Millisecond"
definition TFail :: int where "TFail = 1500 * Millisecond"
definition TSuspect :: int where "TSuspect = 1500 * Millisecond"
definition TCleanup :: int where "TCleanup = 1000 * Millisecond"
definition PingTimeout :: int where "PingTimeout = 250 * Millisecond"
definition PingFrequency :: int where "PingFrequency = 250 * Millisecond"
definition TSuspectPingAck :: int where "TSuspectPingAck = 500 * Millisecond"
definition TFailGossipNosuspect :: int where "TFailGossipNosuspect = 3000 * Millisecond"
definition TCleanupPingSuspct :: int where "TCleanupPingSuspct = 500 * Millisecond"

lemmas state_defs = Alive_def Suspected_def Failed_def Leave_def
lemmas protocol_defs = ProtocolGossip_def ProtocolPingAck_def SuspicionTrue_def SuspecionFalse_def
lemmas message_defs = MessagePing_def MessageAck_def MessageGossip_def MessageJoin_def
lemmas time_defs = Millisecond_def Second_def ProtocolPeriod_def TFail_def TSuspect_def
  TCleanup_def PingTimeout_def PingFrequency_def TSuspectPingAck_def TFailGossipNosuspect_def
  TCleanupPingSuspct_def

lemma states_distinct [simp]:
  "Alive \<noteq> Suspected" "Alive \<noteq> Failed" "Alive \<noteq> Leave"
  "Suspected \<noteq> Alive" "Suspected \<noteq> Failed" "Suspected \<noteq> Leave"
  "Failed \<noteq> Alive" "Failed \<noteq> Suspected" "Failed \<noteq> Leave"
  "Leave \<noteq> Alive" "Leave \<noteq> Suspected" "Leave \<noteq> Failed"
  by (simp_all add: state_defs)

lemma protocols_distinct [simp]:
  "ProtocolGossip \<noteq> ProtocolPingAck" "ProtocolPingAck \<noteq> ProtocolGossip"
  "SuspicionTrue \<noteq> SuspecionFalse" "SuspecionFalse \<noteq> SuspicionTrue"
  by (simp_all add: protocol_defs)

lemma messages_distinct [simp]:
  "MessagePing \<noteq> MessageAck" "MessagePing \<noteq> MessageGossip" "MessagePing \<noteq> MessageJoin"
  "MessageAck \<noteq> MessagePing" "MessageAck \<noteq> MessageGossip" "MessageAck \<noteq> MessageJoin"
  "MessageGossip \<noteq> MessagePing" "MessageGossip \<noteq> MessageAck" "MessageGossip \<noteq> MessageJoin"
  "MessageJoin \<noteq> MessagePing" "MessageJoin \<noteq> MessageAck" "MessageJoin \<noteq> MessageGossip"
  by (simp_all add: message_defs)

text \<open>\<^verbatim>\<open>member.Member\<close> and \<^verbatim>\<open>message.Message\<close>.\<close>

record member =
  ID :: string
  Address :: string
  HeartBeatCounter :: int
  Incarnation :: int
  State :: string
  LastUpdateTime :: int

record message =
  mType :: string
  mMemberlist :: "member list"
  mSendID :: string

text \<open>A member as it starts, for the concrete examples of the development.\<close>

definition sample_member :: "string \<Rightarrow> string \<Rightarrow> member" where
  "sample_member i a = \<lparr>ID = i, Address = a, HeartBeatCounter = 0, Incarnation = 0, State = Alive,
     LastUpdateTime = 0\<rparr>"

end
