(* ===== verification/Addressing.thy ===== *)
theory Addressing
  imports Constants
begin

text \<open>
  The address book of \<^verbatim>\<open>utils/utils.go\<close>: the two tables between VM names and IP addresses,
  the lookups on them, and the conversion of a gossip (UDP) address to an RPC address.
  \<^verbatim>\<open>net.SplitHostPort\<close> and \<^verbatim>\<open>net.JoinHostPort\<close> are written out after the Go library.
\<close>

definition IpToVMName :: "(string \<times> string) list" where
  "IpToVMName =
    [(''172.22.155.16'', ''VM1''),
     (''172.22.159.16'', ''VM2''),
     (''172.22.95.202'', ''VM3''),
     (''172.22.155.17'', ''VM4''),
     (''172.22.159.17'', ''VM5''),
     (''172.22.95.203'', ''VM6''),
     (''172.22.155.18'', ''VM7''),
     (''172.22.159.18'', ''VM8''),
     (''172.22.95.204'', ''VM9''),
     (''172.22.155.19'', ''VM10'')]"

definition vmNameToIP :: "(string \<times> string) list" where
  "vmNameToIP =
    [(''VM1'', ''172.22.155.16''),
     (''VM2'', ''172.22.159.16''),
     (''VM3'', ''172.22.95.202''),
     (''VM4'', ''172.22.155.17''),
     (''VM5'', ''172.22.159.17''),
     (''VM6'', ''172.22.95.203''),
     (''VM7'', ''172.22.155.18''),
     (''VM8'', ''172.22.159.18''),
     (''VM9'', ''172.22.95.204''),
     (''VM10'', ''172.22.155.19'')]"

definition GetVMHost :: "string \<Rightarrow> string option" where
  "GetVMHost vmName = map_of vmNameToIP (to_upper vmName)"

text \<open>
  \<^verbatim>\<open>net.SplitHostPort\<close>; the error value is not used by the program, so an error is
  \<^const>\<open>None\<close>.
\<close>

definition SplitHostPort :: "string \<Rightarrow> (string \<times> string) option" where
  "SplitHostPort hp =
     (case last_index (CHR '':'') hp of
        None \<Rightarrow> None
      | Some i \<Rightarrow>
          (if hd hp = CHR ''['' then
             (case index_of (CHR '']'') hp of
                None \<Rightarrow> None
              | Some e \<Rightarrow>
                  if Suc e \<noteq> i then None
                  else if CHR ''['' \<in> set (drop 1 hp) \<or> CHR '']'' \<in> set (drop (Suc e) hp) then None
                  else Some (take (e - 1) (drop 1 hp), drop (Suc i) hp))
           else if CHR '':'' \<in> set (take i hp) then None
           else if CHR ''['' \<in> set hp \<or> CHR '']'' \<in> set hp then None
           else Some (take i hp, drop (Suc i) hp)))"

definition JoinHostPort :: "string \<Rightarrow> string \<Rightarrow> string" where
  "JoinHostPort h p =
     (if CHR '':'' \<in> set h then CHR ''['' # h @ '']:'' @ p else h @ '':'' @ p)"

definition GetVMName :: "string \<Rightarrow> string option" where
  "GetVMName addr =
     (case SplitHostPort addr of
        None \<Rightarrow> None
      | Some (host, _) \<Rightarrow> map_of IpToVMName host)"

text \<open>
  The loop ranges over a Go map, in any order; the names are distinct, so at most one entry
  matches (\<open>VMNameToIP_any_order\<close> below).
\<close>

definition VMNameToIP :: "string \<Rightarrow> string option" where
  "VMNameToIP vmName =
     (let upper = to_upper vmName;
          normalized = (if has_prefix ''VM'' upper then upper else ''VM'' @ upper)
      in map_option fst (find (\<lambda>(ip, name). equal_fold name normalized) IpToVMName))"

definition Gossip2RPCAddr :: "string \<Rightarrow> string option" where
  "Gossip2RPCAddr gossipAddr =
     (case last_index (CHR '':'') gossipAddr of
        None \<Rightarrow> None
      | Some lastColon \<Rightarrow> Some (JoinHostPort (take lastColon gossipAddr) RPCPort))"

definition leaderAddr :: string where
  "leaderAddr = (case VMNameToIP ''VM1'' of Some ip \<Rightarrow> ip | None \<Rightarrow> []) @ '':'' @ RPCPort"

lemma leaderAddr_eq: "leaderAddr = ''172.22.155.16:9082''"
  by code_simp

lemma IpToVMName_distinct:
  "distinct (map fst IpToVMName)" "distinct (map (to_upper \<circ> snd) IpToVMName)"
  by code_simp+

lemma find_unique:
  assumes "set xs = set ys" and "\<And>x y. x \<in> set ys \<Longrightarrow> y \<in> set ys \<Longrightarrow> P x \<Longrightarrow> P y \<Longrightarrow> x = y"
  shows "find P xs = find P ys"
proof (cases "find P ys")
  case None
  then have "find P xs = None" using assms(1) by (simp add: find_None_iff)
  with None show ?thesis by simp
next
  case (Some y)
  then have y: "y \<in> set ys" "P y" by (auto simp: find_Some_iff)
  then obtain x where x: "find P xs = Some x" using assms(1)
    by (cases "find P xs") (auto simp: find_None_iff)
  then have "x \<in> set ys" "P x" using assms(1) by (auto simp: find_Some_iff)
  with x y assms(2) Some show ?thesis by metis
qed

lemma VMNameToIP_any_order:
  assumes "set table = set IpToVMName"
  shows "map_option fst (find (\<lambda>(ip, name). equal_fold name n) table)
       = map_option fst (find (\<lambda>(ip, name). equal_fold name n) IpToVMName)"
proof -
  have "find (\<lambda>(ip, name). equal_fold name n) table
      = find (\<lambda>(ip, name). equal_fold name n) IpToVMName"
  proof (rule find_unique [OF assms])
    fix x y :: "string \<times> string"
    assume "x \<in> set IpToVMName" "y \<in> set IpToVMName"
      and "case x of (ip, name) \<Rightarrow> equal_fold name n"
      and "case y of (ip, name) \<Rightarrow> equal_fold name n"
    moreover then have "to_upper (snd x) = to_upper (snd y)"
      by (auto simp: equal_fold_def)
    ultimately show "x = y"
      using IpToVMName_distinct(2) by (auto simp: distinct_map inj_on_def)
  qed
  then show ?thesis by simp
qed

lemma JoinHostPort_plain: "CHR '':'' \<notin> set h \<Longrightarrow> JoinHostPort h p = h @ '':'' @ p"
  by (simp add: JoinHostPort_def)

definition plain_host :: "string \<Rightarrow> bool" where
  "plain_host h \<longleftrightarrow> h \<noteq> [] \<and> set h \<inter> {CHR '':'', CHR ''['', CHR '']''} = {}"

lemma SplitHostPort_plain:
  assumes "plain_host h" and "plain_host p"
  shows "SplitHostPort (h @ '':'' @ p) = Some (h, p)"
proof -
  have "last_index (CHR '':'') (h @ CHR '':'' # p) = Some (length h)"
    using assms by (intro last_index_append) (auto simp: plain_host_def)
  moreover have "hd (h @ CHR '':'' # p) \<noteq> CHR ''[''"
    using assms by (cases h) (auto simp: plain_host_def)
  ultimately show ?thesis
    using assms by (auto simp: SplitHostPort_def plain_host_def)
qed

lemma SplitHostPort_Join:
  assumes "plain_host h" and "plain_host p"
  shows "SplitHostPort (JoinHostPort h p) = Some (h, p)"
  using assms SplitHostPort_plain [OF assms]
  by (simp add: plain_host_def JoinHostPort_plain)

lemma Gossip2RPCAddr_host:
  assumes "plain_host h" and "plain_host p"
  shows "Gossip2RPCAddr (h @ '':'' @ p) = Some (h @ '':'' @ RPCPort)"
proof -
  have "last_index (CHR '':'') (h @ CHR '':'' # p) = Some (length h)"
    using assms by (intro last_index_append) (auto simp: plain_host_def)
  then show ?thesis
    using assms by (simp add: Gossip2RPCAddr_def JoinHostPort_def plain_host_def)
qed

text \<open>The two tables are inverse to each other.\<close>

lemma tables_inverse: "vmNameToIP = map (\<lambda>(ip, name). (name, ip)) IpToVMName"
  by code_simp

lemma table_entries:
  "(ip, name) \<in> set IpToVMName \<Longrightarrow>
     map_of IpToVMName ip = Some name \<and> map_of vmNameToIP name = Some ip
     \<and> VMNameToIP name = Some ip \<and> GetVMHost name = Some ip \<and> plain_host ip"
proof -
  have "\<forall>(ip, name) \<in> set IpToVMName.
     map_of IpToVMName ip = Some name \<and> map_of vmNameToIP name = Some ip
     \<and> VMNameToIP name = Some ip \<and> GetVMHost name = Some ip \<and> plain_host ip"
    by code_simp
  then show "(ip, name) \<in> set IpToVMName \<Longrightarrow> ?thesis" by blast
qed

text \<open>
  The address book is consistent: from the gossip address of a VM the program finds its
  name, and from the name its IP, and both lead to the same RPC address, whose host has that name
  again.
\<close>

lemma address_book_roundtrip:
  assumes "(ip, name) \<in> set IpToVMName" and "plain_host port"
  shows "GetVMName (ip @ '':'' @ port) = Some name \<and> VMNameToIP name = Some ip \<and> GetVMHost name = Some ip \<and>
    Gossip2RPCAddr (ip @ '':'' @ port) = Some (ip @ '':'' @ RPCPort) \<and> GetVMName (ip @ '':'' @ RPCPort) = Some name"
proof -
  note e = table_entries [OF assms(1)]
  have rpc: "plain_host RPCPort" by code_simp
  show ?thesis
    using e assms(2) rpc SplitHostPort_plain [of ip port] SplitHostPort_plain [of ip RPCPort]
      Gossip2RPCAddr_host [of ip port]
    by (simp add: GetVMName_def)
qed

end
