(* ===== verification/Ring.thy ===== *)
theory Ring
  imports Addressing "HOL-Library.Word"
begin

text \<open>
  Placement of files on the hash ring (\<^verbatim>\<open>utils/utils.go\<close>): the FNV-1a hash, the ring of RPC
  addresses built from the membership list, the walk to the successors of a file, and
  \<^verbatim>\<open>GetReplica\<close>. Fetching the membership list over TCP and its JSON decoding are not
  modelled: \<^verbatim>\<open>GetReplica\<close> takes the decoded list.
\<close>

unbundle bit_operations_syntax

type_synonym u32 = "32 word"

record NodeInfo =
  NodeID :: u32
  NodeAddr :: string

text \<open>\<^verbatim>\<open>fnv.New32a\<close>: xor with the byte, then multiply by the prime, modulo \<open>2 ^ 32\<close>.\<close>

definition HashFunc :: "string \<Rightarrow> u32" where
  "HashFunc key = foldl (\<lambda>h c. (h XOR of_char c) * 16777619) 2166136261 key"

definition GetRingInfo :: "member list \<Rightarrow> NodeInfo list" where
  "GetRingInfo currentMembers =
     List.map_filter
       (\<lambda>m. case Gossip2RPCAddr (Address m) of
              None \<Rightarrow> None
            | Some rpcAddr \<Rightarrow>
                if rpcAddr = leaderAddr then None
                else Some \<lparr>NodeID = HashFunc (ID m), NodeAddr = rpcAddr\<rparr>)
       currentMembers"

text \<open>
  The search loop of \<^verbatim>\<open>GetSuccessor\<close>: the first index whose node ID is at least the file ID,
  index 0 when there is none.
\<close>

fun startIndexFrom :: "nat \<Rightarrow> u32 \<Rightarrow> NodeInfo list \<Rightarrow> nat" where
  "startIndexFrom i fileID [] = 0"
| "startIndexFrom i fileID (node # rest) =
     (if fileID \<le> NodeID node then i else startIndexFrom (Suc i) fileID rest)"

text \<open>
  \<^verbatim>\<open>GetSuccessor\<close>. With no node at all the index computation divides by zero, which is a Go
  run-time panic: \<^const>\<open>None\<close>.
\<close>

definition GetSuccessor :: "u32 \<Rightarrow> NodeInfo list \<Rightarrow> nat \<Rightarrow> NodeInfo list option" where
  "GetSuccessor fileID nodeInfo num =
     (let startIndex = startIndexFrom 0 fileID nodeInfo in
      if nodeInfo = [] \<and> num > 0 then None
      else Some (map (\<lambda>i. nodeInfo ! ((startIndex + i) mod length nodeInfo)) [0..<num]))"

text \<open>
  \<^verbatim>\<open>sort.Slice\<close> on the node IDs. For at most twelve elements Go's routine is insertion sort,
  hence stable, as \<^const>\<open>sort_key\<close> is; \<open>sort_ring_unique\<close> says the result does not
  depend on the routine when the IDs are distinct.
\<close>

definition sort_ring :: "NodeInfo list \<Rightarrow> NodeInfo list" where
  "sort_ring = sort_key NodeID"

text \<open>
  What comes before: the host name, the command connection and the JSON decoding can each
  fail, and then \<^verbatim>\<open>GetReplica\<close> returns before it looks at any member.
\<close>

datatype fetched = NoHostname | NoMemberlist | BadJSON | Members "member list"

definition place_replicas :: "member list \<Rightarrow> string \<Rightarrow> string + NodeInfo list" where
  "place_replicas currentMembers hyDFSFileName =
     (if length currentMembers < ReplicaNum then Inl ''Not enough node for replica''
      else let ringNodes = GetRingInfo currentMembers in
        if length ringNodes < ReplicaNum then Inl ''Not enough valid node for replica''
        else (case GetSuccessor (HashFunc hyDFSFileName) (sort_ring ringNodes) ReplicaNum of
                Some replicaInfo \<Rightarrow> Inr replicaInfo
              | None \<Rightarrow> Inl ''panic: integer divide by zero''))"

definition GetReplica :: "fetched \<Rightarrow> string \<Rightarrow> string + NodeInfo list" where
  "GetReplica got hyDFSFileName =
     (case got of
        NoHostname \<Rightarrow> Inl ''Cannot get hostname''
      | NoMemberlist \<Rightarrow> Inl ''Cannot get memberlist''
      | BadJSON \<Rightarrow> Inl ''Cannot Marshal the memberlist''
      | Members currentMembers \<Rightarrow> place_replicas currentMembers hyDFSFileName)"

section \<open>The walk around the ring\<close>

lemma startIndexFrom_bound:
  "startIndexFrom i fileID ns < i + length ns \<or> startIndexFrom i fileID ns = 0"
proof (induction ns arbitrary: i)
  case (Cons n ns)
  show ?case using Cons [of "Suc i"] by auto
qed simp

lemma startIndexFrom_lt: "ns \<noteq> [] \<Longrightarrow> startIndexFrom 0 fileID ns < length ns"
  using startIndexFrom_bound [of 0 fileID ns] by auto

lemma startIndexFrom_find:
  "startIndexFrom i fileID ns =
     (if \<exists>n\<in>set ns. fileID \<le> NodeID n then i + length (takeWhile (\<lambda>n. NodeID n < fileID) ns) else 0)"
  by (induction ns arbitrary: i) (auto simp: not_le not_less)

lemma GetSuccessor_rotate:
  assumes "ns \<noteq> []" and "num \<le> length ns"
  shows "GetSuccessor fileID ns num = Some (take num (rotate (startIndexFrom 0 fileID ns) ns))"
proof -
  have "map (\<lambda>i. ns ! ((startIndexFrom 0 fileID ns + i) mod length ns)) [0..<num]
      = take num (rotate (startIndexFrom 0 fileID ns) ns)"
    using assms by (intro nth_equalityI) (auto simp: nth_rotate)
  with assms show ?thesis by (simp add: GetSuccessor_def Let_def)
qed

lemma GetSuccessor_length:
  "ns \<noteq> [] \<Longrightarrow> GetSuccessor fileID ns num = Some rs \<Longrightarrow> length rs = num"
  by (auto simp: GetSuccessor_def Let_def split: if_splits)

lemma GetSuccessor_subset:
  assumes "ns \<noteq> []" and "GetSuccessor fileID ns num = Some rs"
  shows "set rs \<subseteq> set ns"
  using assms by (auto simp: GetSuccessor_def Let_def)

lemma GetSuccessor_distinct:
  assumes "distinct (map f ns)" and "num \<le> length ns" and "GetSuccessor fileID ns num = Some rs"
  shows "distinct (map f rs)"
proof (cases "ns = []")
  case True
  with assms show ?thesis by (auto simp: GetSuccessor_def Let_def split: if_splits)
next
  case False
  then have "rs = take num (rotate (startIndexFrom 0 fileID ns) ns)"
    using GetSuccessor_rotate assms by auto
  then have "map f rs = take num (rotate (startIndexFrom 0 fileID ns) (map f ns))"
    by (simp add: take_map rotate_map)
  with assms(1) show ?thesis by (simp add: distinct_take)
qed

text \<open>
  On a sorted ring the first replica is the successor of the file: no node lies between the
  file and it, and when no node is at or after the file the walk wraps to the least one.
\<close>

lemma startIndexFrom_sorted:
  assumes "sorted (map NodeID ns)" and "ns \<noteq> []" and "p = ns ! startIndexFrom 0 fileID ns"
  shows "(fileID \<le> NodeID p \<and> (\<forall>n\<in>set ns. fileID \<le> NodeID n \<longrightarrow> NodeID p \<le> NodeID n))
       \<or> ((\<forall>n\<in>set ns. NodeID n < fileID) \<and> (\<forall>n\<in>set ns. NodeID p \<le> NodeID n))"
proof (cases "\<exists>n\<in>set ns. fileID \<le> NodeID n")
  case True
  let ?k = "length (takeWhile (\<lambda>n. NodeID n < fileID) ns)"
  have k: "startIndexFrom 0 fileID ns = ?k" using True by (simp add: startIndexFrom_find)
  have "?k < length ns"
    using startIndexFrom_lt [OF assms(2), of fileID] k by simp
  then have p: "fileID \<le> NodeID p"
    using nth_length_takeWhile [of "\<lambda>n. NodeID n < fileID" ns] assms(3) k by simp
  have "NodeID p \<le> NodeID n" if n: "n \<in> set ns" "fileID \<le> NodeID n" for n
  proof -
    obtain j where j: "j < length ns" "n = ns ! j" using n(1) by (auto simp: in_set_conv_nth)
    have "\<not> j < ?k"
    proof
      assume "j < ?k"
      then have "n \<in> set (takeWhile (\<lambda>n. NodeID n < fileID) ns)"
        using j by (metis nth_mem takeWhile_nth)
      with n(2) show False by (auto dest: set_takeWhileD)
    qed
    with j assms(1,3) k show ?thesis
      by (simp add: sorted_iff_nth_mono)
  qed
  with p show ?thesis by blast
next
  case False
  then have "startIndexFrom 0 fileID ns = 0" by (simp add: startIndexFrom_find)
  then have "p = hd ns" using assms(2,3) by (simp add: hd_conv_nth)
  moreover have "\<forall>n\<in>set ns. NodeID (hd ns) \<le> NodeID n"
    using assms(1,2) by (cases ns) auto
  ultimately show ?thesis using False by (auto simp: not_le)
qed

section \<open>Placement as an interface\<close>

text \<open>
  What the file system relies on when it places a file: on a valid ring with enough nodes a
  place exists, has exactly \<open>num\<close> members, all of the ring and all different.
\<close>

locale placement =
  fixes valid :: "'ring \<Rightarrow> bool"
    and size_of :: "'ring \<Rightarrow> nat"
    and nodes :: "'ring \<Rightarrow> 'node set"
    and place :: "'key \<Rightarrow> 'ring \<Rightarrow> nat \<Rightarrow> 'node list option"
  assumes place_total: "valid r \<Longrightarrow> 0 < n \<Longrightarrow> n \<le> size_of r \<Longrightarrow> \<exists>ps. place k r n = Some ps"
    and place_length: "valid r \<Longrightarrow> 0 < n \<Longrightarrow> place k r n = Some ps \<Longrightarrow> length ps = n"
    and place_nodes: "valid r \<Longrightarrow> 0 < n \<Longrightarrow> place k r n = Some ps \<Longrightarrow> set ps \<subseteq> nodes r"
    and place_distinct: "valid r \<Longrightarrow> 0 < n \<Longrightarrow> n \<le> size_of r \<Longrightarrow> place k r n = Some ps \<Longrightarrow> distinct ps"
begin

lemma primary_not_secondary:
  assumes "valid r" and "0 < n" and "n \<le> size_of r" and "place k r n = Some ps"
  shows "\<exists>p rest. ps = p # rest \<and> p \<notin> set rest \<and> distinct rest \<and> Suc (length rest) = n"
proof -
  have "length ps = n" "distinct ps"
    using assms place_length place_distinct by blast+
  with assms(2) show ?thesis by (cases ps) auto
qed

lemma majority_intersects:
  assumes "valid r" and "0 < n" and "n \<le> size_of r" and "place k r n = Some ps"
    and "A \<subseteq> set ps" and "B \<subseteq> set ps" and "n < card A + card B"
  shows "A \<inter> B \<noteq> {}"
proof
  assume "A \<inter> B = {}"
  moreover have fin: "finite A" "finite B" using assms(5,6) by (auto intro: finite_subset)
  ultimately have "card A + card B = card (A \<union> B)" by (simp add: card_Un_disjoint)
  also have "\<dots> \<le> card (set ps)" using assms(5,6) by (intro card_mono) auto
  also have "\<dots> = n"
    using place_length place_distinct assms(1-4) by (metis distinct_card)
  finally show False using assms(7) by simp
qed

end

text \<open>The ring of the program: a non-empty list of nodes with distinct addresses.\<close>

definition ring_valid :: "NodeInfo list \<Rightarrow> bool" where
  "ring_valid ns \<longleftrightarrow> distinct (map NodeAddr ns)"

interpretation successors: placement ring_valid length set GetSuccessor
proof
  fix r ps :: "NodeInfo list" and n :: nat and k :: u32
  assume r: "ring_valid r" and n: "0 < n"
  have dist: "distinct r" using r by (simp add: ring_valid_def distinct_map)
  show "\<exists>ps. GetSuccessor k r n = Some ps" if "n \<le> length r"
    using that n by (auto simp: GetSuccessor_def Let_def)
  assume ps: "GetSuccessor k r n = Some ps"
  then have ne: "r \<noteq> []" using n by (auto simp: GetSuccessor_def Let_def)
  show "length ps = n" using GetSuccessor_length ne ps by blast
  show "set ps \<subseteq> set r" using GetSuccessor_subset ne ps by blast
  show "distinct ps" if "n \<le> length r"
    using GetSuccessor_distinct [of id r n k ps] dist ps that by simp
qed

section \<open>GetReplica\<close>

lemma place_replicas_Inr:
  assumes "place_replicas ms f = Inr rs"
  shows "ReplicaNum \<le> length (GetRingInfo ms)"
    and "GetSuccessor (HashFunc f) (sort_ring (GetRingInfo ms)) ReplicaNum = Some rs"
  using assms by (auto simp: place_replicas_def Let_def split: if_splits option.splits)

lemma length_sort_ring [simp]: "length (sort_ring ns) = length ns"
  and set_sort_ring [simp]: "set (sort_ring ns) = set ns"
  and mset_sort_ring [simp]: "mset (sort_ring ns) = mset ns"
  by (simp_all add: sort_ring_def)

lemma sort_ring_Nil [simp]: "sort_ring ns = [] \<longleftrightarrow> ns = []"
  by (metis length_0_conv length_sort_ring)

lemma sort_ring_distinct [simp]: "distinct (map g (sort_ring ns)) = distinct (map g ns)"
  by (rule mset_eq_imp_distinct_iff) simp

lemma sort_ring_unique:
  assumes "mset ns' = mset ns" and "sorted (map NodeID ns')" and "distinct (map NodeID ns)"
  shows "sort_ring ns = ns'"
proof -
  have "sort_key NodeID ns = sort_key NodeID ns'"
    using assms by (intro sort_key_mset_eq) auto
  also have "\<dots> = ns'" using assms(2) by (simp add: sort_key_id_if_sorted)
  finally show ?thesis by (simp add: sort_ring_def)
qed

lemma place_replicas_replicas:
  assumes "place_replicas ms f = Inr rs"
  shows "length rs = ReplicaNum" and "set rs \<subseteq> set (GetRingInfo ms)"
proof -
  note g = place_replicas_Inr [OF assms]
  have ne: "sort_ring (GetRingInfo ms) \<noteq> []"
    using g(1) length_sort_ring [of "GetRingInfo ms"] by (auto simp: ReplicaNum_def simp del: length_sort_ring)
  show "length rs = ReplicaNum" using GetSuccessor_length [OF ne g(2)] .
  show "set rs \<subseteq> set (GetRingInfo ms)" using GetSuccessor_subset [OF ne g(2)] by simp
qed

lemma place_replicas_primary:
  assumes "place_replicas ms f = Inr rs" and "ring_valid (GetRingInfo ms)"
  shows "\<exists>p q r. rs = [p, q, r] \<and> distinct (map NodeAddr rs)"
proof -
  note g = place_replicas_Inr [OF assms(1)]
  have "distinct (map NodeAddr rs)"
    using GetSuccessor_distinct [OF _ _ g(2), of NodeAddr] assms(2) g(1) by (simp add: ring_valid_def)
  moreover obtain p q r where "rs = [p, q, r]"
    using place_replicas_replicas(1) [OF assms(1)]
    by (auto simp: ReplicaNum_def length_Suc_conv numeral_3_eq_3)
  ultimately show ?thesis by blast
qed

lemma place_replicas_any_order:
  assumes "mset ms = mset ms'" and "distinct (map NodeID (GetRingInfo ms))"
  shows "place_replicas ms f = place_replicas ms' f"
proof -
  have "mset (GetRingInfo ms) = mset (GetRingInfo ms')"
    using assms(1) unfolding GetRingInfo_def
    by (metis (no_types, lifting) map_filter_def mset_filter mset_map)
  moreover then have "sort_ring (GetRingInfo ms) = sort_ring (GetRingInfo ms')"
    unfolding sort_ring_def using assms(2) by (intro sort_key_mset_eq)
  moreover have "length ms = length ms'" using assms(1) by (metis size_mset)
  moreover have "length (GetRingInfo ms) = length (GetRingInfo ms')"
    using calculation(1) by (metis size_mset)
  ultimately show ?thesis by (simp add: place_replicas_def)
qed

text \<open>No replica is ever the leader's address.\<close>

lemma GetRingInfo_not_leader: "n \<in> set (GetRingInfo ms) \<Longrightarrow> NodeAddr n \<noteq> leaderAddr"
  by (auto simp: GetRingInfo_def map_filter_def split: option.splits if_splits)

section \<open>Consistent hashing\<close>

text \<open>
  On a sorted ring the walk visits the nodes at or after the file, then wraps around to the
  others: a reference definition of \<^const>\<open>GetSuccessor\<close> without indices.
\<close>

definition ring_walk :: "u32 \<Rightarrow> NodeInfo list \<Rightarrow> NodeInfo list" where
  "ring_walk fileID ns =
     filter (\<lambda>n. fileID \<le> NodeID n) ns @ filter (\<lambda>n. NodeID n < fileID) ns"

lemma sorted_takeWhile_filter:
  assumes "sorted (map NodeID ns)"
  shows "takeWhile (\<lambda>n. NodeID n < x) ns = filter (\<lambda>n. NodeID n < x) ns"
    and "dropWhile (\<lambda>n. NodeID n < x) ns = filter (\<lambda>n. x \<le> NodeID n) ns"
proof -
  have "takeWhile (\<lambda>n. NodeID n < x) ns = filter (\<lambda>n. NodeID n < x) ns
      \<and> dropWhile (\<lambda>n. NodeID n < x) ns = filter (\<lambda>n. x \<le> NodeID n) ns"
    using assms
  proof (induction ns)
    case (Cons n ns)
    show ?case
    proof (cases "NodeID n < x")
      case True
      with Cons show ?thesis by (simp add: not_le)
    next
      case False
      then have "\<forall>m\<in>set ns. x \<le> NodeID m" using Cons.prems by (auto simp: not_less)
      then have "filter (\<lambda>n. NodeID n < x) ns = []" "filter (\<lambda>n. x \<le> NodeID n) ns = ns"
        by (auto simp: filter_empty_conv not_less filter_id_conv)
      moreover have "x \<le> NodeID n" using False by simp
      ultimately show ?thesis using False by simp
    qed
  qed simp
  then show "takeWhile (\<lambda>n. NodeID n < x) ns = filter (\<lambda>n. NodeID n < x) ns"
    and "dropWhile (\<lambda>n. NodeID n < x) ns = filter (\<lambda>n. x \<le> NodeID n) ns"
    by blast+
qed

lemma GetSuccessor_walk:
  assumes "sorted (map NodeID ns)" and "ns \<noteq> []" and "num \<le> length ns"
  shows "GetSuccessor fileID ns num = Some (take num (ring_walk fileID ns))"
proof -
  let ?P = "\<lambda>n. NodeID n < fileID"
  let ?A = "takeWhile ?P ns" and ?B = "dropWhile ?P ns"
  have ns: "ns = ?A @ ?B" by simp
  have "rotate (startIndexFrom 0 fileID ns) ns = ?B @ ?A"
  proof (cases "\<exists>n\<in>set ns. fileID \<le> NodeID n")
    case True
    then have "startIndexFrom 0 fileID ns = length ?A" by (simp add: startIndexFrom_find)
    then show ?thesis by (metis ns rotate_append)
  next
    case False
    then have "?B = []" "startIndexFrom 0 fileID ns = 0"
      by (auto simp: startIndexFrom_find dropWhile_eq_Nil_conv not_le)
    then show ?thesis by (metis append.right_neutral append_Nil ns rotate0 id_apply)
  qed
  then show ?thesis
    using GetSuccessor_rotate [OF assms(2,3)] sorted_takeWhile_filter [OF assms(1)]
    by (simp add: ring_walk_def)
qed

lemma length_ring_walk [simp]: "length (ring_walk x ns) = length ns"
  using sum_length_filter_compl [of "\<lambda>n. x \<le> NodeID n" ns] by (simp add: ring_walk_def not_le)

lemma filter_ring_walk: "filter keep (ring_walk x ns) = ring_walk x (filter keep ns)"
  by (simp add: ring_walk_def conj_commute)

lemma place_replicas_walk:
  assumes "ReplicaNum \<le> length (GetRingInfo ms)"
  shows "place_replicas ms f
       = Inr (take ReplicaNum (ring_walk (HashFunc f) (sort_ring (GetRingInfo ms))))"
proof -
  let ?ns = "sort_ring (GetRingInfo ms)"
  have len: "ReplicaNum \<le> length ?ns" using assms by simp
  then have "?ns \<noteq> []" by (auto simp: ReplicaNum_def)
  moreover have "sorted (map NodeID ?ns)" by (simp add: sort_ring_def)
  ultimately have "GetSuccessor (HashFunc f) ?ns ReplicaNum
      = Some (take ReplicaNum (ring_walk (HashFunc f) ?ns))"
    using len by (intro GetSuccessor_walk)
  moreover have "ReplicaNum \<le> length ms"
    using assms length_filter_le
    by (metis (no_types, lifting) GetRingInfo_def le_trans length_map map_filter_def)
  ultimately show ?thesis using assms by (simp add: place_replicas_def Let_def)
qed

lemma placement_survivors_prefix:
  assumes "place_replicas ms f = Inr rs"
    and "GetRingInfo ms' = filter keep (GetRingInfo ms)"
    and "place_replicas ms' f = Inr rs'"
  shows "\<exists>fresh. rs' = filter keep rs @ fresh"
proof -
  let ?w = "ring_walk (HashFunc f) (sort_ring (GetRingInfo ms))"
  have rs: "rs = take ReplicaNum ?w"
    using place_replicas_walk [OF place_replicas_Inr(1) [OF assms(1)], of f] assms(1) by simp
  have "rs' = take ReplicaNum (ring_walk (HashFunc f) (sort_ring (GetRingInfo ms')))"
    using place_replicas_walk [OF place_replicas_Inr(1) [OF assms(3)], of f] assms(3) by simp
  also have "ring_walk (HashFunc f) (sort_ring (GetRingInfo ms')) = filter keep ?w"
    using assms(2) by (simp add: filter_ring_walk sort_ring_def filter_sort)
  also have "filter keep ?w = filter keep rs @ filter keep (drop ReplicaNum ?w)"
    by (metis append_take_drop_id filter_append rs)
  finally have "rs' = take ReplicaNum (filter keep rs) @ take (ReplicaNum - length (filter keep rs))
      (filter keep (drop ReplicaNum ?w))" by simp
  moreover have "length (filter keep rs) \<le> ReplicaNum"
    using rs by (metis length_filter_le le_trans length_take min.cobounded2)
  ultimately show ?thesis by auto
qed

end
