(* ===== verification/Replication.thy ===== *)
theory Replication
  imports FileNode Ring
begin

text \<open>
  Replicated writes: the fan-out of the primary (\<^verbatim>\<open>primaryWrite\<close>), the full \<^verbatim>\<open>CreateFile\<close> and
  \<^verbatim>\<open>AppendFile\<close> handlers and the client call \<^verbatim>\<open>CallHyDFSWrite\<close>. A cluster maps RPC addresses
  to nodes. The parallel calls of a fan-out are run one after the other in the order of the
  list; \<open>fan_out_result\<close> shows that the order does not matter when the addresses differ.
\<close>

type_synonym cluster = "string \<Rightarrow> hnode"

text \<open>What network and disks do during one write.\<close>

record wenv =
  eNet :: net
  eDisk :: disk
  fNet :: "string \<Rightarrow> net"
  fDisk :: "string \<Rightarrow> disk"

definition goodEnv :: wenv where
  "goodEnv = \<lparr>eNet = Delivered, eDisk = goodDisk, fNet = (\<lambda>_. Delivered), fDisk = (\<lambda>_. goodDisk)\<rparr>"

lemma goodEnv_simps [simp]:
  "eNet goodEnv = Delivered" "eDisk goodEnv = goodDisk" "fNet goodEnv a = Delivered"
  "fDisk goodEnv a = goodDisk"
  by (simp_all add: goodEnv_def)

definition CreateMethod :: string where "CreateMethod = ''Node.CreateFile''"
definition AppendMethod :: string where "AppendMethod = ''Node.AppendFile''"

lemma methods_distinct [simp]: "CreateMethod \<noteq> AppendMethod" "AppendMethod \<noteq> CreateMethod"
  by (simp_all add: CreateMethod_def AppendMethod_def)

definition serve_local :: "string \<Rightarrow> disk \<Rightarrow> WriteFileArgs \<Rightarrow> hnode \<Rightarrow> hnode \<times> status outcome" where
  "serve_local method d args h =
     (if method = CreateMethod then create_local d args h
      else if method = AppendMethod then append_local d args h
      else (h, Error ''rpc: can't find method''))"

section \<open>Fan-out\<close>

text \<open>
  One goroutine of the fan-out: the call to one replica, with no further replicas in the
  arguments. The accumulator holds the cluster, the count of successes and whether some
  call hangs.
\<close>

definition fan_call :: "wenv \<Rightarrow> string \<Rightarrow> WriteFileArgs \<Rightarrow> string \<Rightarrow> hnode \<Rightarrow> hnode \<times> status outcome" where
  "fan_call env method args addr h =
     through (fNet env addr) h
       (serve_local method (fDisk env addr) (args\<lparr>NonPrimary := []\<rparr>) h)"

definition acked :: "status outcome \<Rightarrow> bool" where
  "acked r = (case r of Reply s \<Rightarrow> success s | _ \<Rightarrow> False)"

definition fan_step :: "wenv \<Rightarrow> string \<Rightarrow> WriteFileArgs \<Rightarrow> cluster \<times> nat \<times> bool \<Rightarrow> string
    \<Rightarrow> cluster \<times> nat \<times> bool" where
  "fan_step env method args st addr =
     (case st of (c, createCount, hangs) \<Rightarrow>
        (case fan_call env method args addr (c addr) of
           (h, r) \<Rightarrow> (c(addr := h), (if acked r then Suc createCount else createCount),
                      hangs \<or> r = Blocked)))"

definition primaryWrite :: "wenv \<Rightarrow> string \<Rightarrow> WriteFileArgs \<Rightarrow> cluster \<Rightarrow> cluster \<times> status outcome" where
  "primaryWrite env method args c =
     (case foldl (fan_step env method args) (c, 0, False) (NonPrimary args) of
        (c', createCount, hangs) \<Rightarrow>
          (c', if hangs then Blocked
               else if createCount \<noteq> length (NonPrimary args)
               then Reply (failReply ''Failed to replicate all non primary'')
               else Reply okReply))"

definition CreateFile :: "wenv \<Rightarrow> string \<Rightarrow> WriteFileArgs \<Rightarrow> cluster \<Rightarrow> cluster \<times> status outcome" where
  "CreateFile env self args c =
     (case create_local (eDisk env) args (c self) of
        (h, r) \<Rightarrow>
          let c1 = c(self := h) in
          if \<not> acked r \<or> NonPrimary args = [] then (c1, r)
          else (case primaryWrite env CreateMethod args c1 of
                  (c2, r2) \<Rightarrow>
                    (case r2 of
                       Reply s \<Rightarrow>
                         if success s then (c2, Reply okReply)
                         else (c2(self := drop_file (HyDFSFileName args) (c2 self)), r2)
                     | _ \<Rightarrow> (c2, r2))))"

definition AppendFile :: "wenv \<Rightarrow> string \<Rightarrow> WriteFileArgs \<Rightarrow> cluster \<Rightarrow> cluster \<times> status outcome" where
  "AppendFile env self args c =
     (case append_local (eDisk env) args (c self) of
        (h, r) \<Rightarrow>
          let c1 = c(self := h) in
          if \<not> acked r \<or> NonPrimary args = [] then (c1, r)
          else primaryWrite env AppendMethod args c1)"

definition serve_write :: "string \<Rightarrow> wenv \<Rightarrow> string \<Rightarrow> WriteFileArgs \<Rightarrow> cluster \<Rightarrow> cluster \<times> status outcome" where
  "serve_write method env self args c =
     (if method = CreateMethod then CreateFile env self args c
      else if method = AppendMethod then AppendFile env self args c
      else (c, Error ''rpc: can't find method''))"

text \<open>\<^verbatim>\<open>CallHyDFSWrite\<close>: the first replica is the primary, the others its fan-out targets.\<close>

definition CallHyDFSWrite :: "wenv \<Rightarrow> fetched \<Rightarrow> string \<Rightarrow> string \<Rightarrow> string \<Rightarrow> string \<Rightarrow> cluster
    \<Rightarrow> cluster \<times> unit outcome" where
  "CallHyDFSWrite env got fileName data method opID c =
     (case GetReplica got fileName of
        Inl e \<Rightarrow> (c, Error (''failed to get replicas for '' @ fileName @ '': '' @ e))
      | Inr [] \<Rightarrow> (c, Error (''failed to get replicas for '' @ fileName))
      | Inr (p # rest) \<Rightarrow>
          let args = \<lparr>HyDFSFileName = fileName, LocalFile = data,
                      NonPrimary = map NodeAddr rest, OperationID = opID\<rparr>
          in (case through (eNet env) c (serve_write method env (NodeAddr p) args c) of
                (c', Blocked) \<Rightarrow> (c', Blocked)
              | (c', Error e) \<Rightarrow> (c', Error e)
              | (c', Reply s) \<Rightarrow>
                  (c', if success s then Reply () else Error (errorMessage s @ [NL]))))"

section \<open>The fan-out touches each target once\<close>

lemma acked_iff: "acked r \<longleftrightarrow> (\<exists>s. r = Reply s \<and> success s)"
  by (auto simp: acked_def split: outcome.splits)

lemma fan_step_eq:
  "fan_step env method args (c, n, b) a =
     (c(a := fst (fan_call env method args a (c a))),
      if acked (snd (fan_call env method args a (c a))) then Suc n else n,
      b \<or> snd (fan_call env method args a (c a)) = Blocked)"
  by (simp add: fan_step_def case_prod_beta)

lemma fan_out_result:
  assumes "distinct addrs"
  shows "foldl (fan_step env method args) (c, n, b) addrs =
     ((\<lambda>a. if a \<in> set addrs then fst (fan_call env method args a (c a)) else c a),
      n + length (filter (\<lambda>a. acked (snd (fan_call env method args a (c a)))) addrs),
      b \<or> (\<exists>a\<in>set addrs. snd (fan_call env method args a (c a)) = Blocked))"
  using assms
proof (induction addrs arbitrary: c n b)
  case (Cons a addrs)
  let ?call = "\<lambda>c x. fan_call env method args x (c x)"
  let ?c1 = "c(a := fst (?call c a))"
  have nin: "a \<notin> set addrs" using Cons.prems by simp
  then have same: "?call ?c1 x = ?call c x" if "x \<in> set addrs" for x
    using that by auto
  have filt: "filter (\<lambda>x. acked (snd (?call ?c1 x))) addrs = filter (\<lambda>x. acked (snd (?call c x))) addrs"
    using same by (intro filter_cong) auto
  have hang: "(\<exists>x\<in>set addrs. snd (?call ?c1 x) = Blocked) = (\<exists>x\<in>set addrs. snd (?call c x) = Blocked)"
    using same by (intro bex_cong) auto
  have upd: "(\<lambda>x. if x \<in> set addrs then fst (?call ?c1 x) else ?c1 x)
      = (\<lambda>x. if x \<in> set (a # addrs) then fst (?call c x) else c x)"
    using nin by auto
  have "foldl (fan_step env method args) (c, n, b) (a # addrs)
      = foldl (fan_step env method args)
          (?c1, if acked (snd (?call c a)) then Suc n else n, b \<or> snd (?call c a) = Blocked) addrs"
    by (simp add: fan_step_eq)
  also have "\<dots> = ((\<lambda>x. if x \<in> set (a # addrs) then fst (?call c x) else c x),
      (if acked (snd (?call c a)) then Suc n else n)
        + length (filter (\<lambda>x. acked (snd (?call c x))) addrs),
      (b \<or> snd (?call c a) = Blocked) \<or> (\<exists>x\<in>set addrs. snd (?call c x) = Blocked))"
    using Cons.IH Cons.prems by (simp only: filt hang upd distinct.simps)
  finally show ?case by simp
qed simp

lemma primaryWrite_eq:
  assumes "distinct (NonPrimary args)"
  shows "primaryWrite env method args c =
     ((\<lambda>a. if a \<in> set (NonPrimary args) then fst (fan_call env method args a (c a)) else c a),
      if \<exists>a\<in>set (NonPrimary args). snd (fan_call env method args a (c a)) = Blocked then Blocked
      else if \<forall>a\<in>set (NonPrimary args). acked (snd (fan_call env method args a (c a)))
      then Reply okReply else Reply (failReply ''Failed to replicate all non primary''))"
proof -
  have "length (filter P xs) = length xs \<longleftrightarrow> (\<forall>a\<in>set xs. P a)" for P and xs :: "string list"
    by (metis filter_id_conv length_filter_less nat_neq_iff)
  then show ?thesis by (simp add: primaryWrite_def fan_out_result [OF assms])
qed

lemma primaryWrite_ack:
  assumes "distinct (NonPrimary args)" and "primaryWrite env method args c = (c', r)"
  shows "acked r \<longleftrightarrow> (\<forall>a\<in>set (NonPrimary args). acked (snd (fan_call env method args a (c a))))"
    and "c' = (\<lambda>a. if a \<in> set (NonPrimary args) then fst (fan_call env method args a (c a)) else c a)"
proof -
  have hang: "\<not> acked Blocked" "acked (Reply okReply)" "\<not> acked (Reply (failReply m))" for m
    by (simp_all add: acked_def)
  show "acked r \<longleftrightarrow> (\<forall>a\<in>set (NonPrimary args). acked (snd (fan_call env method args a (c a))))"
    using assms(2) unfolding primaryWrite_eq [OF assms(1)]
    by (fastforce simp: hang split: if_splits)
  show "c' = (\<lambda>a. if a \<in> set (NonPrimary args) then fst (fan_call env method args a (c a)) else c a)"
    using assms(2) unfolding primaryWrite_eq [OF assms(1)] by simp
qed

text \<open>The outcome of \<^verbatim>\<open>primaryWrite\<close> does not depend on the order of the targets.\<close>

lemma fan_call_targets [simp]:
  "fan_call env method (args\<lparr>NonPrimary := addrs\<rparr>) a h = fan_call env method args a h"
  by (simp add: fan_call_def)

lemma primaryWrite_any_order:
  assumes "distinct (NonPrimary args)" and "mset addrs = mset (NonPrimary args)"
  shows "primaryWrite env method (args\<lparr>NonPrimary := addrs\<rparr>) c = primaryWrite env method args c"
proof -
  have "distinct addrs" using assms mset_eq_imp_distinct_iff by metis
  moreover have "set addrs = set (NonPrimary args)" using assms(2) by (rule mset_eq_setD)
  ultimately show ?thesis using assms(1) by (simp add: primaryWrite_eq cong: if_cong)
qed

section \<open>Acknowledged writes are on every replica\<close>

lemma fan_call_append_ack:
  assumes "fan_call env AppendMethod args a h = (h', r)" and "acked r"
  shows "\<exists>c l. file_at h (HyDFSFileName args) = Some c \<and> log_at h (HyDFSFileName args) = Some l \<and>
          file_at h' (HyDFSFileName args) = Some (c @ LocalFile args) \<and>
          log_at h' (HyDFSFileName args) = Some (l @ log_line args)"
proof -
  obtain s where "r = Reply s" "success s" using assms(2) by (auto simp: acked_iff)
  then have "append_local (fDisk env a) (args\<lparr>NonPrimary := []\<rparr>) h = (h', Reply s)"
    using assms(1) by (simp add: fan_call_def through_Reply serve_local_def)
  then show ?thesis using append_local_Reply(2) \<open>success s\<close> by (fastforce simp: log_line_def)
qed

lemma fan_call_create_ack:
  assumes "fan_call env CreateMethod args a h = (h', r)" and "acked r"
  shows "log_at h (HyDFSFileName args) = None"
    and "file_at h' (HyDFSFileName args) = Some (LocalFile args)"
    and "log_at h' (HyDFSFileName args) = Some (log_line args)"
proof -
  obtain s where s: "r = Reply s" "success s" using assms(2) by (auto simp: acked_iff)
  then have "create_local (fDisk env a) (args\<lparr>NonPrimary := []\<rparr>) h = (h', Reply s)"
    using assms(1) by (simp add: fan_call_def through_Reply serve_local_def)
  from create_local_Reply [OF this s(2)]
  show "log_at h (HyDFSFileName args) = None"
    and "file_at h' (HyDFSFileName args) = Some (LocalFile args)"
    and "log_at h' (HyDFSFileName args) = Some (log_line args)"
    by (simp_all add: log_line_def)
qed

lemma AppendFile_ack:
  assumes "AppendFile env self args c = (c', r)" and "acked r"
    and "distinct (self # NonPrimary args)" and "a \<in> set (self # NonPrimary args)"
  shows "\<exists>x l. file_at (c a) (HyDFSFileName args) = Some x \<and> log_at (c a) (HyDFSFileName args) = Some l \<and>
          file_at (c' a) (HyDFSFileName args) = Some (x @ LocalFile args) \<and>
          log_at (c' a) (HyDFSFileName args) = Some (l @ log_line args)"
proof -
  obtain h r1 where loc: "append_local (eDisk env) args (c self) = (h, r1)" by fastforce
  have ack1: "acked r1"
    using assms(1,2) loc by (auto simp: AppendFile_def Let_def split: if_splits)
  then obtain s where "r1 = Reply s" "success s" by (auto simp: acked_iff)
  then have self: "\<exists>x l. file_at (c self) (HyDFSFileName args) = Some x \<and> log_at (c self) (HyDFSFileName args) = Some l \<and>
      file_at h (HyDFSFileName args) = Some (x @ LocalFile args) \<and>
      log_at h (HyDFSFileName args) = Some (l @ log_line args)"
    using append_local_Reply(2) loc by blast
  show ?thesis
  proof (cases "NonPrimary args = []")
    case True
    then have "c' = c(self := h)" "a = self"
      using assms(1,4) loc by (auto simp: AppendFile_def Let_def)
    with self show ?thesis by simp
  next
    case False
    let ?c1 = "c(self := h)"
    have pw: "primaryWrite env AppendMethod args ?c1 = (c', r)"
      using assms(1) loc ack1 False by (simp add: AppendFile_def Let_def)
    have d: "distinct (NonPrimary args)" "self \<notin> set (NonPrimary args)" using assms(3) by auto
    note res = primaryWrite_ack [OF d(1) pw]
    show ?thesis
    proof (cases "a = self")
      case True
      then have "c' a = h" using res(2) d(2) by simp
      with self True show ?thesis by simp
    next
      case False
      then have a: "a \<in> set (NonPrimary args)" using assms(4) by simp
      then have "acked (snd (fan_call env AppendMethod args a (?c1 a)))" using res(1) assms(2) by blast
      then have "acked (snd (fan_call env AppendMethod args a (c a)))" using False by simp
      from fan_call_append_ack [OF surjective_pairing this]
      show ?thesis using res(2) a False by simp
    qed
  qed
qed

lemma CreateFile_ack:
  assumes "CreateFile env self args c = (c', r)" and "acked r"
    and "distinct (self # NonPrimary args)" and "a \<in> set (self # NonPrimary args)"
  shows "log_at (c a) (HyDFSFileName args) = None"
    and "file_at (c' a) (HyDFSFileName args) = Some (LocalFile args)"
    and "log_at (c' a) (HyDFSFileName args) = Some (log_line args)"
proof -
  obtain h r1 where loc: "create_local (eDisk env) args (c self) = (h, r1)" by fastforce
  have ack1: "acked r1"
    using assms(1,2) loc by (auto simp: CreateFile_def Let_def split: if_splits)
  then obtain s where "r1 = Reply s" "success s" by (auto simp: acked_iff)
  then have self: "log_at (c self) (HyDFSFileName args) = None"
    "file_at h (HyDFSFileName args) = Some (LocalFile args)"
    "log_at h (HyDFSFileName args) = Some (log_line args)"
    using create_local_Reply loc by blast+
  have "log_at (c a) (HyDFSFileName args) = None
    \<and> file_at (c' a) (HyDFSFileName args) = Some (LocalFile args)
    \<and> log_at (c' a) (HyDFSFileName args) = Some (log_line args)"
  proof (cases "NonPrimary args = []")
    case True
    then have "c' = c(self := h)" "a = self"
      using assms(1,4) loc by (auto simp: CreateFile_def Let_def)
    with self show ?thesis by simp
  next
    case False
    let ?c1 = "c(self := h)"
    obtain c2 r2 where pw: "primaryWrite env CreateMethod args ?c1 = (c2, r2)" by fastforce
    have d: "distinct (NonPrimary args)" "self \<notin> set (NonPrimary args)" using assms(3) by auto
    note res = primaryWrite_ack [OF d(1) pw]
    have r2: "acked r2" "c' = c2"
      using assms(1,2) loc ack1 False pw
      by (auto simp: CreateFile_def Let_def acked_def split: outcome.splits if_splits)
    show ?thesis
    proof (cases "a = self")
      case True
      then have "c' a = h" using res(2) d(2) r2(2) by simp
      with self True show ?thesis by simp
    next
      case False
      then have a: "a \<in> set (NonPrimary args)" using assms(4) by simp
      then have "acked (snd (fan_call env CreateMethod args a (?c1 a)))" using res(1) r2(1) by blast
      then have "acked (snd (fan_call env CreateMethod args a (c a)))" using False by simp
      from fan_call_create_ack [OF surjective_pairing this]
      show ?thesis using res(2) r2(2) a False by simp
    qed
  qed
  then show "log_at (c a) (HyDFSFileName args) = None"
    and "file_at (c' a) (HyDFSFileName args) = Some (LocalFile args)"
    and "log_at (c' a) (HyDFSFileName args) = Some (log_line args)"
    by blast+
qed

lemma CallHyDFSWrite_ack:
  assumes "CallHyDFSWrite env got f data method opID c = (c', Reply ())"
  shows "\<exists>p rest s. GetReplica got f = Inr (p # rest) \<and> success s \<and>
    serve_write method env (NodeAddr p)
      \<lparr>HyDFSFileName = f, LocalFile = data, NonPrimary = map NodeAddr rest, OperationID = opID\<rparr> c
      = (c', Reply s)"
proof -
  obtain p rest where g: "GetReplica got f = Inr (p # rest)"
    using assms by (auto simp: CallHyDFSWrite_def split: sum.splits list.splits)
  let ?run = "serve_write method env (NodeAddr p)
    \<lparr>HyDFSFileName = f, LocalFile = data, NonPrimary = map NodeAddr rest, OperationID = opID\<rparr> c"
  obtain c1 r1 where t: "through (eNet env) c ?run = (c1, r1)" by fastforce
  then obtain s where "r1 = Reply s" "success s" "c1 = c'"
    using assms g by (auto simp: CallHyDFSWrite_def Let_def split: outcome.splits if_splits)
  then show ?thesis using t g by (auto simp: through_Reply)
qed

lemma acknowledged_append_on_all_replicas:
  assumes "CallHyDFSWrite env got f data AppendMethod opID c = (c', Reply ())"
    and "GetReplica got f = Inr rs" and "distinct (map NodeAddr rs)" and "n \<in> set rs"
  shows "\<exists>x l. file_at (c (NodeAddr n)) f = Some x \<and> log_at (c (NodeAddr n)) f = Some l \<and>
    file_at (c' (NodeAddr n)) f = Some (x @ data) \<and>
    log_at (c' (NodeAddr n)) f = Some (l @ marshal \<lparr>OpID = opID, Data = data\<rparr> @ [NL])"
proof -
  obtain p rest s where "rs = p # rest" "success s" and run: "serve_write AppendMethod env (NodeAddr p)
      \<lparr>HyDFSFileName = f, LocalFile = data, NonPrimary = map NodeAddr rest, OperationID = opID\<rparr> c
      = (c', Reply s)"
    using CallHyDFSWrite_ack [OF assms(1)] assms(2) by auto
  then have "AppendFile env (NodeAddr p)
      \<lparr>HyDFSFileName = f, LocalFile = data, NonPrimary = map NodeAddr rest, OperationID = opID\<rparr> c
      = (c', Reply s)" by (simp add: serve_write_def)
  from AppendFile_ack [OF this, of "NodeAddr n"] show ?thesis
    using \<open>rs = p # rest\<close> \<open>success s\<close> assms(3,4) by (auto simp: acked_def log_line_def)
qed

lemma acknowledged_create_on_all_replicas:
  assumes "CallHyDFSWrite env got f data CreateMethod opID c = (c', Reply ())"
    and "GetReplica got f = Inr rs" and "distinct (map NodeAddr rs)" and "n \<in> set rs"
  shows "log_at (c (NodeAddr n)) f = None" and "file_at (c' (NodeAddr n)) f = Some data"
    and "log_at (c' (NodeAddr n)) f = Some (marshal \<lparr>OpID = opID, Data = data\<rparr> @ [NL])"
proof -
  obtain p rest s where rs: "rs = p # rest" "success s" and run: "serve_write CreateMethod env (NodeAddr p)
      \<lparr>HyDFSFileName = f, LocalFile = data, NonPrimary = map NodeAddr rest, OperationID = opID\<rparr> c
      = (c', Reply s)"
    using CallHyDFSWrite_ack [OF assms(1)] assms(2) by auto
  then have "CreateFile env (NodeAddr p)
      \<lparr>HyDFSFileName = f, LocalFile = data, NonPrimary = map NodeAddr rest, OperationID = opID\<rparr> c
      = (c', Reply s)" by (simp add: serve_write_def)
  note ack = CreateFile_ack [OF this, of "NodeAddr n"]
  show "log_at (c (NodeAddr n)) f = None" and "file_at (c' (NodeAddr n)) f = Some data"
    and "log_at (c' (NodeAddr n)) f = Some (marshal \<lparr>OpID = opID, Data = data\<rparr> @ [NL])"
    using ack rs assms(3,4) by (auto simp: acked_def log_line_def)
qed

section \<open>A create that fails after its own write\<close>

text \<open>
  When the fan-out fails, the primary removes its data file but not its log. Later creates
  take the log for the file, later appends open the missing data file and leave the mutex
  locked.
\<close>

lemma failed_create_leaves_log:
  assumes "CreateFile env self args c = (c', Reply s)" and "\<not> success s"
    and "acked (snd (create_local (eDisk env) args (c self)))" and "distinct (self # NonPrimary args)"
  shows "file_at (c' self) (HyDFSFileName args) = None"
    and "log_at (c' self) (HyDFSFileName args) = Some (log_line args)"
    and "\<not> is_locked (c' self) (HyDFSFileName args)"
proof -
  obtain h r1 where loc: "create_local (eDisk env) args (c self) = (h, r1)" by fastforce
  then obtain s1 where r1: "r1 = Reply s1" "success s1" using assms(3) by (auto simp: acked_iff)
  note h = create_local_Reply [OF loc [unfolded r1(1)] r1(2)]
  have free: "\<not> is_locked h (HyDFSFileName args)"
    using create_keeps_locks [of "eDisk env" args "c self"] loc h(1) by simp
  let ?c1 = "c(self := h)"
  obtain c2 r2 where fan: "primaryWrite env CreateMethod args ?c1 = (c2, r2)" by fastforce
  have "c2 self = h"
    using primaryWrite_ack(2) [OF _ fan] assms(4) by simp
  moreover have "NonPrimary args \<noteq> []" "c' = c2(self := drop_file (HyDFSFileName args) (c2 self))"
    using assms(1,2) loc r1 fan
    by (auto simp: CreateFile_def Let_def acked_def split: if_splits outcome.splits)
  ultimately show "file_at (c' self) (HyDFSFileName args) = None"
    "log_at (c' self) (HyDFSFileName args) = Some (log_line args)"
    "\<not> is_locked (c' self) (HyDFSFileName args)"
    using h free by simp_all
qed

lemma half_file_handlers:
  assumes "file_at h (HyDFSFileName args) = None" and "log_at h (HyDFSFileName args) \<noteq> None"
    and "\<not> is_locked h (HyDFSFileName args)"
  shows "snd (create_local d args h) = Reply (failReply ''Error: File already exists.'')"
    and "snd (append_local d args h) = Error ''open''"
    and "is_locked (fst (append_local d args h)) (HyDFSFileName args)"
  using assms by (simp_all add: create_local_def append_local_def with_lock_free Let_def)

end
