(* ===== verification/Store.thy ===== *)
theory Store
  imports Replication
begin

text \<open>
  HyDFS as its clients see it: files that grow by appends, and downloads. The locale
  \<open>append_store\<close> is the contract the stream layer relies on; it is met by
  \<^const>\<open>CallHyDFSWrite\<close> on the file of the primary replica, whatever network and disks do.
\<close>

section \<open>Downloads\<close>

definition fetch_from :: "(string \<Rightarrow> net) \<Rightarrow> string \<Rightarrow> string \<Rightarrow> cluster
    \<Rightarrow> cluster \<times> (status \<times> string) outcome" where
  "fetch_from nets addr f c =
     (case through (nets addr) (c addr) (GetFile True f (c addr)) of (h, r) \<Rightarrow> (c(addr := h), r))"

text \<open>
  The download loop of \<^verbatim>\<open>StartSource\<close> and \<^verbatim>\<open>ProcessOrphanLog\<close>: the replicas in order, until one
  returns the file.
\<close>

fun fetch_any :: "(string \<Rightarrow> net) \<Rightarrow> string \<Rightarrow> NodeInfo list \<Rightarrow> cluster \<Rightarrow> cluster \<times> string option outcome" where
  "fetch_any nets f [] c = (c, Reply None)"
| "fetch_any nets f (r # rs) c =
     (case fetch_from nets (NodeAddr r) f c of
        (c', Blocked) \<Rightarrow> (c', Blocked)
      | (c', Error _) \<Rightarrow> fetch_any nets f rs c'
      | (c', Reply (s, d)) \<Rightarrow> if success s then (c', Reply (Some d)) else fetch_any nets f rs c')"

lemma GetFile_same:
  "file_at (fst (GetFile r f h)) = file_at h" "log_at (fst (GetFile r f h)) = log_at h"
  "is_locked (fst (GetFile r f h)) = is_locked h"
  using GetFile_frame by (auto simp: fun_eq_iff)

lemma fetch_from_frame:
  "file_at (fst (fetch_from nets addr f c) a) = file_at (c a)"
  "log_at (fst (fetch_from nets addr f c) a) = log_at (c a)"
  "is_locked (fst (fetch_from nets addr f c) a) = is_locked (c a)"
  by (auto simp: fetch_from_def GetFile_same through_def split: prod.split net.split)
    (auto simp: GetFile_same dest!: arg_cong [where f = fst])

lemma fetch_from_ok:
  assumes "nets addr = Delivered" and "\<not> is_locked (c addr) f" and "file_at (c addr) f = Some d"
  shows "snd (fetch_from nets addr f c) = Reply (okReply, d)"
  using assms GetFile_content [of "c addr" f d]
  by (auto simp: fetch_from_def split: prod.split)

lemma fetch_from_Reply:
  assumes "snd (fetch_from nets addr f c) = Reply (s, d)" and "success s"
  shows "file_at (c addr) f = Some d"
  using assms
  by (auto simp: fetch_from_def GetFile_def with_lock_def Let_def through_def
      split: prod.splits net.splits outcome.splits option.splits if_splits)

text \<open>
  With one reachable replica that has the file, and no mutex stuck, the loop returns a copy
  that some replica has.
\<close>

lemma fetch_any_ok:
  assumes "\<forall>r\<in>set rs. \<not> is_locked (c (NodeAddr r)) f"
    and "\<exists>r\<in>set rs. nets (NodeAddr r) = Delivered \<and> file_at (c (NodeAddr r)) f \<noteq> None"
  shows "\<exists>d r. snd (fetch_any nets f rs c) = Reply (Some d) \<and> r \<in> set rs \<and> file_at (c (NodeAddr r)) f = Some d"
  using assms
proof (induction rs arbitrary: c)
  case (Cons r rs)
  obtain c' res where step: "fetch_from nets (NodeAddr r) f c = (c', res)" by fastforce
  have same: "file_at (c' a) = file_at (c a)" "is_locked (c' a) = is_locked (c a)" for a
    using fetch_from_frame [of nets "NodeAddr r" f c a] step by simp_all
  have unblocked: "res \<noteq> Blocked"
    using step Cons.prems(1)
    by (auto simp: fetch_from_def GetFile_def with_lock_free through_def
        split: prod.splits net.splits outcome.splits option.splits if_splits)
  show ?case
  proof (cases "\<exists>s d. res = Reply (s, d) \<and> success s")
    case True
    then obtain s d where "res = Reply (s, d)" "success s" by blast
    then show ?thesis using step fetch_from_Reply [of nets "NodeAddr r" f c s d] by auto
  next
    case False
    have "\<not> (nets (NodeAddr r) = Delivered \<and> file_at (c (NodeAddr r)) f \<noteq> None)"
      using False step fetch_from_ok [of nets "NodeAddr r" c f] Cons.prems(1) by fastforce
    then have "\<exists>r\<in>set rs. nets (NodeAddr r) = Delivered \<and> file_at (c' (NodeAddr r)) f \<noteq> None"
      using Cons.prems(2) same by auto
    then have "\<exists>d q. snd (fetch_any nets f rs c') = Reply (Some d) \<and> q \<in> set rs
        \<and> file_at (c' (NodeAddr q)) f = Some d"
      using Cons.IH [of c'] Cons.prems(1) same by simp
    moreover have "fetch_any nets f (r # rs) c = fetch_any nets f rs c'"
      using False step unblocked by (cases res) (auto split: prod.splits)
    ultimately show ?thesis using same by auto
  qed
qed simp

section \<open>The contract\<close>

locale append_store =
  fixes append :: "'e \<Rightarrow> string \<Rightarrow> string \<Rightarrow> 's \<Rightarrow> 's \<times> unit outcome"
    and content :: "'s \<Rightarrow> string \<Rightarrow> string option"
  assumes append_ok: "append e f d s = (s', Reply ()) \<Longrightarrow> content s f = Some x \<Longrightarrow> content s' f = Some (x @ d)"
    and append_grows: "append e f d s = (s', r) \<Longrightarrow> content s f = Some x \<Longrightarrow> \<exists>y. content s' f = Some (x @ y)"
    and append_other: "append e f d s = (s', r) \<Longrightarrow> g \<noteq> f \<Longrightarrow> content s' g = content s g"
begin

text \<open>A sequence of appends, acknowledged or not.\<close>

fun appends :: "('e \<times> string) list \<Rightarrow> string \<Rightarrow> 's \<Rightarrow> 's \<times> string list" where
  "appends [] f s = (s, [])"
| "appends ((e, d) # ws) f s =
     (case append e f d s of (s', r) \<Rightarrow>
        (case appends ws f s' of (s'', ds) \<Rightarrow> (s'', if r = Reply () then d # ds else ds)))"

text \<open>The acknowledged writes are in the file, in order; others may have left bytes in between.\<close>

fun embeds :: "string list \<Rightarrow> string \<Rightarrow> bool" where
  "embeds [] x \<longleftrightarrow> True"
| "embeds (d # ds) x \<longleftrightarrow> (\<exists>a b. x = a @ d @ b \<and> embeds ds b)"

lemma embeds_skip: "embeds ds x \<Longrightarrow> embeds ds (a @ x)"
proof (cases ds)
  case (Cons d es)
  assume "embeds ds x"
  then obtain p q where "x = p @ d @ q" "embeds es q" using Cons by auto
  then have "a @ x = (a @ p) @ d @ q" "embeds es q" by simp_all
  then show ?thesis unfolding Cons embeds.simps by blast
qed simp

lemma appends_kept:
  assumes "content s f = Some x" and "appends ws f s = (s', ds)"
  shows "\<exists>y. content s' f = Some (x @ y) \<and> embeds ds y"
  using assms
proof (induction ws arbitrary: s x ds)
  case (Cons w ws)
  obtain e d where w: "w = (e, d)" by (cases w)
  obtain s1 r where step: "append e f d s = (s1, r)" by fastforce
  obtain ds1 where rest: "appends ws f s1 = (s', ds1)"
    using Cons.prems(2) w step by (auto split: prod.splits)
  show ?case
  proof (cases "r = Reply ()")
    case True
    then have "content s1 f = Some (x @ d)" using append_ok step Cons.prems(1) by blast
    then obtain y where "content s' f = Some ((x @ d) @ y)" "embeds ds1 y" using Cons.IH rest by blast
    moreover have "ds = d # ds1" using Cons.prems(2) w step rest True by simp
    moreover have "d @ y = [] @ d @ y" by simp
    ultimately show ?thesis unfolding append_assoc by (metis embeds.simps(2))
  next
    case False
    obtain z where "content s1 f = Some (x @ z)" using append_grows step Cons.prems(1) by blast
    then obtain y where "content s' f = Some ((x @ z) @ y)" "embeds ds1 y" using Cons.IH rest by blast
    moreover have "ds = ds1" using Cons.prems(2) w step rest False by simp
    ultimately show ?thesis using embeds_skip by fastforce
  qed
qed simp

end

section \<open>HyDFS meets the contract\<close>

definition primary_of :: "fetched \<Rightarrow> string \<Rightarrow> string option" where
  "primary_of got f =
     (case GetReplica got f of
        Inr (p # rest) \<Rightarrow> if distinct (map NodeAddr (p # rest)) then Some (NodeAddr p) else None
      | _ \<Rightarrow> None)"

text \<open>The file on its primary, provided the replicas have different addresses.\<close>

definition stored :: "fetched \<Rightarrow> cluster \<Rightarrow> string \<Rightarrow> string option" where
  "stored got c f = Option.bind (primary_of got f) (\<lambda>p. file_at (c p) f)"

lemma primary_of_Some:
  assumes "primary_of got f = Some p"
  obtains n rest where "GetReplica got f = Inr (n # rest)" "NodeAddr n = p"
    "distinct (map NodeAddr (n # rest))"
  using assms by (auto simp: primary_of_def split: sum.splits list.splits if_splits)

lemma fan_call_other:
  "g \<noteq> HyDFSFileName args \<Longrightarrow> file_at (fst (fan_call env method args a h)) g = file_at h g"
  using create_local_other [of g "args\<lparr>NonPrimary := []\<rparr>" "fDisk env a" h]
    append_local_other [of g "args\<lparr>NonPrimary := []\<rparr>" "fDisk env a" h]
  by (auto simp: fan_call_def through_def serve_local_def split: net.split)

lemma fan_fold_other:
  assumes "g \<noteq> HyDFSFileName args"
  shows "file_at (fst (foldl (fan_step env method args) st addrs) a) g = file_at (fst st a) g"
proof (induction addrs arbitrary: st)
  case (Cons b addrs)
  obtain c n h where st: "st = (c, n, h)" by (cases st)
  show ?case using Cons [of "fan_step env method args st b"] fan_call_other [OF assms, of env "method" b "c b"]
    by (simp add: st fan_step_eq)
qed simp

lemma primaryWrite_frame:
  shows "distinct (NonPrimary args) \<Longrightarrow> a \<notin> set (NonPrimary args) \<Longrightarrow> fst (primaryWrite env method args c) a = c a"
    and "g \<noteq> HyDFSFileName args \<Longrightarrow> file_at (fst (primaryWrite env method args c) a) g = file_at (c a) g"
proof -
  show "fst (primaryWrite env method args c) a = c a"
    if "distinct (NonPrimary args)" "a \<notin> set (NonPrimary args)" using that by (simp add: primaryWrite_eq)
  assume g: "g \<noteq> HyDFSFileName args"
  show "file_at (fst (primaryWrite env method args c) a) g = file_at (c a) g"
    using fan_fold_other [OF g, of env "method" "(c, 0, False)" "NonPrimary args" a]
    by (simp add: primaryWrite_def case_prod_beta)
qed

lemma AppendFile_primary:
  assumes "distinct (self # NonPrimary args)"
  shows "file_at (fst (AppendFile env self args c) self) = file_at (fst (append_local (eDisk env) args (c self)))"
  using assms primaryWrite_frame(1) [of args self env AppendMethod]
  by (auto simp: AppendFile_def Let_def split: prod.split)

lemma AppendFile_other:
  assumes "g \<noteq> HyDFSFileName args"
  shows "file_at (fst (AppendFile env self args c) a) g = file_at (c a) g"
  using primaryWrite_frame(2) [OF assms] append_local_other [OF assms, of "eDisk env" "c self"]
  by (auto simp: AppendFile_def Let_def split: prod.split)

text \<open>What an append call does to the cluster: nothing, or a run of the primary's handler.\<close>

lemma CallHyDFSWrite_append:
  assumes "GetReplica got f = Inr (n # rest)"
    and "CallHyDFSWrite env got f d AppendMethod opID c = (c', r)"
  shows "c' = c \<or> c' = fst (AppendFile env (NodeAddr n) \<lparr>HyDFSFileName = f, LocalFile = d,
     NonPrimary = map NodeAddr rest, OperationID = opID\<rparr> c)"
  using assms
  by (auto simp: CallHyDFSWrite_def serve_write_def Let_def through_def
      split: net.splits prod.splits outcome.splits)

interpretation hydfs: append_store
  "\<lambda>(env, opID) f d. CallHyDFSWrite env got f d AppendMethod opID" "stored got" for got
proof unfold_locales
  fix e :: "wenv \<times> string" and f d s s' x r g
  obtain env opID where e: "e = (env, opID)" by (cases e)
  {
    assume run: "(case e of (env, opID) \<Rightarrow> \<lambda>f d. CallHyDFSWrite env got f d AppendMethod opID) f d s = (s', Reply ())"
      and x: "stored got s f = Some x"
    obtain p where p: "primary_of got f = Some p" "file_at (s p) f = Some x"
      using x by (auto simp: stored_def bind_eq_Some_conv)
    obtain n rest where n: "GetReplica got f = Inr (n # rest)" "NodeAddr n = p" "distinct (map NodeAddr (n # rest))"
      using primary_of_Some [OF p(1)] by blast
    then show "stored got s' f = Some (x @ d)"
      using acknowledged_append_on_all_replicas [OF _ n(1,3), of env d opID s s' n] run e p
      by (auto simp: stored_def)
  next
    assume run: "(case e of (env, opID) \<Rightarrow> \<lambda>f d. CallHyDFSWrite env got f d AppendMethod opID) f d s = (s', r)"
      and x: "stored got s f = Some x"
    obtain p where p: "primary_of got f = Some p" "file_at (s p) f = Some x"
      using x by (auto simp: stored_def bind_eq_Some_conv)
    obtain n rest where n: "GetReplica got f = Inr (n # rest)" "NodeAddr n = p" "distinct (map NodeAddr (n # rest))"
      using primary_of_Some [OF p(1)] by blast
    let ?args = "\<lparr>HyDFSFileName = f, LocalFile = d, NonPrimary = map NodeAddr rest, OperationID = opID\<rparr>"
    have "s' = s \<or> s' = fst (AppendFile env p ?args s)"
      using CallHyDFSWrite_append [OF n(1)] run e n(2) by auto
    moreover have "\<exists>y. file_at (fst (AppendFile env p ?args s) p) f = Some (x @ y)"
      using append_local_grows [OF p(2)] AppendFile_primary [of p ?args env s] n by auto
    ultimately have "\<exists>y. file_at (s' p) f = Some (x @ y)" using p(2) by auto
    then show "\<exists>y. stored got s' f = Some (x @ y)" using p(1) by (simp add: stored_def)
  next
    assume run: "(case e of (env, opID) \<Rightarrow> \<lambda>f d. CallHyDFSWrite env got f d AppendMethod opID) f d s = (s', r)"
      and g: "g \<noteq> f"
    show "stored got s' g = stored got s g"
    proof (cases "\<exists>n rest. GetReplica got f = Inr (n # rest)")
      case True
      then obtain n rest where n: "GetReplica got f = Inr (n # rest)" by blast
      let ?args = "\<lparr>HyDFSFileName = f, LocalFile = d, NonPrimary = map NodeAddr rest, OperationID = opID\<rparr>"
      have "s' = s \<or> s' = fst (AppendFile env (NodeAddr n) ?args s)"
        using CallHyDFSWrite_append [OF n] run e by auto
      then show ?thesis using AppendFile_other [of g ?args env "NodeAddr n" s] g by (auto simp: stored_def)
    next
      case False
      then have "s' = s"
        using run e by (auto simp: CallHyDFSWrite_def split: sum.splits list.splits)
      then show ?thesis by simp
    qed
  }
qed

end
