(* ===== verification/StreamTask.thy ===== *)
theory StreamTask
  imports Store
begin

text \<open>
  A RainStorm task on a worker (\<^verbatim>\<open>node/node_stream.go\<close>, \<^verbatim>\<open>utils/stream_utils.go\<close>): the tuples and
  call arguments, the task record, \<^verbatim>\<open>StartTask\<close>, \<^verbatim>\<open>loadDedupLog\<close>, \<^verbatim>\<open>PushTuple\<close>, \<^verbatim>\<open>replayLogData\<close>,
  \<^verbatim>\<open>ProcessOrphanLog\<close>, \<^verbatim>\<open>KillTask\<close>, \<^verbatim>\<open>UpdateDownstream\<close> and \<^verbatim>\<open>UpdateUpstream\<close>. The operator process
  is what has been written to its standard input and whether that pipe is still open. The
  task mutex of a handler that hangs stays locked.
\<close>

record StreamTuple =
  Key :: string
  Value :: string
  MessageID :: string
  IsEOS :: bool

definition eosTuple :: StreamTuple where
  "eosTuple = \<lparr>Key = [], Value = [], MessageID = ''EOS'', IsEOS = True\<rparr>"

record StartTaskArgs =
  RSID :: string
  StageID :: int
  TaskID :: int
  OpExe :: string
  OpArgs :: string
  IsLastStage :: bool
  HyDFSOutput :: string
  DownstreamTasks :: "string list"
  ExactlyOnce :: bool
  NumUpstream :: int
  HyDFSDedupLog :: string

record PushTupleArgs =
  DestStageID :: int
  DestTaskID :: int
  Tuples :: "StreamTuple list"

record RainStormTask =
  Cmd :: "string list"
  Stdin :: string
  stdinOpen :: bool
  ProcessedIDs :: "string set"
  taskLocked :: bool
  SeqNum :: int
  Counter :: int
  DedupHYDFSFile :: string
  NumUpstreams :: int
  EOSCount :: int
  DownstreamList :: "string list"

record worker =
  rsTasks :: "(string \<times> RainStormTask) list"
  TaskPidMap :: "(int \<times> string) list"

definition empty_worker :: worker where
  "empty_worker = \<lparr>rsTasks = [], TaskPidMap = []\<rparr>"

definition task_at :: "worker \<Rightarrow> string \<Rightarrow> RainStormTask option" where
  "task_at w key = map_of (rsTasks w) key"

definition put_task :: "string \<Rightarrow> RainStormTask \<Rightarrow> worker \<Rightarrow> worker" where
  "put_task key task w = w\<lparr>rsTasks := AList.update key task (rsTasks w)\<rparr>"

lemma task_at_put [simp]:
  "task_at (put_task key task w) k = (if k = key then Some task else task_at w k)"
  "TaskPidMap (put_task key task w) = TaskPidMap w"
  by (simp_all add: task_at_def put_task_def)

section \<open>Task keys\<close>

definition getTaskKey :: "int \<Rightarrow> int \<Rightarrow> string" where
  "getTaskKey stageID taskID = show_int stageID @ CHR '':'' # show_int taskID"

text \<open>
  The verb \<^verbatim>\<open>%d\<close> of \<^verbatim>\<open>Sscanf\<close> at the start of the input: an optional sign and the longest run of
  digits. Keys have no white space, which the real verb would skip first.
\<close>

definition scan_int :: "string \<Rightarrow> (int \<times> string) option" where
  "scan_int s =
     (let neg = (s \<noteq> [] \<and> hd s = CHR ''-'');
          s1 = (if s \<noteq> [] \<and> (hd s = CHR ''-'' \<or> hd s = CHR ''+'') then tl s else s);
          ds = takeWhile (\<lambda>c. digit_val c \<noteq> None) s1
      in if ds = [] then None
         else case read_digits 0 ds of
           None \<Rightarrow> None
         | Some n \<Rightarrow> Some (if neg then - int n else int n, dropWhile (\<lambda>c. digit_val c \<noteq> None) s1))"

definition scan_key :: "string \<Rightarrow> (int \<times> int) option" where
  "scan_key key =
     (case scan_int key of
        Some (stage, c # rest) \<Rightarrow>
          if c = CHR '':'' then map_option (\<lambda>(task, _). (stage, task)) (scan_int rest) else None
      | _ \<Rightarrow> None)"

lemma scan_show_nat:
  assumes "rest = [] \<or> digit_val (hd rest) = None"
  shows "takeWhile (\<lambda>c. digit_val c \<noteq> None) (show_nat n @ rest) = show_nat n"
    and "dropWhile (\<lambda>c. digit_val c \<noteq> None) (show_nat n @ rest) = rest"
proof -
  have digits: "digit_val c \<noteq> None" if "c \<in> set (show_nat n)" for c
    using show_nat_no [of c n] that by auto
  have stop: "takeWhile (\<lambda>c. digit_val c \<noteq> None) rest = []" "dropWhile (\<lambda>c. digit_val c \<noteq> None) rest = rest"
    using assms by (cases rest; simp)+
  show "takeWhile (\<lambda>c. digit_val c \<noteq> None) (show_nat n @ rest) = show_nat n"
    using takeWhile_append2 [of "show_nat n" "\<lambda>c. digit_val c \<noteq> None" rest] digits stop(1) by simp
  show "dropWhile (\<lambda>c. digit_val c \<noteq> None) (show_nat n @ rest) = rest"
    using dropWhile_append2 [of "show_nat n" "\<lambda>c. digit_val c \<noteq> None" rest] digits stop(2) by simp
qed

lemma scan_show_int:
  assumes "rest = [] \<or> digit_val (hd rest) = None"
  shows "scan_int (show_int i @ rest) = Some (i, rest)"
proof (cases "i < 0")
  case True
  then show ?thesis using scan_show_nat [OF assms, of "nat (- i)"]
    by (simp add: scan_int_def show_int_def read_show_nat Let_def)
next
  case False
  obtain c cs where c: "show_nat (nat i) = c # cs" by (cases "show_nat (nat i)") auto
  then obtain d where "d < 10" "c = digit d" using hd_show_nat [of "nat i"] by auto
  then have "c \<noteq> CHR ''-''" "c \<noteq> CHR ''+''" using digit_neq by auto
  with False c show ?thesis using scan_show_nat [OF assms, of "nat i"] read_show_nat [of "nat i"]
    by (simp add: scan_int_def show_int_def Let_def)
qed

lemma scan_key_getTaskKey: "scan_key (getTaskKey s t) = Some (s, t)"
proof -
  have "scan_int (show_int s @ CHR '':'' # show_int t) = Some (s, CHR '':'' # show_int t)"
    by (rule scan_show_int) simp
  moreover have "scan_int (show_int t) = Some (t, [])"
    using scan_show_int [of "[]" t] by simp
  ultimately show ?thesis unfolding scan_key_def getTaskKey_def by simp
qed

lemma getTaskKey_inj: "getTaskKey s t = getTaskKey s' t' \<Longrightarrow> s = s' \<and> t = t'"
  by (metis Pair_inject option.inject scan_key_getTaskKey)

section \<open>Writing to the operator\<close>

text \<open>\<^verbatim>\<open>WriteString\<close> on the pipe; a closed pipe refuses.\<close>

definition write_stdin :: "write_result \<Rightarrow> string \<Rightarrow> RainStormTask \<Rightarrow> RainStormTask \<times> bool" where
  "write_stdin r d task =
     (if stdinOpen task then (task\<lparr>Stdin := Stdin task @ landed r d\<rparr>, r = Written)
      else (task, False))"

section \<open>Receiving tuples\<close>

text \<open>
  What happens around one tuple: the HyDFS append of the dedup log (its environment, the
  member list it sees, the clock) and the write to the pipe.
\<close>

record penv =
  pWrite :: wenv
  pGot :: fetched
  pNow :: int
  pPipe :: write_result

definition log_entry :: "string \<Rightarrow> string \<Rightarrow> string" where
  "log_entry msgID val = msgID @ TAB # val @ [NL]"

definition push_one :: "penv \<Rightarrow> StreamTuple \<Rightarrow> RainStormTask \<times> cluster
    \<Rightarrow> (RainStormTask \<times> cluster) \<times> status outcome" where
  "push_one env tuple st =
     (case st of (task, c) \<Rightarrow>
        if IsEOS tuple then
          let task1 = task\<lparr>EOSCount := EOSCount task + 1\<rparr> in
          ((if EOSCount task1 \<ge> NumUpstreams task1 then task1\<lparr>stdinOpen := False\<rparr> else task1, c),
           Reply okReply)
        else if MessageID tuple \<in> ProcessedIDs task then (st, Reply okReply)
        else if DedupHYDFSFile task = [] then (st, Reply (failReply ''Dedup Log filename missing''))
        else
          (case CallHyDFSWrite (pWrite env) (pGot env) (DedupHYDFSFile task)
                  (log_entry (MessageID tuple) (Value tuple)) AppendMethod
                  (''dedup-'' @ show_int (pNow env) @ ''-'' @ MessageID tuple) c of
             (c1, Blocked) \<Rightarrow> ((task\<lparr>taskLocked := True\<rparr>, c1), Blocked)
           | (c1, Error e) \<Rightarrow> ((task, c1), Reply (failReply (''Failed to persist dedup log: '' @ e)))
           | (c1, Reply _) \<Rightarrow>
               (case write_stdin (pPipe env) (Value tuple @ [NL]) task of
                  (task1, ok) \<Rightarrow>
                    if ok
                    then ((task1\<lparr>Counter := Counter task1 + 1,
                                 ProcessedIDs := insert (MessageID tuple) (ProcessedIDs task1)\<rparr>, c1),
                          Reply okReply)
                    else ((task1, c1), Reply (failReply ''Failed to write to operator stdin'')))))"

fun push_all :: "(penv \<times> StreamTuple) list \<Rightarrow> RainStormTask \<times> cluster
    \<Rightarrow> (RainStormTask \<times> cluster) \<times> status outcome" where
  "push_all [] st = (st, Reply okReply)"
| "push_all ((env, tuple) # rest) st =
     (case push_one env tuple st of
        (st', Reply s) \<Rightarrow> if success s then push_all rest st' else (st', Reply s)
      | (st', r) \<Rightarrow> (st', r))"

text \<open>The handler; the environments go with the tuples of the call one by one.\<close>

definition PushTuple :: "penv list \<Rightarrow> PushTupleArgs \<Rightarrow> worker \<times> cluster \<Rightarrow> (worker \<times> cluster) \<times> status outcome" where
  "PushTuple envs args st =
     (case st of (w, c) \<Rightarrow>
        let key = getTaskKey (DestStageID args) (DestTaskID args) in
        (case task_at w key of
           None \<Rightarrow> (st, Reply (failReply (''Task '' @ key @ '' not found on this node'')))
         | Some task \<Rightarrow>
             if taskLocked task then (st, Blocked)
             else (case push_all (zip envs (Tuples args)) (task, c) of
                     ((task', c'), r) \<Rightarrow> ((put_task key task' w, c'), r))))"

section \<open>Loading and replaying dedup logs\<close>

fun log_parts :: "string list \<Rightarrow> (string \<times> string) list" where
  "log_parts [] = []"
| "log_parts (line # ls) =
     (case splitn2 TAB line of
        [msgID, val] \<Rightarrow> (msgID, val) # log_parts ls
      | _ \<Rightarrow> log_parts ls)"

definition recovered_ids :: "string \<Rightarrow> string set" where
  "recovered_ids fileData =
     set (filter (\<lambda>i. i \<noteq> []) (map (\<lambda>line. trim_space (hd (splitn2 TAB line))) (scan_lines fileData)))"

definition loadDedupLog :: "(string \<Rightarrow> net) \<Rightarrow> fetched \<Rightarrow> string \<Rightarrow> cluster
    \<Rightarrow> cluster \<times> (string set \<times> string option) outcome" where
  "loadDedupLog nets got fileName c =
     (case GetReplica got fileName of
        Inr (r # _) \<Rightarrow>
          (case fetch_from nets (NodeAddr r) fileName c of
             (c', Blocked) \<Rightarrow> (c', Blocked)
           | (c', Error _) \<Rightarrow> (c', Reply ({}, None))
           | (c', Reply (s, fileData)) \<Rightarrow>
               (c', Reply (if success s then (recovered_ids fileData, Some fileData) else ({}, None))))
      | _ \<Rightarrow> (c, Reply ({}, None)))"

text \<open>
  One line of a replay, under the task mutex. Without the dedup check everything is written
  again; with it only what the task has not seen, which is then marked.
\<close>

definition replay_line :: "bool \<Rightarrow> write_result \<Rightarrow> string \<times> string \<Rightarrow> RainStormTask \<Rightarrow> RainStormTask" where
  "replay_line enableDedupCheck r line task =
     (case line of (msgID, val) \<Rightarrow>
        if enableDedupCheck \<and> msgID \<in> ProcessedIDs task then task
        else
          let task1 = (if enableDedupCheck then task\<lparr>ProcessedIDs := insert msgID (ProcessedIDs task)\<rparr> else task)
          in fst (write_stdin r (val @ [NL]) task1))"

definition replay_lines :: "bool \<Rightarrow> (string \<times> string) list \<Rightarrow> RainStormTask \<Rightarrow> RainStormTask" where
  "replay_lines enableDedupCheck ls task =
     foldl (\<lambda>task line. replay_line enableDedupCheck Written line task) task ls"

text \<open>\<^verbatim>\<open>replayLogData\<close> when no other handler runs in between.\<close>

definition replayLogData :: "bool \<Rightarrow> string \<Rightarrow> RainStormTask \<Rightarrow> RainStormTask" where
  "replayLogData enableDedupCheck fileData task =
     replay_lines enableDedupCheck (log_parts (scan_lines fileData)) task"

section \<open>Starting and stopping tasks\<close>

text \<open>What the operating system does for one start: logger, pipes, process (its PID).\<close>

record senv =
  sNets :: "string \<Rightarrow> net"
  sGot :: fetched
  sLogName :: "string option"
  sStdin :: bool
  sStdout :: bool
  sPID :: "int option"

record StartTaskReply =
  startStatus :: status
  PID :: int
  LogFileName :: string

definition start_failed :: "string \<Rightarrow> StartTaskReply" where
  "start_failed msg = \<lparr>startStatus = failReply msg, PID = 0, LogFileName = []\<rparr>"

definition newTask :: "StartTaskArgs \<Rightarrow> string set \<Rightarrow> RainStormTask" where
  "newTask args processedIDs =
     \<lparr>Cmd = (''./'' @ OpExe args) # (if OpArgs args = [] then [] else fields_of (OpArgs args)),
      Stdin = [], stdinOpen = True, ProcessedIDs = processedIDs, taskLocked = False, SeqNum = 0,
      Counter = 0, DedupHYDFSFile = HyDFSDedupLog args, NumUpstreams = NumUpstream args,
      EOSCount = 0, DownstreamList = DownstreamTasks args\<rparr>"

text \<open>
  The reply, and the log to replay when there is one (\<^verbatim>\<open>replayLogData\<close> then runs in a goroutine,
  concurrently with \<^verbatim>\<open>PushTuple\<close>).
\<close>

definition StartTask :: "senv \<Rightarrow> StartTaskArgs \<Rightarrow> worker \<times> cluster
    \<Rightarrow> (worker \<times> cluster) \<times> (StartTaskReply \<times> string option) outcome" where
  "StartTask env args st =
     (case sLogName env of
        None \<Rightarrow> (st, Reply (start_failed ''Failed to create logger'', None))
      | Some logName \<Rightarrow>
          (case loadDedupLog (sNets env) (sGot env) (HyDFSDedupLog args) (snd st) of
             (c, Blocked) \<Rightarrow> ((fst st, c), Blocked)
           | (c, Error e) \<Rightarrow> ((fst st, c), Error e)
           | (c, Reply (processedIDs, replayData)) \<Rightarrow>
               if \<not> sStdin env then ((fst st, c), Reply (start_failed ''Failed to create StdinPipe: '', None))
               else if \<not> sStdout env then ((fst st, c), Reply (start_failed ''Failed to create StdoutPipe: '', None))
               else (case sPID env of
                  None \<Rightarrow> ((fst st, c), Reply (start_failed ''Failed to start command: '', None))
                | Some pid \<Rightarrow>
                    let key = getTaskKey (StageID args) (TaskID args);
                        w = put_task key (newTask args processedIDs) (fst st);
                        w = w\<lparr>TaskPidMap := AList.update pid key (TaskPidMap w)\<rparr>
                    in ((w, c),
                        Reply (\<lparr>startStatus = okReply, PID = pid, LogFileName = logName\<rparr>,
                               case replayData of Some d \<Rightarrow> if d \<noteq> [] then Some d else None | None \<Rightarrow> None)))))"

text \<open>\<^verbatim>\<open>KillTask\<close>; the flag says whether the process could be killed.\<close>

definition KillTask :: "bool \<Rightarrow> int \<Rightarrow> worker \<Rightarrow> worker \<times> status" where
  "KillTask killed pid w =
     (if \<not> killed then (w, failReply (''Failed to kill PID '' @ show_int pid))
      else
        ((case map_of (TaskPidMap w) pid of
            None \<Rightarrow> w
          | Some targetKey \<Rightarrow>
              w\<lparr>rsTasks := AList.delete targetKey (rsTasks w), TaskPidMap := AList.delete pid (TaskPidMap w)\<rparr>),
         okReply))"

text \<open>The survivor takes over a log: the reply, and the log to replay in a goroutine.\<close>

definition ProcessOrphanLog :: "(string \<Rightarrow> net) \<Rightarrow> fetched \<Rightarrow> int \<Rightarrow> int \<Rightarrow> string \<Rightarrow> worker \<times> cluster
    \<Rightarrow> cluster \<times> (status \<times> string option) outcome" where
  "ProcessOrphanLog nets got stageID taskID orphanLogFile st =
     (case task_at (fst st) (getTaskKey stageID taskID) of
        None \<Rightarrow> (snd st, Reply (failReply (''Critical: Survivor task '' @ show_int taskID @ '' not found''), None))
      | Some task \<Rightarrow>
          (case (case GetReplica got orphanLogFile of
                   Inl _ \<Rightarrow> (snd st, Reply None)
                 | Inr replicas \<Rightarrow> fetch_any nets orphanLogFile replicas (snd st)) of
             (c, Reply d) \<Rightarrow>
               (c, Reply (okReply, case d of Some x \<Rightarrow> if x = [] then None else Some x | None \<Rightarrow> None))
           | (c, Blocked) \<Rightarrow> (c, Blocked)
           | (c, Error e) \<Rightarrow> (c, Error e)))"

section \<open>Rescaling notices\<close>

definition in_stage :: "int \<Rightarrow> string \<Rightarrow> bool" where
  "in_stage stage key = (case scan_key key of Some (s, _) \<Rightarrow> s = stage | None \<Rightarrow> False)"

definition UpdateDownstream :: "int \<Rightarrow> string list \<Rightarrow> worker \<Rightarrow> worker" where
  "UpdateDownstream stage downstream w =
     w\<lparr>rsTasks := map (\<lambda>(key, task).
        (key, if in_stage stage key then task\<lparr>DownstreamList := downstream\<rparr> else task)) (rsTasks w)\<rparr>"

definition UpdateUpstream :: "int \<Rightarrow> int \<Rightarrow> worker \<Rightarrow> worker" where
  "UpdateUpstream stage numUpstream w =
     w\<lparr>rsTasks := map (\<lambda>(key, task).
        (key, if in_stage stage key then task\<lparr>NumUpstreams := numUpstream\<rparr> else task)) (rsTasks w)\<rparr>"

lemma map_of_map_snd: "map_of (map (\<lambda>(k, v). (k, g k v)) al) k = map_option (g k) (map_of al k)"
  by (induction al) auto

lemma task_at_UpdateDownstream:
  "task_at (UpdateDownstream s ds w) (getTaskKey s' t) =
     map_option (\<lambda>task. if s' = s then task\<lparr>DownstreamList := ds\<rparr> else task) (task_at w (getTaskKey s' t))"
  by (simp add: task_at_def UpdateDownstream_def map_of_map_snd in_stage_def scan_key_getTaskKey)

lemma task_at_UpdateUpstream:
  "task_at (UpdateUpstream s n w) (getTaskKey s' t) =
     map_option (\<lambda>task. if s' = s then task\<lparr>NumUpstreams := n\<rparr> else task) (task_at w (getTaskKey s' t))"
  by (simp add: task_at_def UpdateUpstream_def map_of_map_snd in_stage_def scan_key_getTaskKey)

end
