(* ===== verification/Operators.thy ===== *)
theory Operators
  imports GoStrings
begin

text \<open>
  The operator programs under \<^verbatim>\<open>ops/\<close> and the parts of \<^verbatim>\<open>encoding/csv\<close> they use. An operator
  is a step function on its state and one input line; \<^const>\<open>None\<close> is a panic, after which it
  prints nothing more. Its output is the list of the lines it prints.
\<close>

section \<open>CSV\<close>

abbreviation COMMA :: char where "COMMA \<equiv> CHR 0x2C"

text \<open>
  The rest of a quoted field: its content, and the rest of the line after the comma that ends
  it, or \<^const>\<open>None\<close> at the end of the line. A quote before anything else is an error, and so
  is a missing closing quote (the input is one line).
\<close>

fun csv_quoted :: "string \<Rightarrow> (string \<times> string option) option" where
  "csv_quoted [] = None"
| "csv_quoted (c # cs) =
     (if c = DQ then
        (case cs of
           [] \<Rightarrow> Some ([], None)
         | d # ds \<Rightarrow>
             if d = DQ then map_option (apfst ((#) DQ)) (csv_quoted ds)
             else if d = COMMA then Some ([], Some ds)
             else None)
      else map_option (apfst ((#) c)) (csv_quoted cs))"

lemma csv_quoted_shorter: "csv_quoted s = Some (f, Some r) \<Longrightarrow> length r < length s"
proof (induction s arbitrary: f rule: csv_quoted.induct)
  case (2 c cs)
  show ?case
  proof (cases "c = DQ")
    case True
    with 2 show ?thesis by (fastforce split: list.splits if_splits)
  next
    case False
    with 2 show ?thesis by fastforce
  qed
qed simp

function csv_record :: "string \<Rightarrow> string list option" where
  "csv_record line =
     (if line \<noteq> [] \<and> hd line = DQ then
        (case csv_quoted (tl line) of
           None \<Rightarrow> None
         | Some (f, None) \<Rightarrow> Some [f]
         | Some (f, Some rest) \<Rightarrow> map_option ((#) f) (csv_record rest))
      else
        (case index_of COMMA line of
           None \<Rightarrow> if DQ \<in> set line then None else Some [line]
         | Some i \<Rightarrow>
             if DQ \<in> set (take i line) then None
             else map_option ((#) (take i line)) (csv_record (drop (Suc i) line))))"
  by pat_completeness auto
termination
proof (relation "measure length", simp, goal_cases)
  case (1 line x a b rest)
  then show ?case using csv_quoted_shorter [of "tl line"] by (cases line) fastforce+
next
  case (2 line i)
  then show ?case using index_of_lt [of COMMA line i] by simp
qed

declare csv_record.simps [simp del]

lemma csv_record_cases:
  "line \<noteq> [] \<and> hd line = DQ \<Longrightarrow> csv_record line =
     (case csv_quoted (tl line) of
        None \<Rightarrow> None
      | Some (f, None) \<Rightarrow> Some [f]
      | Some (f, Some rest) \<Rightarrow> map_option ((#) f) (csv_record rest))"
  "\<not> (line \<noteq> [] \<and> hd line = DQ) \<Longrightarrow> csv_record line =
     (case index_of COMMA line of
        None \<Rightarrow> if DQ \<in> set line then None else Some [line]
      | Some i \<Rightarrow>
          if DQ \<in> set (take i line) then None
          else map_option ((#) (take i line)) (csv_record (drop (Suc i) line)))"
  by (subst csv_record.simps, rule if_P, assumption) (subst csv_record.simps, rule if_not_P, assumption)

text \<open>\<^verbatim>\<open>Read\<close> on a reader over one line: a blank line is end of file, an error too.\<close>

definition csv_read :: "string \<Rightarrow> string list option" where
  "csv_read line = (let l = drop_cr line in if l = [] then None else csv_record l)"

text \<open>\<^verbatim>\<open>Write\<close>: a field is quoted when the reader would not get it back otherwise.\<close>

definition fieldNeedsQuotes :: "string \<Rightarrow> bool" where
  "fieldNeedsQuotes field \<longleftrightarrow>
     field \<noteq> [] \<and>
     (field = [CHR 0x5C, CHR ''.''] \<or> NL \<in> set field \<or> CR \<in> set field \<or> DQ \<in> set field
      \<or> COMMA \<in> set field \<or> is_space (hd field))"

definition csv_esc :: "string \<Rightarrow> string" where
  "csv_esc s = concat (map (\<lambda>c. if c = DQ then [DQ, DQ] else [c]) s)"

definition csv_field :: "string \<Rightarrow> string" where
  "csv_field field = (if fieldNeedsQuotes field then DQ # csv_esc field @ [DQ] else field)"

definition csv_line :: "string list \<Rightarrow> string" where
  "csv_line fs = join [COMMA] (map csv_field fs)"

section \<open>Operator programs\<close>

type_synonym 's step = "'s \<Rightarrow> string \<Rightarrow> ('s \<times> string list) option"

fun run_op :: "'s step \<Rightarrow> 's \<Rightarrow> string list \<Rightarrow> string list" where
  "run_op step s [] = []"
| "run_op step s (l # ls) =
     (case step s l of None \<Rightarrow> [] | Some (s', out) \<Rightarrow> out @ run_op step s' ls)"

text \<open>\<^verbatim>\<open>ops/identity/op0_identity.go\<close>\<close>

definition op0_step :: "unit step" where
  "op0_step s line = Some (s, [line])"

definition op0_identity :: "string list \<Rightarrow> string list" where
  "op0_identity = run_op op0_step ()"

text \<open>The key of a line: its column, or empty; a negative column panics.\<close>

definition column :: "int \<Rightarrow> string \<Rightarrow> string option" where
  "column colIdx line =
     (case csv_read line of
        None \<Rightarrow> Some []
      | Some record \<Rightarrow>
          if colIdx < int (length record)
          then (if colIdx < 0 then None else Some (record ! nat colIdx))
          else Some [])"

text \<open>\<^verbatim>\<open>ops/filter/op1_filter.go\<close>; without arguments it exits at once.\<close>

definition op1_step :: "string \<Rightarrow> int option \<Rightarrow> unit step" where
  "op1_step pattern col s line =
     (if contains pattern line then
        (case col of
           Some colIdx \<Rightarrow> map_option (\<lambda>key. (s, [key @ TAB # line])) (column colIdx line)
         | None \<Rightarrow> Some (s, [line]))
      else Some (s, []))"

definition op1_filter :: "string list \<Rightarrow> string list \<Rightarrow> string list" where
  "op1_filter args ls =
     (case args of
        [] \<Rightarrow> []
      | [pattern] \<Rightarrow> run_op (op1_step pattern None) () ls
      | pattern # col # _ \<Rightarrow> run_op (op1_step pattern (atoi col)) () ls)"

text \<open>The value \<^verbatim>\<open>Atoi\<close> returns beside its error: zero, or the nearest number of 64 bits.\<close>

definition atoi_value :: "string \<Rightarrow> int" where
  "atoi_value s =
     (case atoi s of
        Some i \<Rightarrow> i
      | None \<Rightarrow>
          let ds = (if s \<noteq> [] \<and> (hd s = CHR ''-'' \<or> hd s = CHR ''+'') then tl s else s) in
          if ds = [] \<or> read_digits 0 ds = None then 0
          else if hd s = CHR ''-'' then - (2 ^ 63) else 2 ^ 63 - 1)"

text \<open>\<^verbatim>\<open>ops/count/op2_count.go\<close>\<close>

definition count_of :: "(string \<times> int) list \<Rightarrow> string \<Rightarrow> int" where
  "count_of counts key = (case map_of counts key of Some n \<Rightarrow> n | None \<Rightarrow> 0)"

definition count_line :: "string \<Rightarrow> int \<Rightarrow> string" where
  "count_line key n = key @ '': '' @ show_int n"

definition op2_step :: "int \<Rightarrow> (string \<times> int) list step" where
  "op2_step colIdx counts line =
     map_option (\<lambda>key.
       let n = count_of counts key + 1
       in (AList.update key n counts, [count_line key n])) (column colIdx line)"

definition op2_count :: "string list \<Rightarrow> string list \<Rightarrow> string list" where
  "op2_count args ls =
     run_op (op2_step (case args of [] \<Rightarrow> 0 | a # _ \<Rightarrow> atoi_value a)) [] ls"

text \<open>\<^verbatim>\<open>ops/transform/op3_transform.go\<close>\<close>

definition op3_step :: "unit step" where
  "op3_step s line =
     (case csv_read line of
        Some record \<Rightarrow> Some (s, if 3 \<le> length record then [csv_line (take 3 record)] else [])
      | None \<Rightarrow> Some (s, []))"

definition op3_transform :: "string list \<Rightarrow> string list" where
  "op3_transform = run_op op3_step ()"


section \<open>Reading what was written\<close>

lemma csv_quoted_esc:
  "csv_quoted (csv_esc f @ DQ # COMMA # r) = Some (f, Some r)"
  "csv_quoted (csv_esc f @ [DQ]) = Some (f, None)"
  by (induction f) (auto simp: csv_esc_def)

lemma plain_field:
  assumes "\<not> fieldNeedsQuotes f"
  shows "COMMA \<notin> set f" "DQ \<notin> set f" "CR \<notin> set f" "NL \<notin> set f"
  using assms by (auto simp: fieldNeedsQuotes_def)

lemma csv_record_last: "csv_record (csv_field f) = Some [f]"
proof (cases "fieldNeedsQuotes f")
  case True
  then show ?thesis by (subst csv_record.simps) (simp add: csv_field_def csv_quoted_esc)
next
  case False
  moreover have "f = [] \<or> hd f \<noteq> DQ" using plain_field(2) [OF False] by (cases f) auto
  ultimately show ?thesis
    using plain_field [OF False]
    by (subst csv_record.simps) (auto simp: csv_field_def index_of_None [THEN iffD2])
qed

lemma csv_record_more: "csv_record (csv_field f @ COMMA # r) = map_option ((#) f) (csv_record r)"
proof (cases "fieldNeedsQuotes f")
  case True
  then show ?thesis by (subst csv_record.simps) (simp add: csv_field_def csv_quoted_esc)
next
  case False
  note plain = plain_field [OF False]
  have "hd (f @ COMMA # r) \<noteq> DQ" using plain(2) by (cases f) auto
  moreover have "index_of COMMA (f @ COMMA # r) = Some (length f)"
    by (rule index_of_append [OF plain(1)])
  ultimately show ?thesis
    using False plain(2) by (subst csv_record.simps) (simp add: csv_field_def)
qed

lemma csv_record_line: "fs \<noteq> [] \<Longrightarrow> csv_record (csv_line fs) = Some fs"
proof (induction fs rule: induct_list012)
  case (2 f)
  then show ?case by (simp add: csv_line_def csv_record_last)
next
  case (3 f g fs)
  then show ?case by (simp add: csv_line_def csv_record_more)
qed simp

lemma csv_field_last: "csv_field f \<noteq> [] \<Longrightarrow> last (csv_field f) \<noteq> CR"
proof (cases "fieldNeedsQuotes f")
  case False
  assume "csv_field f \<noteq> []"
  then have "last f \<in> set f" using False by (simp add: csv_field_def)
  then show ?thesis using plain_field(3) [OF False] False by (auto simp: csv_field_def)
qed (simp add: csv_field_def)

lemma csv_line_Cons: "csv_line (f # g # fs) = csv_field f @ COMMA # csv_line (g # fs)"
  by (simp add: csv_line_def)

lemma csv_line_last: "csv_line fs = [] \<or> last (csv_line fs) \<noteq> CR"
proof (induction fs rule: induct_list012)
  case (2 f)
  then show ?case using csv_field_last by (auto simp: csv_line_def)
next
  case (3 f g fs)
  then show ?case by (auto simp: csv_line_Cons)
qed (simp add: csv_line_def)

text \<open>\<^verbatim>\<open>Read\<close> gets back what \<^verbatim>\<open>Write\<close> wrote, except for a record of one empty field.\<close>

lemma csv_read_line: "fs \<noteq> [] \<Longrightarrow> fs \<noteq> [[]] \<Longrightarrow> csv_read (csv_line fs) = Some fs"
proof -
  assume fs: "fs \<noteq> []" "fs \<noteq> [[]]"
  have "csv_line fs \<noteq> []"
  proof
    assume e: "csv_line fs = []"
    obtain f gs where f: "fs = f # gs" using fs(1) by (cases fs) auto
    then have "gs = []" using e by (cases gs) (auto simp: csv_line_Cons)
    then show False using e f fs(2) by (auto simp: csv_line_def csv_field_def split: if_splits)
  qed
  moreover have "drop_cr (csv_line fs) = csv_line fs"
    by (rule drop_cr_id) (use csv_line_last in auto)
  ultimately show ?thesis using csv_record_line [OF fs(1)] by (simp add: csv_read_def Let_def)
qed

lemma csv_esc_NL: "NL \<notin> set f \<Longrightarrow> NL \<notin> set (csv_field f)"
  by (auto simp: csv_field_def csv_esc_def)

lemma csv_line_NL: "\<forall>f\<in>set fs. NL \<notin> set f \<Longrightarrow> NL \<notin> set (csv_line fs)"
  by (induction fs rule: induct_list012) (auto simp: csv_line_def csv_esc_NL)

lemma csv_quoted_NL: "csv_quoted s = Some (f, r) \<Longrightarrow> c \<notin> set s \<Longrightarrow> c \<notin> set f \<and> (\<forall>t. r = Some t \<longrightarrow> c \<notin> set t)"
proof (induction s arbitrary: f rule: csv_quoted.induct)
  case (2 d cs)
  show ?case
  proof (cases "d = DQ")
    case True
    with 2 show ?thesis by (fastforce split: list.splits if_splits)
  next
    case False
    with 2 show ?thesis by fastforce
  qed
qed simp

lemma csv_record_NL:
  "csv_record line = Some fs \<Longrightarrow> c \<notin> set line \<Longrightarrow> \<forall>f\<in>set fs. c \<notin> set f"
proof (induction line arbitrary: fs rule: csv_record.induct)
  case (1 line)
  show ?case
  proof (cases "line \<noteq> [] \<and> hd line = DQ")
    case True
    note eq = csv_record_cases(1) [OF True]
    from "1.prems"(1) obtain f r where q: "csv_quoted (tl line) = Some (f, r)"
      unfolding eq by (auto split: option.splits)
    have "c \<notin> set (tl line)" using "1.prems"(2) by (cases line) auto
    note clean = csv_quoted_NL [OF q this]
    show ?thesis
    proof (cases r)
      case None
      then show ?thesis using "1.prems"(1) clean unfolding eq q by auto
    next
      case (Some t)
      then obtain gs where gs: "csv_record t = Some gs" "fs = f # gs"
        using "1.prems"(1) unfolding eq q by auto
      have "\<forall>x\<in>set gs. c \<notin> set x"
        using "1.IH"(1) [OF True q refl Some gs(1)] clean Some by simp
      then show ?thesis using gs(2) clean by simp
    qed
  next
    case False
    note eq = csv_record_cases(2) [OF False]
    show ?thesis
    proof (cases "index_of COMMA line")
      case None
      then show ?thesis using "1.prems" unfolding eq by (auto split: if_splits)
    next
      case (Some i)
      then obtain gs where gs: "DQ \<notin> set (take i line)" "csv_record (drop (Suc i) line) = Some gs"
        "fs = take i line # gs"
        using "1.prems"(1) unfolding eq by (auto split: if_splits)
      have "\<forall>x\<in>set gs. c \<notin> set x"
        using "1.IH"(2) [OF False Some gs(1,2)] "1.prems"(2) by (auto dest: in_set_dropD)
      then show ?thesis using gs(3) "1.prems"(2) by (auto dest: in_set_takeD)
    qed
  qed
qed

section \<open>The operator interface\<close>

text \<open>
  What the task layer relies on: an operator reads its input line by line, so its output on a
  longer input extends its output on the shorter one, and it prints whole lines. An operator
  without state treats every line by itself.
\<close>

locale line_operator =
  fixes run :: "string list \<Rightarrow> string list"
  assumes run_Nil: "run [] = []"
    and run_extends: "\<exists>more. run (ls @ ls') = run ls @ more"
    and run_lines: "\<forall>l\<in>set ls. NL \<notin> set l \<Longrightarrow> \<forall>l\<in>set (run ls). NL \<notin> set l"
begin

lemma run_prefix: "take (length (run ls)) (run (ls @ ls')) = run ls"
  using run_extends [of ls ls'] by auto

lemma run_nth:
  assumes "i < length (run ls)"
  shows "run (ls @ ls') ! i = run ls ! i"
  using run_extends [of ls ls'] assms by (auto simp: nth_append)

text \<open>Its standard output, split again by the reader of the pipe.\<close>

lemma output_split:
  assumes "\<forall>l\<in>set ls. NL \<notin> set l" and "\<forall>l\<in>set (run ls). length l < maxTokenSize \<and> (l = [] \<or> last l \<noteq> CR)"
  shows "scan_lines (unlines (run ls)) = run ls"
  by (rule scan_lines_unlines) (use assms run_lines [OF assms(1)] in \<open>auto simp: scannable_def\<close>)

end

locale stateless_operator = line_operator +
  fixes out :: "string \<Rightarrow> string list"
  assumes run_concat: "run ls = concat (map out ls)"
begin

lemma run_append: "run (ls @ ls') = run ls @ run ls'"
  by (simp add: run_concat)

lemma run_any_order: "mset ls = mset ls' \<Longrightarrow> mset (run ls) = mset (run ls')"
proof -
  assume "mset ls = mset ls'"
  then have "mset (map (mset \<circ> out) ls) = mset (map (mset \<circ> out) ls')" by simp
  then have "sum_list (map (mset \<circ> out) ls) = sum_list (map (mset \<circ> out) ls')"
    by (metis sum_mset_sum_list)
  then show ?thesis by (simp add: run_concat mset_concat)
qed

end

section \<open>The operators meet the interface\<close>

lemma run_op_extends: "\<exists>more. run_op step s (ls @ ls') = run_op step s ls @ more"
proof (induction ls arbitrary: s)
  case (Cons l ls)
  then show ?case by (cases "step s l") auto
qed simp

lemma run_op_lines:
  assumes "\<And>s l s' out. step s l = Some (s', out) \<Longrightarrow> NL \<notin> set l \<Longrightarrow> \<forall>x\<in>set out. NL \<notin> set x"
    and "\<forall>l\<in>set ls. NL \<notin> set l"
  shows "\<forall>x\<in>set (run_op step s ls). NL \<notin> set x"
  using assms(2)
proof (induction ls arbitrary: s)
  case (Cons l ls)
  then show ?case using assms(1) by (cases "step s l") fastforce+
qed simp

lemma run_op_stateless:
  "(\<And>l. step () l = Some ((), out l)) \<Longrightarrow> run_op step () ls = concat (map out ls)"
  by (induction ls) simp_all

lemma in_trim_suffix: "c \<in> set (trim_suffix_char d s) \<Longrightarrow> c \<in> set s"
  by (auto simp: trim_suffix_char_def split: if_splits dest: in_set_butlastD)

lemma csv_read_NL: "csv_read line = Some fs \<Longrightarrow> c \<notin> set line \<Longrightarrow> \<forall>f\<in>set fs. c \<notin> set f"
  using csv_record_NL [of "drop_cr line" fs c] in_trim_suffix [of c CR line]
  by (auto simp: csv_read_def Let_def drop_cr_def split: if_splits)

lemma column_NL: "column i line = Some key \<Longrightarrow> c \<notin> set line \<Longrightarrow> c \<notin> set key"
  using csv_read_NL [of line _ c] by (fastforce simp: column_def split: option.splits if_splits)

definition op1_out :: "string \<Rightarrow> string \<Rightarrow> string list" where
  "op1_out pattern line = (if contains pattern line then [line] else [])"

definition op3_out :: "string \<Rightarrow> string list" where
  "op3_out line =
     (case csv_read line of
        Some record \<Rightarrow> if 3 \<le> length record then [csv_line (take 3 record)] else []
      | None \<Rightarrow> [])"

lemma op3_out_NL:
  assumes "NL \<notin> set l" and "x \<in> set (op3_out l)"
  shows "NL \<notin> set x"
proof -
  obtain r where r: "csv_read l = Some r" "x = csv_line (take 3 r)"
    using assms(2) by (cases "csv_read l") (auto simp: op3_out_def split: if_splits)
  have "\<forall>f\<in>set (take 3 r). NL \<notin> set f"
    using csv_read_NL [OF r(1) assms(1)] by (auto dest: in_set_takeD)
  then show ?thesis unfolding r(2) by (rule csv_line_NL)
qed

lemma op1_out_NL: "NL \<notin> set l \<Longrightarrow> x \<in> set (op1_out pattern l) \<Longrightarrow> NL \<notin> set x"
  by (simp add: op1_out_def split: if_splits)

lemma op_concat:
  "op0_identity ls = concat (map (\<lambda>l. [l]) ls)"
  "op1_filter [pattern] ls = concat (map (op1_out pattern) ls)"
  "op3_transform ls = concat (map op3_out ls)"
  unfolding op0_identity_def op1_filter_def op3_transform_def list.case
  by (rule run_op_stateless, simp add: op0_step_def op1_step_def op3_step_def op1_out_def op3_out_def
      split: option.split)+

interpretation op0: stateless_operator op0_identity "\<lambda>l. [l]"
  by unfold_locales (auto simp: op_concat(1))

interpretation op1: stateless_operator "op1_filter [pattern]" "op1_out pattern" for pattern
  by unfold_locales (auto simp: op_concat(2) op1_out_NL)

interpretation op3: stateless_operator op3_transform op3_out
  by unfold_locales (auto simp: op_concat(3) op3_out_NL)

interpretation op1_key: line_operator "op1_filter (pattern # col # rest)" for pattern col rest
proof unfold_locales
  show "op1_filter (pattern # col # rest) [] = []" by (simp add: op1_filter_def)
  show "\<exists>more. op1_filter (pattern # col # rest) (ls @ ls') = op1_filter (pattern # col # rest) ls @ more" for ls ls'
    unfolding op1_filter_def list.case by (rule run_op_extends)
  show "\<forall>l\<in>set (op1_filter (pattern # col # rest) ls). NL \<notin> set l" if "\<forall>l\<in>set ls. NL \<notin> set l" for ls
    unfolding op1_filter_def list.case
    by (rule run_op_lines [OF _ that]) (auto simp: op1_step_def column_NL split: if_splits option.splits)
qed

interpretation op2: line_operator "op2_count args" for args
proof unfold_locales
  show "op2_count args [] = []" by (simp add: op2_count_def)
  show "\<exists>more. op2_count args (ls @ ls') = op2_count args ls @ more" for ls ls'
    unfolding op2_count_def by (rule run_op_extends)
  show "\<forall>l\<in>set (op2_count args ls). NL \<notin> set l" if "\<forall>l\<in>set ls. NL \<notin> set l" for ls
    unfolding op2_count_def
    by (rule run_op_lines [OF _ that])
      (auto simp: op2_step_def Let_def count_line_def column_NL show_int_no)
qed


section \<open>Counting\<close>

definition key_of :: "int \<Rightarrow> string \<Rightarrow> string" where
  "key_of colIdx line = (case column colIdx line of Some key \<Rightarrow> key | None \<Rightarrow> [])"

lemma column_key: "0 \<le> colIdx \<Longrightarrow> column colIdx line = Some (key_of colIdx line)"
  by (simp add: column_def key_of_def split: option.split)

lemma count_of_update [simp]:
  "count_of (AList.update k n counts) key = (if key = k then n else count_of counts key)"
  by (simp add: count_of_def)

lemma op2_step_key:
  "0 \<le> colIdx \<Longrightarrow> op2_step colIdx counts line =
     (let k = key_of colIdx line; n = count_of counts k + 1
      in Some (AList.update k n counts, [count_line k n]))"
  by (simp add: op2_step_def column_key Let_def)

lemma op2_length: "0 \<le> colIdx \<Longrightarrow> length (run_op (op2_step colIdx) counts ls) = length ls"
  by (induction ls arbitrary: counts) (simp_all add: op2_step_key Let_def)

text \<open>The line printed for an input line is its key and how often the key has occurred so far.\<close>

lemma op2_nth:
  assumes "0 \<le> colIdx" and "j < length ls"
  shows "run_op (op2_step colIdx) counts ls ! j =
    (let k = key_of colIdx (ls ! j) in
     count_line k (count_of counts k
       + int (length (filter (\<lambda>l. key_of colIdx l = k) (take (Suc j) ls)))))"
  using assms(2)
proof (induction ls arbitrary: counts j)
  case (Cons l ls)
  then show ?case using assms(1)
    by (cases j) (auto simp: op2_step_key Let_def algebra_simps)
qed simp

text \<open>
  The counting operator counts: for a column that is not negative it prints one line
  per input line, and the \<open>j\<close>-th one is the key of the \<open>j\<close>-th input line with the number of
  lines up to and including it that have this key.
\<close>

lemma count_is_running_count:
  assumes "0 \<le> atoi_value col"
  shows "length (op2_count (col # rest) ls) = length ls \<and>
    (\<forall>j<length ls. op2_count (col # rest) ls ! j =
      (let k = key_of (atoi_value col) (ls ! j) in
       count_line k (int (length (filter (\<lambda>l. key_of (atoi_value col) l = k) (take (Suc j) ls))))))"
  using op2_length [OF assms] op2_nth [OF assms, of _ ls "[]"]
  by (simp add: op2_count_def count_of_def Let_def)

lemma count_is_running_count_witness:
  "op2_count [''0''] [''a,1'', ''b,2'', ''a,3''] ! 2 = count_line ''a'' 2"
proof -
  have "0 \<le> atoi_value ''0''" by code_simp
  note all = count_is_running_count [OF this, of "[]" "[''a,1'', ''b,2'', ''a,3'']"]
  have "op2_count [''0''] [''a,1'', ''b,2'', ''a,3''] ! 2 =
      (let k = key_of (atoi_value ''0'') ''a,3'' in
       count_line k (int (length (filter (\<lambda>l. key_of (atoi_value ''0'') l = k) [''a,1'', ''b,2'', ''a,3'']))))"
    using all [THEN conjunct2, THEN spec, of 2] by simp
  moreover have "key_of (atoi_value ''0'') ''a,3'' = ''a''" "key_of (atoi_value ''0'') ''a,1'' = ''a''"
    "key_of (atoi_value ''0'') ''b,2'' = ''b''" by code_simp+
  ultimately show ?thesis by simp
qed

text \<open>
  Splitting the input by the key of each line over several instances does not change what is
  printed for any line.
\<close>

lemma op2_split:
  assumes "0 \<le> colIdx" and "\<forall>k. P k \<longrightarrow> count_of c' k = count_of c k"
  shows "run_op (op2_step colIdx) c' (filter (\<lambda>l. P (key_of colIdx l)) ls) =
    map snd (filter (\<lambda>(l, out). P (key_of colIdx l)) (zip ls (run_op (op2_step colIdx) c ls)))"
  using assms(2)
proof (induction ls arbitrary: c c')
  case (Cons l ls)
  let ?k = "key_of colIdx l" and ?n = "count_of c (key_of colIdx l) + 1"
  show ?case
  proof (cases "P ?k")
    case True
    then have "count_of c' ?k = count_of c ?k" using Cons.prems by blast
    moreover have "\<forall>k. P k \<longrightarrow> count_of (AList.update ?k ?n c') k = count_of (AList.update ?k ?n c) k"
      using Cons.prems by simp
    ultimately show ?thesis using True Cons.IH assms(1) by (simp add: op2_step_key Let_def)
  next
    case False
    then have "\<forall>k. P k \<longrightarrow> count_of c' k = count_of (AList.update ?k ?n c) k"
      using Cons.prems by auto
    with False show ?thesis using Cons.IH assms(1) by (simp add: op2_step_key Let_def)
  qed
qed simp

text \<open>
  C38. Counting can be partitioned by key. Give every line to the instance that a routing
  function selects for its key: what the instance prints is exactly what one instance that sees
  all lines would print for those lines, so the number of tasks of the stage does not change the counts.
\<close>

theorem count_partitioned:
  assumes "0 \<le> atoi_value col"
  shows "op2_count (col # rest) (filter (\<lambda>l. route (key_of (atoi_value col) l) = i) ls) =
    map snd (filter (\<lambda>(l, out). route (key_of (atoi_value col) l) = i) (zip ls (op2_count (col # rest) ls)))"
  using op2_split [OF assms, of "\<lambda>k. route k = i" "[]" "[]" ls] by (simp add: op2_count_def)

theorem count_partitioned_witness:
  "op2_count [''0''] (filter (\<lambda>l. length (key_of (atoi_value ''0'') l) = 1) [''a,1'', ''bb,2'', ''a,3'']) =
    map snd (filter (\<lambda>(l, out). length (key_of (atoi_value ''0'') l) = 1)
      (zip [''a,1'', ''bb,2'', ''a,3''] (op2_count [''0''] [''a,1'', ''bb,2'', ''a,3''])))"
proof -
  have "0 \<le> atoi_value ''0''" by code_simp
  then show ?thesis by (rule count_partitioned)
qed

text \<open>
  The transforming operator keeps the first three fields: a line written by the CSV
  writer from at least three fields becomes the line of its first three fields, quoting included, and
  the reader gets those three fields back from it; fields may hold commas, quotes and spaces.
\<close>

lemma transform_keeps_three:
  assumes "3 \<le> length fs"
  shows "op3_transform [csv_line fs] = [csv_line (take 3 fs)] \<and> csv_read (csv_line (take 3 fs)) = Some (take 3 fs)"
proof -
  have "fs \<noteq> []" "fs \<noteq> [[]]" "take 3 fs \<noteq> []" "take 3 fs \<noteq> [[]]"
    using assms by (auto simp: take_eq_Nil dest!: arg_cong [where f = length])
  then show ?thesis
    using assms csv_read_line [of fs] csv_read_line [of "take 3 fs"] by (simp add: op_concat(3) op3_out_def)
qed

lemma transform_keeps_three_witness:
  "op3_transform [csv_line [''a'', ''b,c'', [DQ], ''d'']] = [csv_line [''a'', ''b,c'', [DQ]]]"
  using transform_keeps_three [of "[''a'', ''b,c'', [DQ], ''d'']"] by simp

end
