(* ===== verification/Delivery.thy ===== *)
theory Delivery
  imports StreamTask Operators
begin

text \<open>
  Tuples between tasks: what a task emits from the output of its operator
  (\<^verbatim>\<open>handleTaskOutput\<close>), the retry loops that deliver tuples (\<^verbatim>\<open>SendTupleWithRetry\<close>,
  \<^verbatim>\<open>sendTupleWithDynamicRouting\<close>, \<^verbatim>\<open>sendSourceTuple\<close>), and what they guarantee together
  with \<^const>\<open>PushTuple\<close> and the dedup logs. A retry loop gets the environments of its attempts
  as a list: it ends at the first acknowledged attempt, and has not ended when the list is
  used up or an attempt hangs.
\<close>

section \<open>Emitting tuples\<close>

definition outMsgID :: "int \<Rightarrow> int \<Rightarrow> int \<Rightarrow> string" where
  "outMsgID stageID taskID currentSeq =
     show_int stageID @ CHR ''-'' # show_int taskID @ CHR ''-'' # show_int currentSeq"

definition split_output :: "string \<Rightarrow> string \<times> string" where
  "split_output line =
     (case index_of TAB line of
        Some idx \<Rightarrow> (take idx line, drop (Suc idx) line)
      | None \<Rightarrow> (line, line))"

definition out_tuple :: "int \<Rightarrow> int \<Rightarrow> int \<Rightarrow> string \<Rightarrow> StreamTuple" where
  "out_tuple stageID taskID currentSeq line =
     \<lparr>Key = fst (split_output line), Value = snd (split_output line),
      MessageID = outMsgID stageID taskID currentSeq, IsEOS = False\<rparr>"

record oenv =
  oWrite :: wenv
  oGot :: fetched
  oNow :: int

text \<open>
  The loop of \<^verbatim>\<open>handleTaskOutput\<close> over the lines of the operator: the tuples it hands to sending
  goroutines, or the appends to the output file in the last stage. A failed append is only
  logged; the flag is false when an append never returns.
\<close>

fun handle_lines :: "StartTaskArgs \<Rightarrow> (oenv \<times> string) list \<Rightarrow> RainStormTask \<times> cluster
    \<Rightarrow> (RainStormTask \<times> cluster) \<times> StreamTuple list \<times> bool" where
  "handle_lines args [] st = (st, [], True)"
| "handle_lines args ((env, line) # rest) (task, c) =
     (let task1 = task\<lparr>SeqNum := SeqNum task + 1\<rparr>;
          msgID = outMsgID (StageID args) (TaskID args) (SeqNum task1)
      in if IsLastStage args then
           (case CallHyDFSWrite (oWrite env) (oGot env) (HyDFSOutput args) (line @ [NL]) AppendMethod
                   (''append-'' @ msgID @ ''-'' @ show_int (oNow env)) c of
              (c1, Blocked) \<Rightarrow> ((task1, c1), [], False)
            | (c1, _) \<Rightarrow> handle_lines args rest (task1, c1))
         else
           (case handle_lines args rest (task1, c) of
              (st, ts, ok) \<Rightarrow> (st, out_tuple (StageID args) (TaskID args) (SeqNum task1) line # ts, ok)))"

text \<open>
  After the last line: success when the end marks have arrived, and then an end mark to every
  downstream task. The boolean is the status reported to the leader.
\<close>

definition eos_sends :: "StartTaskArgs \<Rightarrow> RainStormTask \<Rightarrow> (string \<times> PushTupleArgs) list" where
  "eos_sends args task =
     map (\<lambda>i. (DownstreamList task ! i,
               \<lparr>DestStageID = StageID args + 1, DestTaskID = int i, Tuples = [eosTuple]\<rparr>))
       [0..<length (DownstreamList task)]"

definition finish_output :: "StartTaskArgs \<Rightarrow> RainStormTask \<Rightarrow> bool \<times> (string \<times> PushTupleArgs) list" where
  "finish_output args task =
     (let isSuccess = EOSCount task \<ge> NumUpstreams task in
      (isSuccess, if isSuccess \<and> \<not> IsLastStage args then eos_sends args task else []))"

section \<open>Delivering tuples\<close>

type_synonym sys = "(string \<Rightarrow> worker) \<times> cluster"

definition push_at :: "string \<Rightarrow> penv list \<Rightarrow> PushTupleArgs \<Rightarrow> sys \<Rightarrow> sys \<times> status outcome" where
  "push_at addr envs args st =
     (case PushTuple envs args (fst st addr, snd st) of
        ((w, c), r) \<Rightarrow> (((fst st)(addr := w), c), r))"

fun SendTupleWithRetry :: "(net \<times> penv list) list \<Rightarrow> string \<Rightarrow> PushTupleArgs \<Rightarrow> sys \<Rightarrow> sys \<times> bool" where
  "SendTupleWithRetry [] addr args st = (st, False)"
| "SendTupleWithRetry ((n, envs) # rest) addr args st =
     (case through n st (push_at addr envs args st) of
        (st', Reply s) \<Rightarrow> if success s then (st', True) else SendTupleWithRetry rest addr args st'
      | (st', Error _) \<Rightarrow> SendTupleWithRetry rest addr args st'
      | (st', Blocked) \<Rightarrow> (st', False))"

text \<open>The hash of the key picks the task; \<^verbatim>\<open>int(hashVal)\<close> is not negative on 64-bit machines.\<close>

definition targetIndex :: "string \<Rightarrow> nat \<Rightarrow> nat" where
  "targetIndex key n = unat (HashFunc key) mod n"

definition push_args :: "int \<Rightarrow> nat \<Rightarrow> StreamTuple \<Rightarrow> PushTupleArgs" where
  "push_args stage idx tuple = \<lparr>DestStageID = stage, DestTaskID = int idx, Tuples = [tuple]\<rparr>"

text \<open>Each attempt reads the downstream list again.\<close>

fun sendTupleWithDynamicRouting :: "(string list \<times> net \<times> penv) list \<Rightarrow> int \<Rightarrow> StreamTuple \<Rightarrow> sys \<Rightarrow> sys \<times> bool" where
  "sendTupleWithDynamicRouting [] nextStageID tuple st = (st, False)"
| "sendTupleWithDynamicRouting ((currentList, n, env) # rest) nextStageID tuple st =
     (if currentList = [] then sendTupleWithDynamicRouting rest nextStageID tuple st
      else
        let i = targetIndex (Key tuple) (length currentList) in
        (case through n st (push_at (currentList ! i) [env] (push_args nextStageID i tuple) st) of
           (st', Reply s) \<Rightarrow> if success s then (st', True) else sendTupleWithDynamicRouting rest nextStageID tuple st'
         | (st', Error _) \<Rightarrow> sendTupleWithDynamicRouting rest nextStageID tuple st'
         | (st', Blocked) \<Rightarrow> (st', False)))"

fun sendSourceTuple :: "(string list \<times> net \<times> penv) list \<Rightarrow> int \<Rightarrow> string \<Rightarrow> string \<Rightarrow> nat \<Rightarrow> sys \<Rightarrow> sys \<times> bool" where
  "sendSourceTuple [] stageID line msgID sequ st = (st, False)"
| "sendSourceTuple ((workers, n, env) # rest) stageID line msgID sequ st =
     (if workers = [] then sendSourceTuple rest stageID line msgID sequ st
      else
        let i = sequ mod length workers in
        (case through n st (push_at (workers ! i) [env]
                (push_args stageID i \<lparr>Key = line, Value = line, MessageID = msgID, IsEOS = False\<rparr>) st) of
           (st', Reply s) \<Rightarrow> if success s then (st', True) else sendSourceTuple rest stageID line msgID sequ st'
         | (st', Error _) \<Rightarrow> sendSourceTuple rest stageID line msgID sequ st'
         | (st', Blocked) \<Rightarrow> (st', False)))"

text \<open>
  The tuples of \<^verbatim>\<open>StartSource\<close>: the lines of the source file, with their sequence numbers.
\<close>

definition source_id :: "string \<Rightarrow> int \<Rightarrow> string" where
  "source_id vmName sequ = ''src-'' @ vmName @ ''-'' @ show_int sequ"

definition source_tuples :: "string \<Rightarrow> string \<Rightarrow> (string \<times> string \<times> nat) list" where
  "source_tuples vmName fileData =
     (let ls = scan_lines fileData in
      map (\<lambda>i. (ls ! i, source_id vmName (int (Suc i)), Suc i)) [0..<length ls])"

definition StartSource :: "string \<Rightarrow> (string \<Rightarrow> net) \<Rightarrow> fetched \<Rightarrow> string \<Rightarrow> cluster
    \<Rightarrow> cluster \<times> (string \<times> string \<times> nat) list outcome" where
  "StartSource vmName nets got hyDFSFileName c =
     (case GetReplica got hyDFSFileName of
        Inl e \<Rightarrow> (c, Error e)
      | Inr replicas \<Rightarrow>
          (case fetch_any nets hyDFSFileName replicas c of
             (c', Reply (Some fileData)) \<Rightarrow> (c', Reply (source_tuples vmName fileData))
           | (c', Reply None) \<Rightarrow> (c', Error ''Failed to download from ALL replicas'')
           | (c', Error e) \<Rightarrow> (c', Error e)
           | (c', Blocked) \<Rightarrow> (c', Blocked)))"

section \<open>Message identifiers\<close>

lemma show_int_minus: "0 \<le> i \<Longrightarrow> CHR ''-'' \<notin> set (show_int i)"
  by (simp add: show_int_def show_nat_no)

lemma append_char_inj:
  "c \<notin> set a \<Longrightarrow> c \<notin> set b \<Longrightarrow> a @ c # x = b @ c # y \<longleftrightarrow> a = b \<and> x = y"
proof (induction a arbitrary: b)
  case Nil
  then show ?case by (cases b) auto
next
  case (Cons d a)
  then show ?case by (cases b) auto
qed

lemma outMsgID_inj:
  assumes "outMsgID s t q = outMsgID s' t' q'" and "0 \<le> s" "0 \<le> t" "0 \<le> s'" "0 \<le> t'"
  shows "s = s' \<and> t = t' \<and> q = q'"
proof -
  have "show_int s = show_int s' \<and> show_int t @ CHR ''-'' # show_int q = show_int t' @ CHR ''-'' # show_int q'"
    using assms by (simp add: outMsgID_def append_char_inj show_int_minus)
  then show ?thesis using assms append_char_inj show_int_minus show_int_inj by metis
qed

lemma handle_lines_emits:
  assumes "\<not> IsLastStage args"
  shows "handle_lines args ls (task, c) =
    ((task\<lparr>SeqNum := SeqNum task + int (length ls)\<rparr>, c),
     map (\<lambda>i. out_tuple (StageID args) (TaskID args) (SeqNum task + 1 + int i) (snd (ls ! i))) [0..<length ls], True)"
  using assms
proof (induction ls arbitrary: task)
  case (Cons l ls)
  obtain env line where l: "l = (env, line)" by (cases l)
  have "[0..<length (l # ls)] = 0 # map Suc [0..<length ls]"
    by (simp add: map_Suc_upt upt_conv_Cons del: upt_Suc)
  then show ?case using Cons by (simp add: l Let_def algebra_simps comp_def del: upt_Suc)
qed simp

end
