(* ===== verification/Leader.thy ===== *)
theory Leader
  imports Delivery
begin

text \<open>
  The leader of a RainStorm job (\<^verbatim>\<open>node/node_stream.go\<close>): its task map, the deployment plan, the
  start of all tasks, completion and restart. RPC handlers of workers run on the state of
  module \<open>Delivery\<close>; the parallel calls of one phase are run one after the other.
\<close>

record LeaderStartArgs =
  jobID :: string
  NumStages :: nat
  NumTasks :: nat
  OpExes :: "string list"
  OpArgss :: "string list"
  SrcFile :: string
  DestFile :: string
  jobExactlyOnce :: bool
  Autoscale :: bool
  InputRate :: int
  LW :: int
  HW :: int

record TaskInfo =
  infoStage :: int
  infoTask :: int
  VMAddr :: string
  VMName :: string
  infoPID :: int
  infoExe :: string
  infoLog :: string
  OriginalArgs :: StartTaskArgs
  DedupFile :: string

record leader =
  GlobalTaskMap :: "(int \<times> (int \<times> TaskInfo) list) list"
  TaskRates :: "(int \<times> (int \<times> int) list) list"
  TotalTasks :: int
  FinishedTasks :: int
  AutoLW :: int
  AutoHW :: int
  ScaleCooldown :: int

definition stage_tasks :: "leader \<Rightarrow> int \<Rightarrow> (int \<times> TaskInfo) list" where
  "stage_tasks ld stage = (case map_of (GlobalTaskMap ld) stage of Some ts \<Rightarrow> ts | None \<Rightarrow> [])"

definition info_at :: "leader \<Rightarrow> int \<Rightarrow> int \<Rightarrow> TaskInfo option" where
  "info_at ld stage task = map_of (stage_tasks ld stage) task"

definition put_info :: "int \<Rightarrow> int \<Rightarrow> TaskInfo \<Rightarrow> leader \<Rightarrow> leader" where
  "put_info stage task info ld =
     ld\<lparr>GlobalTaskMap := AList.update stage (AList.update task info (stage_tasks ld stage)) (GlobalTaskMap ld)\<rparr>"

section \<open>Planning\<close>

text \<open>\<^verbatim>\<open>resetLeaderState\<close>; the flag says whether the leader log could be opened.\<close>

definition resetLeaderState :: "bool \<Rightarrow> leader \<Rightarrow> leader option" where
  "resetLeaderState logOk ld = (if logOk then Some (ld\<lparr>GlobalTaskMap := [], TaskRates := []\<rparr>) else None)"

text \<open>\<^const>\<open>None\<close> is the error for no worker.\<close>

definition getAliveWorkers :: "member list \<Rightarrow> string list option" where
  "getAliveWorkers ms =
     (let selfIP = (case VMNameToIP ''VM1'' of Some ip \<Rightarrow> ip | None \<Rightarrow> []);
          rpc = (\<lambda>m. case Gossip2RPCAddr (Address m) of Some a \<Rightarrow> a | None \<Rightarrow> []);
          aliveNodes = sort (filter (\<lambda>a. hd (split_on CHR '':'' a) \<noteq> selfIP)
            (map rpc (filter (\<lambda>m. State m = Alive) ms)))
      in if aliveNodes = [] then None else Some aliveNodes)"

text \<open>
  The two loops of \<^verbatim>\<open>calculateDeploymentPlan\<close> share the counter \<^verbatim>\<open>globalTaskIdx\<close>.
\<close>

fun plan_tasks :: "string list \<Rightarrow> nat \<Rightarrow> nat \<Rightarrow> nat \<times> string list" where
  "plan_tasks aliveNodes globalTaskIdx 0 = (globalTaskIdx, [])"
| "plan_tasks aliveNodes globalTaskIdx (Suc left) =
     (case plan_tasks aliveNodes (Suc globalTaskIdx) left of
        (idx, addrs) \<Rightarrow> (idx, aliveNodes ! (globalTaskIdx mod length aliveNodes) # addrs))"

fun plan_stages :: "string list \<Rightarrow> nat \<Rightarrow> nat \<Rightarrow> nat list \<Rightarrow> (nat \<times> string list) list" where
  "plan_stages aliveNodes numTasks globalTaskIdx [] = []"
| "plan_stages aliveNodes numTasks globalTaskIdx (stageID # rest) =
     (case plan_tasks aliveNodes globalTaskIdx numTasks of
        (idx, addrs) \<Rightarrow> (stageID, addrs) # plan_stages aliveNodes numTasks idx rest)"

definition calculateDeploymentPlan :: "nat \<Rightarrow> nat \<Rightarrow> string list \<Rightarrow> (nat \<times> string list) list" where
  "calculateDeploymentPlan numStages numTasks aliveNodes =
     plan_stages aliveNodes numTasks 0 [1..<Suc numStages]"

definition planned :: "(nat \<times> string list) list \<Rightarrow> nat \<Rightarrow> string list" where
  "planned plan stageID = (case map_of plan stageID of Some l \<Rightarrow> l | None \<Rightarrow> [])"

section \<open>Files of the job\<close>

text \<open>\<^verbatim>\<open>createHyDFSFile\<close> returns no error in any case; \<^const>\<open>Blocked\<close> when the call never returns.\<close>

definition createHyDFSFile :: "wenv \<Rightarrow> fetched \<Rightarrow> int \<Rightarrow> string \<Rightarrow> cluster \<Rightarrow> cluster \<times> unit outcome" where
  "createHyDFSFile env got now fileName c =
     (case CallHyDFSWrite env got fileName [] CreateMethod
             (''init-'' @ fileName @ ''-'' @ show_int now) c of
        (c', Blocked) \<Rightarrow> (c', Blocked)
      | (c', _) \<Rightarrow> (c', Reply ()))"

definition dedup_name :: "string \<Rightarrow> nat \<Rightarrow> int \<Rightarrow> int \<Rightarrow> string" where
  "dedup_name rsid stageID taskID timestamp =
     ''dedup_'' @ rsid @ ''_stage'' @ show_int (int stageID) @ ''_task'' @ show_int taskID @ ''_'' @ show_int timestamp"

section \<open>Starting all tasks\<close>

definition call_start :: "net \<Rightarrow> senv \<Rightarrow> string \<Rightarrow> StartTaskArgs \<Rightarrow> sys
    \<Rightarrow> sys \<times> (StartTaskReply \<times> string option) outcome" where
  "call_start n env addr args st =
     through n st
       (case StartTask env args (fst st addr, snd st) of
          ((w, c), r) \<Rightarrow> (((fst st)(addr := w), c), r))"

definition task_args :: "LeaderStartArgs \<Rightarrow> (nat \<times> string list) list \<Rightarrow> (nat \<Rightarrow> nat \<Rightarrow> string) \<Rightarrow> nat \<Rightarrow> nat
    \<Rightarrow> StartTaskArgs" where
  "task_args args plan dedup stageID taskID =
     \<lparr>RSID = jobID args, StageID = int stageID, TaskID = int taskID,
      OpExe = OpExes args ! (stageID - 1), OpArgs = OpArgss args ! (stageID - 1),
      IsLastStage = (stageID = NumStages args), HyDFSOutput = DestFile args,
      DownstreamTasks = (if stageID < NumStages args then planned plan (stageID + 1) else []),
      ExactlyOnce = jobExactlyOnce args,
      NumUpstream = (if stageID = 1 then 1 else int (NumTasks args)),
      HyDFSDedupLog = dedup stageID taskID\<rparr>"

definition vm_name :: "string \<Rightarrow> string" where
  "vm_name addr = (case GetVMName addr of Some name \<Rightarrow> name | None \<Rightarrow> ''Unknown'')"

definition new_info :: "string \<Rightarrow> StartTaskArgs \<Rightarrow> StartTaskReply \<Rightarrow> TaskInfo" where
  "new_info addr tArgs tReply =
     \<lparr>infoStage = StageID tArgs, infoTask = TaskID tArgs, VMAddr = addr, VMName = vm_name addr,
      infoPID = PID tReply, infoExe = OpExe tArgs, infoLog = LogFileName tReply,
      OriginalArgs = tArgs, DedupFile = HyDFSDedupLog tArgs\<rparr>"

definition start_step :: "LeaderStartArgs \<Rightarrow> (nat \<times> string list) list \<Rightarrow> (nat \<Rightarrow> nat \<Rightarrow> string)
    \<Rightarrow> (nat \<Rightarrow> nat \<Rightarrow> net \<times> senv) \<Rightarrow> (leader \<times> sys \<times> nat \<times> bool) \<Rightarrow> nat \<times> nat
    \<Rightarrow> leader \<times> sys \<times> nat \<times> bool" where
  "start_step args plan dedup envs acc st =
     (case acc of (ld, sy, successCount, hangs) \<Rightarrow> case st of (stageID, taskID) \<Rightarrow>
        let addr = planned plan stageID ! taskID; tArgs = task_args args plan dedup stageID taskID in
        (case call_start (fst (envs stageID taskID)) (snd (envs stageID taskID)) addr tArgs sy of
           (sy', Reply (tReply, _)) \<Rightarrow>
             if success (startStatus tReply)
             then (put_info (int stageID) (int taskID) (new_info addr tArgs tReply) ld, sy', Suc successCount, hangs)
             else (ld, sy', successCount, hangs)
         | (sy', Error _) \<Rightarrow> (ld, sy', successCount, hangs)
         | (sy', Blocked) \<Rightarrow> (ld, sy', successCount, True)))"

definition all_slots :: "LeaderStartArgs \<Rightarrow> (nat \<times> nat) list" where
  "all_slots args = List.product [1..<Suc (NumStages args)] [0..<NumTasks args]"

definition startAllTasks :: "LeaderStartArgs \<Rightarrow> (nat \<times> string list) list \<Rightarrow> (nat \<Rightarrow> nat \<Rightarrow> string)
    \<Rightarrow> (nat \<Rightarrow> nat \<Rightarrow> net \<times> senv) \<Rightarrow> leader \<times> sys \<Rightarrow> (leader \<times> sys) \<times> unit outcome" where
  "startAllTasks args plan dedup envs st =
     (if NumTasks args > 0 \<and> (length (OpExes args) < NumStages args \<or> length (OpArgss args) < NumStages args)
      then (st, Error ''panic: index out of range'')
      else (case foldl (start_step args plan dedup envs) (fst st, snd st, 0, False) (all_slots args) of
        (ld, sy, successCount, hangs) \<Rightarrow>
          ((ld, sy),
           if hangs then Blocked
           else if successCount < NumStages args * NumTasks args then Error ''Some tasks failed to start''
           else Reply ())))"

section \<open>Submitting a job\<close>

record jenv =
  jLog :: bool
  jGot :: fetched
  jWrite :: "string \<Rightarrow> wenv"
  jNow :: "nat \<Rightarrow> nat \<Rightarrow> int"
  jStart :: "nat \<Rightarrow> nat \<Rightarrow> net \<times> senv"

definition create_logs :: "jenv \<Rightarrow> LeaderStartArgs \<Rightarrow> cluster \<Rightarrow> cluster \<times> bool" where
  "create_logs env args c =
     foldl (\<lambda>(c, hangs) (stageID, taskID).
        let name = dedup_name (jobID args) stageID (int taskID) (jNow env stageID taskID) in
        (case createHyDFSFile (jWrite env name) (jGot env) (jNow env stageID taskID) name c of
           (c', r) \<Rightarrow> (c', hangs \<or> r = Blocked)))
      (c, False) (all_slots args)"

text \<open>
  \<^verbatim>\<open>StartRainStorm\<close> up to the point where it starts the source and, when asked, the autoscaler in
  goroutines of their own.
\<close>

definition StartRainStorm :: "jenv \<Rightarrow> member list \<Rightarrow> LeaderStartArgs \<Rightarrow> leader \<times> sys
    \<Rightarrow> (leader \<times> sys) \<times> status outcome" where
  "StartRainStorm env ms args st =
     (case resetLeaderState (jLog env) (fst st) of
        None \<Rightarrow> (st, Reply (failReply ''Failed to create leader log''))
      | Some ld \<Rightarrow>
          (case getAliveWorkers ms of
             None \<Rightarrow> ((ld, snd st), Reply (failReply ''No alive workers found''))
           | Some aliveNodes \<Rightarrow>
               let plan = calculateDeploymentPlan (NumStages args) (NumTasks args) aliveNodes;
                   ld = ld\<lparr>TotalTasks := int (NumStages args * NumTasks args), FinishedTasks := 0\<rparr>;
                   dedup = (\<lambda>s t. dedup_name (jobID args) s (int t) (jNow env s t));
                   (ws, c) = snd st;
                   (c1, hangs) = create_logs env args c
               in if hangs then ((ld, (ws, c1)), Blocked)
                  else (case createHyDFSFile (jWrite env (DestFile args)) (jGot env) (jNow env 0 0) (DestFile args) c1 of
                    (c2, Reply ()) \<Rightarrow>
                      (case startAllTasks args plan dedup (jStart env) (ld, (ws, c2)) of
                         ((ld', sy), Reply ()) \<Rightarrow>
                           ((if Autoscale args then ld'\<lparr>AutoLW := LW args, AutoHW := HW args\<rparr> else ld', sy),
                            Reply okReply)
                       | (st', Error e) \<Rightarrow> (st', Reply (failReply e))
                       | (st', Blocked) \<Rightarrow> (st', Blocked))
                  | (c2, _) \<Rightarrow> ((ld, (ws, c2)), Blocked))))"

section \<open>Completion and restart\<close>

text \<open>
  \<^verbatim>\<open>TaskFinished\<close>: a success counts, and the job is complete when the count reaches the total
  (first flag of the result). A failure of a task that is still in the map starts a restart
  goroutine with that entry.
\<close>

definition TaskFinished :: "int \<Rightarrow> int \<Rightarrow> string \<Rightarrow> leader \<Rightarrow> leader \<times> bool \<times> TaskInfo option" where
  "TaskFinished stageID taskID stat ld =
     (if stat = ''Success'' then
        let ld' = ld\<lparr>FinishedTasks := FinishedTasks ld + 1\<rparr> in
        (ld', FinishedTasks ld' \<ge> TotalTasks ld', None)
      else (ld, False, info_at ld stageID taskID))"

definition restart_task :: "net \<Rightarrow> senv \<Rightarrow> int \<Rightarrow> int \<Rightarrow> TaskInfo \<Rightarrow> leader \<times> sys \<Rightarrow> leader \<times> sys" where
  "restart_task n env stageID taskID info st =
     (case call_start n env (VMAddr info) (OriginalArgs info) (snd st) of
        (sy, Reply (r, _)) \<Rightarrow>
          if success (startStatus r) then
            ((case info_at (fst st) stageID taskID of
                Some entry \<Rightarrow> put_info stageID taskID (entry\<lparr>infoPID := PID r, infoLog := LogFileName r\<rparr>) (fst st)
              | None \<Rightarrow> fst st), sy)
          else (fst st, sy)
      | (sy, _) \<Rightarrow> (fst st, sy))"

section \<open>Listing\<close>

definition pad_left :: "nat \<Rightarrow> string \<Rightarrow> string" where
  "pad_left n s = replicate (n - length s) CHR '' '' @ s"

definition pad_right :: "nat \<Rightarrow> string \<Rightarrow> string" where
  "pad_right n s = s @ replicate (n - length s) CHR '' ''"

definition list_row :: "TaskInfo \<Rightarrow> string" where
  "list_row info =
     (let displayVM = (case GetVMName (VMAddr info) of
            Some vmName \<Rightarrow> vmName @ ''('' @ VMAddr info @ '')'' | None \<Rightarrow> VMAddr info)
      in pad_left 5 (show_int (infoStage info)) @ '' | '' @ pad_left 4 (show_int (infoTask info)) @ '' | ''
         @ pad_right 25 displayVM @ '' | '' @ pad_left 7 (show_int (infoPID info)) @ '' | ''
         @ pad_right 15 (infoExe info) @ '' | '' @ infoLog info @ [NL])"

definition ListTasks :: "leader \<Rightarrow> string" where
  "ListTasks ld =
     pad_right 5 ''Stage'' @ '' | '' @ pad_right 4 ''Task'' @ '' | '' @ pad_right 25 ''VM Address'' @ '' | ''
     @ pad_right 7 ''PID'' @ '' | '' @ pad_right 15 ''Op Exe'' @ '' | '' @ ''Log File'' @ [NL]
     @ replicate 100 CHR ''-'' @ [NL]
     @ concat (map (\<lambda>(sID, ts). concat (map (\<lambda>(tID, info). list_row info) (sort_key fst ts)))
         (sort_key fst (GlobalTaskMap ld)))"


section \<open>The plan in closed form\<close>

lemma plan_tasks_closed:
  "plan_tasks aliveNodes g n = (g + n, map (\<lambda>t. aliveNodes ! ((g + t) mod length aliveNodes)) [0..<n])"
proof (induction n arbitrary: g)
  case (Suc n)
  have "[0..<Suc n] = 0 # map Suc [0..<n]" by (simp add: map_Suc_upt upt_conv_Cons del: upt_Suc)
  then show ?case using Suc by (simp add: comp_def del: upt_Suc)
qed simp

lemma plan_stages_closed:
  "map_of (plan_stages aliveNodes numTasks g [a..<b]) s =
     (if a \<le> s \<and> s < b
      then Some (map (\<lambda>t. aliveNodes ! ((g + (s - a) * numTasks + t) mod length aliveNodes)) [0..<numTasks])
      else None)"
proof (induction "b - a" arbitrary: a g)
  case (Suc d)
  then have "a < b" by simp
  then have cons: "[a..<b] = a # [Suc a..<b]" by (rule upt_conv_Cons)
  have IH: "map_of (plan_stages aliveNodes numTasks (g + numTasks) [Suc a..<b]) s =
     (if Suc a \<le> s \<and> s < b
      then Some (map (\<lambda>t. aliveNodes ! ((g + numTasks + (s - Suc a) * numTasks + t) mod length aliveNodes)) [0..<numTasks])
      else None)"
    using Suc.hyps(1) [of "Suc a" "g + numTasks"] Suc.hyps(2) by simp
  show ?case
  proof (cases "s = a")
    case True
    then show ?thesis using \<open>a < b\<close> by (simp add: cons plan_tasks_closed)
  next
    case False
    have eq: "(s - a) * numTasks = numTasks + (s - Suc a) * numTasks" if "Suc a \<le> s"
    proof -
      have "s - a = Suc (s - Suc a)" using that by simp
      then show ?thesis by simp
    qed
    then show ?thesis using IH False by (auto simp: cons plan_tasks_closed eq add.assoc)
  qed
qed simp

lemma planned_closed:
  assumes "1 \<le> s" and "s \<le> numStages" and "t < numTasks"
  shows "planned (calculateDeploymentPlan numStages numTasks aliveNodes) s ! t
       = aliveNodes ! (((s - 1) * numTasks + t) mod length aliveNodes)"
    and "length (planned (calculateDeploymentPlan numStages numTasks aliveNodes) s) = numTasks"
  using assms by (simp_all add: planned_def calculateDeploymentPlan_def plan_stages_closed del: upt_Suc)

text \<open>How many of the first \<open>N\<close> tasks go to worker \<open>k\<close>: the loads differ by at most one.\<close>

lemma round_robin_load:
  assumes "k < n"
  shows "length (filter (\<lambda>i. i mod n = k) [0..<N]) = N div n + (if k < N mod n then 1 else 0)"
proof (induction N)
  case (Suc N)
  have n: "0 < n" using assms by simp
  then have "N mod n < n" by simp
  then show ?case using Suc assms n
    by (auto simp: div_Suc mod_Suc split: if_splits)
qed simp

text \<open>The tasks in the order in which the plan numbers them.\<close>

definition plan_sequence :: "nat \<Rightarrow> nat \<Rightarrow> string list \<Rightarrow> string list" where
  "plan_sequence numStages numTasks aliveNodes =
     concat (map (planned (calculateDeploymentPlan numStages numTasks aliveNodes)) [1..<Suc numStages])"

lemma plan_sequence_closed:
  "plan_sequence numStages numTasks aliveNodes
   = map (\<lambda>i. aliveNodes ! (i mod length aliveNodes)) [0..<numStages * numTasks]"
proof -
  let ?f = "\<lambda>i. aliveNodes ! (i mod length aliveNodes)"
  have "concat (map (planned (calculateDeploymentPlan numStages numTasks aliveNodes)) [1..<Suc k])
      = map ?f [0..<k * numTasks]" if "k \<le> numStages" for k
    using that
  proof (induction k)
    case (Suc k)
    have "planned (calculateDeploymentPlan numStages numTasks aliveNodes) (Suc k)
        = map ?f [k * numTasks..<k * numTasks + numTasks]"
      by (rule nth_equalityI) (use planned_closed [of "Suc k" numStages _ numTasks aliveNodes] Suc.prems
          in \<open>auto simp: planned_def calculateDeploymentPlan_def plan_stages_closed simp del: upt_Suc\<close>)
    moreover have "[0..<Suc k * numTasks] = [0..<k * numTasks] @ [k * numTasks..<k * numTasks + numTasks]"
      using upt_add_eq_append [of 0 "k * numTasks" numTasks] by (simp add: add.commute)
    ultimately show ?case using Suc by simp
  qed simp
  then show ?thesis by (simp add: plan_sequence_def del: upt_Suc)
qed

text \<open>
  The deployment plan is balanced: over all stages, two workers never differ by more than one
  task, and the first workers of the sorted list take the remainder.
\<close>

lemma plan_balanced:
  assumes "distinct aliveNodes" and "k < length aliveNodes"
  shows "count_list (plan_sequence numStages numTasks aliveNodes) (aliveNodes ! k)
       = numStages * numTasks div length aliveNodes
         + (if k < numStages * numTasks mod length aliveNodes then 1 else 0)"
proof -
  let ?n = "length aliveNodes"
  have "0 < ?n" using assms(2) by linarith
  then have same: "aliveNodes ! (i mod ?n) = aliveNodes ! k \<longleftrightarrow> i mod ?n = k" for i
    using assms by (simp add: nth_eq_iff_index_eq)
  have "count_list (map g xs) y = length (filter (\<lambda>x. g x = y) xs)" for g :: "nat \<Rightarrow> string" and xs y
    by (induction xs) auto
  then show ?thesis
    unfolding plan_sequence_closed by (simp add: same round_robin_load [OF assms(2)])
qed

lemma plan_balanced_witness:
  "count_list (plan_sequence 2 2 [''a'', ''b'', ''c'']) ''a'' = 2 \<and>
   count_list (plan_sequence 2 2 [''a'', ''b'', ''c'']) ''b'' = 1"
  using plan_balanced [of "[''a'', ''b'', ''c'']" 0 2 2] plan_balanced [of "[''a'', ''b'', ''c'']" 1 2 2]
  by simp

section \<open>Invariant of the task map\<close>

definition task_ids :: "leader \<Rightarrow> int \<Rightarrow> int set" where
  "task_ids ld stage = fst ` set (stage_tasks ld stage)"

definition map_inv :: "leader \<Rightarrow> bool" where
  "map_inv ld \<longleftrightarrow>
     distinct (map fst (GlobalTaskMap ld)) \<and>
     (\<forall>stage. distinct (map fst (stage_tasks ld stage)) \<and>
        (\<forall>t info. info_at ld stage t = Some info \<longrightarrow> infoStage info = stage \<and> infoTask info = t \<and>
           StageID (OriginalArgs info) = stage \<and> TaskID (OriginalArgs info) = t))"

text \<open>Task identifiers of a stage are consecutive from zero.\<close>

definition contiguous :: "leader \<Rightarrow> int \<Rightarrow> bool" where
  "contiguous ld stage \<longleftrightarrow> task_ids ld stage = {0..<int (length (stage_tasks ld stage))}"

definition map_size :: "leader \<Rightarrow> nat" where
  "map_size ld = sum_list (map (\<lambda>(s, ts). length ts) (GlobalTaskMap ld))"

lemma stage_tasks_put:
  "stage_tasks (put_info s t info ld) s' =
     (if s' = s then AList.update t info (stage_tasks ld s) else stage_tasks ld s')"
  by (simp add: stage_tasks_def put_info_def)

lemma info_at_put:
  "info_at (put_info s t info ld) s' t' = (if s' = s \<and> t' = t then Some info else info_at ld s' t')"
  by (simp add: info_at_def stage_tasks_put)

lemma put_info_frame [simp]:
  "TotalTasks (put_info s t info ld) = TotalTasks ld" "FinishedTasks (put_info s t info ld) = FinishedTasks ld"
  "TaskRates (put_info s t info ld) = TaskRates ld"
  by (simp_all add: put_info_def)

lemma map_inv_put:
  assumes "map_inv ld" and "infoStage info = s" "infoTask info = t"
    "StageID (OriginalArgs info) = s" "TaskID (OriginalArgs info) = t"
  shows "map_inv (put_info s t info ld)"
  unfolding map_inv_def
proof (intro conjI allI impI)
  show "distinct (map fst (GlobalTaskMap (put_info s t info ld)))"
    using assms(1) by (simp add: put_info_def map_inv_def distinct_update_fst)
  show "distinct (map fst (stage_tasks (put_info s t info ld) st))" for st
    using assms(1) by (simp add: stage_tasks_put map_inv_def distinct_update_fst)
qed (use assms in \<open>auto simp: info_at_put map_inv_def split: if_splits\<close>)

lemma sum_update:
  "distinct (map fst al) \<Longrightarrow> sum_list (map (\<lambda>(k, v). f v) (AList.update k v al)) + (case map_of al k of Some w \<Rightarrow> f w | None \<Rightarrow> 0)
     = sum_list (map (\<lambda>(k, v). f v) al) + (f v :: nat)"
proof (induction al)
  case (Cons p al)
  then show ?case by (cases p) (auto simp: map_of_eq_None_iff [THEN iffD2] split: option.splits)
qed simp

lemma map_size_put:
  assumes "map_inv ld"
  shows "map_size (put_info s t info ld) = (if info_at ld s t = None then Suc (map_size ld) else map_size ld)"
proof -
  have d: "distinct (map fst (GlobalTaskMap ld))" using assms by (simp add: map_inv_def)
  have len: "length (AList.update t info (stage_tasks ld s))
      = (if info_at ld s t = None then Suc (length (stage_tasks ld s)) else length (stage_tasks ld s))"
    using length_update_new length_update_old by (auto simp: info_at_def)
  have old: "(case map_of (GlobalTaskMap ld) s of Some w \<Rightarrow> length w | None \<Rightarrow> 0) = length (stage_tasks ld s)"
    by (simp add: stage_tasks_def split: option.split)
  show ?thesis
    using sum_update [OF d, of length s "AList.update t info (stage_tasks ld s)"] len old
    by (cases "info_at ld s t") (simp_all add: map_size_def put_info_def)
qed


lemma info_at_iff: "info_at ld s t \<noteq> None \<longleftrightarrow> t \<in> task_ids ld s"
  by (simp add: info_at_def task_ids_def map_of_eq_None_iff)

lemma contiguousI:
  assumes "map_inv ld" and "\<And>t. info_at ld s t \<noteq> None \<longleftrightarrow> 0 \<le> t \<and> t < int n"
  shows "contiguous ld s" and "length (stage_tasks ld s) = n"
proof -
  have "t \<in> task_ids ld s \<longleftrightarrow> 0 \<le> t \<and> t < int n" for t
    using assms(2) [of t] info_at_iff [of ld s t] by blast
  then have ids: "task_ids ld s = {0..<int n}"
    unfolding set_eq_iff atLeastLessThan_iff by blast
  have "distinct (map fst (stage_tasks ld s))" using assms(1) by (simp add: map_inv_def)
  then have "card (task_ids ld s) = length (stage_tasks ld s)"
    by (metis distinct_card length_map list.set_map task_ids_def)
  then show len: "length (stage_tasks ld s) = n" unfolding ids by simp
  show "contiguous ld s" by (simp add: contiguous_def ids len)
qed

section \<open>A started job\<close>

definition start_inv :: "leader \<Rightarrow> (nat \<times> nat) list \<Rightarrow> leader \<times> sys \<times> nat \<times> bool \<Rightarrow> bool" where
  "start_inv ld0 pre st \<longleftrightarrow>
     (case st of (ld, sy, n, hangs) \<Rightarrow>
        map_inv ld \<and> TotalTasks ld = TotalTasks ld0 \<and> FinishedTasks ld = FinishedTasks ld0 \<and>
        map_size ld = n \<and> n \<le> length pre \<and>
        (\<forall>s t. info_at ld s t \<noteq> None \<longrightarrow> (s, t) \<in> (\<lambda>(a, b). (int a, int b)) ` set pre) \<and>
        (n = length pre \<longrightarrow> (\<forall>(a, b)\<in>set pre. info_at ld (int a) (int b) \<noteq> None)))"

lemma start_inv_step:
  assumes "start_inv ld0 pre acc" and "slot \<notin> set pre"
  shows "start_inv ld0 (pre @ [slot]) (start_step args plan dedup envs acc slot)"
proof -
  obtain ld sy n hangs where acc: "acc = (ld, sy, n, hangs)" by (cases acc) auto
  obtain a b where slot: "slot = (a, b)" by (cases slot)
  let ?tArgs = "task_args args plan dedup a b" and ?addr = "planned plan a ! b"
  note inv = assms(1) [unfolded start_inv_def acc prod.case]
  have new: "info_at ld (int a) (int b) = None"
    using inv assms(2) slot by (force simp: image_iff)
  have keep: "start_inv ld0 (pre @ [slot]) (ld, sy1, n, h)" for sy1 h
    using inv by (auto simp: start_inv_def)
  obtain sy' r where call: "call_start (fst (envs a b)) (snd (envs a b)) ?addr ?tArgs sy = (sy', r)" by fastforce
  show ?thesis
  proof (cases "\<exists>tReply d. r = Reply (tReply, d) \<and> success (startStatus tReply)")
    case True
    then obtain tReply d where r: "r = Reply (tReply, d)" "success (startStatus tReply)" by blast
    let ?ld = "put_info (int a) (int b) (new_info ?addr ?tArgs tReply) ld"
    have "start_step args plan dedup envs acc slot = (?ld, sy', Suc n, hangs)"
      using call r by (simp add: start_step_def acc slot Let_def)
    moreover have "map_inv ?ld"
      by (rule map_inv_put) (use inv in \<open>simp_all add: new_info_def task_args_def\<close>)
    moreover have "map_size ?ld = Suc n" using map_size_put [of ld "int a" "int b"] inv new by simp
    ultimately show ?thesis using inv slot by (auto simp: start_inv_def info_at_put split: if_splits)
  next
    case False
    then have "\<exists>h. start_step args plan dedup envs acc slot = (ld, sy', n, h)"
      using call by (cases r) (auto simp: start_step_def acc slot Let_def)
    then show ?thesis using keep [of sy'] by metis
  qed
qed

lemma start_inv_all:
  assumes "distinct (pre @ slots)" and "start_inv ld0 pre acc"
  shows "start_inv ld0 (pre @ slots) (foldl (start_step args plan dedup envs) acc slots)"
  using assms
proof (induction slots arbitrary: pre acc)
  case (Cons x slots)
  then show ?case
    using Cons.IH [of "pre @ [x]" "start_step args plan dedup envs acc x"] start_inv_step [of ld0 pre acc x] by simp
qed simp

lemma all_slots_simps: "distinct (all_slots args)" "length (all_slots args) = NumStages args * NumTasks args"
  "(a, b) \<in> set (all_slots args) \<longleftrightarrow> 1 \<le> a \<and> a \<le> NumStages args \<and> b < NumTasks args"
  by (auto simp: all_slots_def distinct_product length_product simp del: upt_Suc)

text \<open>
  After \<^verbatim>\<open>startAllTasks\<close> reports success the map holds exactly the tasks of the plan, every stage
  has consecutive identifiers, and the total is the size of the map.
\<close>

lemma startAllTasks_map:
  assumes "startAllTasks args plan dedup envs (ld, sy) = ((ld', sy'), Reply ())"
    and "GlobalTaskMap ld = []" and "TotalTasks ld = int (NumStages args * NumTasks args)"
  shows "map_inv ld'" and "TotalTasks ld' = int (map_size ld')"
    and "1 \<le> s \<Longrightarrow> s \<le> int (NumStages args) \<Longrightarrow> contiguous ld' s"
    and "info_at ld' s t \<noteq> None \<longleftrightarrow>
      1 \<le> s \<and> s \<le> int (NumStages args) \<and> 0 \<le> t \<and> t < int (NumTasks args)"
proof -
  have "start_inv ld [] (ld, sy, 0, False)"
    using assms(2) by (simp add: start_inv_def map_inv_def info_at_def stage_tasks_def map_size_def)
  then have inv: "start_inv ld (all_slots args) (foldl (start_step args plan dedup envs) (ld, sy, 0, False) (all_slots args))"
    using start_inv_all [of "[]" "all_slots args"] all_slots_simps(1) by simp
  obtain n hangs where fold: "foldl (start_step args plan dedup envs) (ld, sy, 0, False) (all_slots args) = (ld', sy', n, hangs)"
    and n: "NumStages args * NumTasks args \<le> n"
    using assms(1) by (auto simp: startAllTasks_def split: prod.splits if_splits)
  note res = inv [unfolded start_inv_def fold prod.case]
  have all: "n = length (all_slots args)" using res n by (simp add: all_slots_simps)
  show "map_inv ld'" "TotalTasks ld' = int (map_size ld')"
    using res all assms(3) by (simp_all add: all_slots_simps)
  have iff: "info_at ld' s t \<noteq> None \<longleftrightarrow>
      1 \<le> s \<and> s \<le> int (NumStages args) \<and> 0 \<le> t \<and> t < int (NumTasks args)" for s t
  proof
    assume "info_at ld' s t \<noteq> None"
    then have "(s, t) \<in> (\<lambda>(a, b). (int a, int b)) ` set (all_slots args)" using res by blast
    then obtain a b where "(a, b) \<in> set (all_slots args)" "s = int a" "t = int b" by auto
    then show "1 \<le> s \<and> s \<le> int (NumStages args) \<and> 0 \<le> t \<and> t < int (NumTasks args)"
      by (simp add: all_slots_simps)
  next
    assume st: "1 \<le> s \<and> s \<le> int (NumStages args) \<and> 0 \<le> t \<and> t < int (NumTasks args)"
    then have "(nat s, nat t) \<in> set (all_slots args)" by (auto simp: all_slots_simps)
    then have "info_at ld' (int (nat s)) (int (nat t)) \<noteq> None" using res all by blast
    then show "info_at ld' s t \<noteq> None" using st by simp
  qed
  show "info_at ld' s t \<noteq> None \<longleftrightarrow>
      1 \<le> s \<and> s \<le> int (NumStages args) \<and> 0 \<le> t \<and> t < int (NumTasks args)" by (rule iff)
  show "contiguous ld' s" if "1 \<le> s" "s \<le> int (NumStages args)"
    by (rule contiguousI(1) [where n = "NumTasks args"]) (use res iff that in auto)
qed

lemma restart_keeps:
  assumes "map_inv ld"
  shows "map_inv (fst (restart_task n env stage task info (ld, sy)))"
    and "map_size (fst (restart_task n env stage task info (ld, sy))) = map_size ld"
    and "task_ids (fst (restart_task n env stage task info (ld, sy))) s = task_ids ld s"
    and "TotalTasks (fst (restart_task n env stage task info (ld, sy))) = TotalTasks ld"
proof -
  let ?ld = "fst (restart_task n env stage task info (ld, sy))"
  have cases: "?ld = ld \<or> (\<exists>entry pid lg. info_at ld stage task = Some entry \<and>
      ?ld = put_info stage task (entry\<lparr>infoPID := pid, infoLog := lg\<rparr>) ld)"
    by (auto simp: restart_task_def split: prod.splits outcome.splits option.splits)
  then have "map_inv ?ld \<and> map_size ?ld = map_size ld \<and> task_ids ?ld s = task_ids ld s \<and> TotalTasks ?ld = TotalTasks ld"
  proof
    assume "\<exists>entry pid lg. info_at ld stage task = Some entry \<and>
      ?ld = put_info stage task (entry\<lparr>infoPID := pid, infoLog := lg\<rparr>) ld"
    then obtain entry pid lg where e: "info_at ld stage task = Some entry"
      and ld: "?ld = put_info stage task (entry\<lparr>infoPID := pid, infoLog := lg\<rparr>) ld" by blast
    have "map_inv ?ld" unfolding ld by (rule map_inv_put) (use assms e in \<open>auto simp: map_inv_def\<close>)
    moreover have "map_size ?ld = map_size ld" unfolding ld map_size_put [OF assms] using e by simp
    moreover have "task_ids ?ld s = task_ids ld s"
      using e unfolding ld by (auto simp: info_at_iff [symmetric] info_at_put set_eq_iff)
    ultimately show ?thesis by (simp add: ld)
  qed (use assms in simp)
  then show "map_inv ?ld" "map_size ?ld = map_size ld" "task_ids ?ld s = task_ids ld s" "TotalTasks ?ld = TotalTasks ld"
    by blast+
qed

end
