(* ===== verification/Autoscaler.thy ===== *)
theory Autoscaler
  imports Leader
begin

text \<open>
  Autoscaling (\<^verbatim>\<open>node/node_autoscale.go\<close>): rate reports, the decision of the monitor, scaling a
  stage up and down, and the broadcasts that tell the neighbour stages. Rates are the integer
  counts the tasks report; the average of a stage is compared by multiplying out.
\<close>

section \<open>Reading the task map\<close>

definition getStageTaskCount :: "leader \<Rightarrow> int \<Rightarrow> nat" where
  "getStageTaskCount ld stage = length (stage_tasks ld stage)"

definition getSortedStageWorkers :: "leader \<Rightarrow> int \<Rightarrow> string list" where
  "getSortedStageWorkers ld stage = map VMAddr (sort_key infoTask (map snd (stage_tasks ld stage)))"

definition vm_load :: "leader \<Rightarrow> string \<Rightarrow> int" where
  "vm_load ld addr =
     sum_list (map (\<lambda>(s, ts). int (length (filter (\<lambda>(t, info). VMAddr info = addr) ts))) (GlobalTaskMap ld))"

fun find_min :: "(string \<Rightarrow> int) \<Rightarrow> int \<Rightarrow> string \<Rightarrow> string list \<Rightarrow> string" where
  "find_min load minLoad bestNode [] = bestNode"
| "find_min load minLoad bestNode (addr # rest) =
     (if load addr < minLoad then find_min load (load addr) addr rest else find_min load minLoad bestNode rest)"

definition getLeastLoadedWorker :: "leader \<Rightarrow> string list \<Rightarrow> string" where
  "getLeastLoadedWorker ld aliveNodes =
     (case aliveNodes of [] \<Rightarrow> [] | a # _ \<Rightarrow> find_min (vm_load ld) 999999 a aliveNodes)"

section \<open>Rates and the decision\<close>

definition stage_rates :: "leader \<Rightarrow> int \<Rightarrow> (int \<times> int) list" where
  "stage_rates ld stage = (case map_of (TaskRates ld) stage of Some rs \<Rightarrow> rs | None \<Rightarrow> [])"

definition UpdateRate :: "int \<Rightarrow> int \<Rightarrow> int \<Rightarrow> leader \<Rightarrow> leader" where
  "UpdateRate stage task tuplesPerSec ld =
     (if info_at ld stage task = None then ld
      else ld\<lparr>TaskRates := AList.update stage (AList.update task tuplesPerSec (stage_rates ld stage)) (TaskRates ld)\<rparr>)"

text \<open>What a task reports every second; the counter starts again from zero.\<close>

definition take_rate :: "RainStormTask \<Rightarrow> RainStormTask \<times> int" where
  "take_rate task = (task\<lparr>Counter := 0\<rparr>, Counter task)"

datatype scale_action = ScaleUp nat | ScaleDown nat

fun scale_decision :: "leader \<Rightarrow> nat list \<Rightarrow> scale_action option" where
  "scale_decision ld [] = None"
| "scale_decision ld (stage # rest) =
     (let rates = map snd (stage_rates ld (int stage)); count = int (length rates); totalRate = sum_list rates in
      if count = 0 then scale_decision ld rest
      else if totalRate > AutoHW ld * count then Some (ScaleUp stage)
      else if totalRate < AutoLW ld * count \<and> getStageTaskCount ld (int stage) > 1 then Some (ScaleDown stage)
      else scale_decision ld rest)"

definition monitor_tick :: "int \<Rightarrow> nat \<Rightarrow> leader \<Rightarrow> scale_action option" where
  "monitor_tick now numStages ld =
     (if now < ScaleCooldown ld then None else scale_decision ld [1..<Suc numStages])"

section \<open>Broadcasts\<close>

definition call_worker :: "net \<Rightarrow> string \<Rightarrow> (worker \<Rightarrow> worker) \<Rightarrow> sys \<Rightarrow> sys" where
  "call_worker n addr f sy =
     (if n = Unreachable then sy else ((fst sy)(addr := f (fst sy addr)), snd sy))"

definition broadcastUpdateDownstream :: "(string \<Rightarrow> net) \<Rightarrow> int \<Rightarrow> leader \<Rightarrow> sys \<Rightarrow> sys" where
  "broadcastUpdateDownstream nets targetStageID ld sy =
     (if targetStageID < 1 then sy
      else let newDownstream = getSortedStageWorkers ld (targetStageID + 1) in
        foldl (\<lambda>sy addr. call_worker (nets addr) addr (UpdateDownstream targetStageID newDownstream) sy) sy
          (map (VMAddr \<circ> snd) (stage_tasks ld targetStageID)))"

definition broadcastUpdateUpstream :: "(string \<Rightarrow> net) \<Rightarrow> int \<Rightarrow> leader \<Rightarrow> sys \<Rightarrow> sys" where
  "broadcastUpdateUpstream nets targetStageID ld sy =
     (if targetStageID < 1 then sy
      else let newNumUpstream = int (getStageTaskCount ld (targetStageID - 1)) in
        foldl (\<lambda>sy addr. call_worker (nets addr) addr (UpdateUpstream targetStageID newNumUpstream) sy) sy
          (map (VMAddr \<circ> snd) (stage_tasks ld targetStageID)))"

section \<open>Scaling\<close>

definition max_task :: "leader \<Rightarrow> int \<Rightarrow> int" where
  "max_task ld stage = foldl max (-1) (map fst (stage_tasks ld stage))"

record aenv =
  aNow :: int
  aGot :: fetched
  aWrite :: wenv
  aStartNet :: net
  aStart :: senv
  aNets :: "string \<Rightarrow> net"

definition scaleUp_args :: "aenv \<Rightarrow> LeaderStartArgs \<Rightarrow> nat \<Rightarrow> leader \<Rightarrow> StartTaskArgs" where
  "scaleUp_args env args stage ld =
     (let newTaskID = max_task ld (int stage) + 1 in
      \<lparr>RSID = jobID args, StageID = int stage, TaskID = newTaskID,
       OpExe = OpExes args ! (stage - 1), OpArgs = OpArgss args ! (stage - 1),
       IsLastStage = (stage = NumStages args), HyDFSOutput = DestFile args,
       DownstreamTasks = (if stage < NumStages args then getSortedStageWorkers ld (int stage + 1) else []),
       ExactlyOnce = jobExactlyOnce args,
       NumUpstream = (if stage = 1 then 1 else int (getStageTaskCount ld (int stage - 1))),
       HyDFSDedupLog = dedup_name (jobID args) stage newTaskID (aNow env)\<rparr>)"

definition scaleUp :: "aenv \<Rightarrow> member list \<Rightarrow> LeaderStartArgs \<Rightarrow> nat \<Rightarrow> leader \<times> sys
    \<Rightarrow> (leader \<times> sys) \<times> unit outcome" where
  "scaleUp env ms args stage st =
     (case st of (ld0, (ws, c)) \<Rightarrow>
        let ld = ld0\<lparr>ScaleCooldown := aNow env + Second\<rparr> in
        (case getAliveWorkers ms of
           None \<Rightarrow> ((ld, (ws, c)), Reply ())
         | Some aliveNodes \<Rightarrow>
             let targetAddr = getLeastLoadedWorker ld aliveNodes; taskArgs = scaleUp_args env args stage ld in
             (case createHyDFSFile (aWrite env) (aGot env) (aNow env) (HyDFSDedupLog taskArgs) c of
                (c1, Blocked) \<Rightarrow> ((ld, (ws, c1)), Blocked)
              | (c1, _) \<Rightarrow>
                  (case call_start (aStartNet env) (aStart env) targetAddr taskArgs (ws, c1) of
                     (sy, Blocked) \<Rightarrow> ((ld, sy), Blocked)
                   | (sy, Error _) \<Rightarrow> ((ld, sy), Reply ())
                   | (sy, Reply (tReply, _)) \<Rightarrow>
                       if success (startStatus tReply) then
                         let ld1 = (put_info (int stage) (TaskID taskArgs) (new_info targetAddr taskArgs tReply) ld)
                                     \<lparr>TotalTasks := TotalTasks ld + 1\<rparr>
                         in ((ld1, broadcastUpdateUpstream (aNets env) (int stage + 1) ld1
                                    (broadcastUpdateDownstream (aNets env) (int stage - 1) ld1 sy)), Reply ())
                       else ((ld, sy), Reply ())))))"

text \<open>
  The calls \<^verbatim>\<open>scaleDown\<close> starts in goroutines: killing the victim, and the adoption of its log by
  task 0.
\<close>

record pending =
  killAddr :: string
  killPID :: int
  survivorAddr :: string
  orphanStage :: int
  orphanLog :: string

definition drop_info :: "int \<Rightarrow> int \<Rightarrow> leader \<Rightarrow> leader" where
  "drop_info stage task ld =
     (case map_of (GlobalTaskMap ld) stage of
        Some ts \<Rightarrow> ld\<lparr>GlobalTaskMap := AList.update stage (AList.delete task ts) (GlobalTaskMap ld)\<rparr>
      | None \<Rightarrow> ld)"

definition drop_rate :: "int \<Rightarrow> int \<Rightarrow> leader \<Rightarrow> leader" where
  "drop_rate stage task ld =
     (case map_of (TaskRates ld) stage of
        Some rs \<Rightarrow> ld\<lparr>TaskRates := AList.update stage (AList.delete task rs) (TaskRates ld)\<rparr>
      | None \<Rightarrow> ld)"

definition scaleDown :: "int \<Rightarrow> (string \<Rightarrow> net) \<Rightarrow> nat \<Rightarrow> leader \<times> sys \<Rightarrow> (leader \<times> sys) \<times> pending option" where
  "scaleDown now nets stage st =
     (case st of (ld0, sy) \<Rightarrow>
        let ld = ld0\<lparr>ScaleCooldown := now + 3 * Second\<rparr>; maxID = max_task ld (int stage) in
        if maxID \<le> 0 then ((ld, sy), None)
        else (case info_at ld (int stage) maxID of
          None \<Rightarrow> ((ld, sy), None)
        | Some victim \<Rightarrow>
            let survivor = (case info_at ld (int stage) 0 of Some info \<Rightarrow> VMAddr info | None \<Rightarrow> []);
                ld1 = drop_rate (int stage) maxID
                        ((drop_info (int stage) maxID ld)\<lparr>TotalTasks := TotalTasks ld - 1\<rparr>)
            in ((ld1, broadcastUpdateUpstream nets (int stage + 1) ld1
                       (broadcastUpdateDownstream nets (int stage - 1) ld1 sy)),
                Some \<lparr>killAddr = VMAddr victim, killPID = infoPID victim, survivorAddr = survivor,
                      orphanStage = int stage, orphanLog = DedupFile victim\<rparr>)))"

text \<open>One of them: the kill, whose reply nobody reads.\<close>

definition run_kill :: "net \<Rightarrow> bool \<Rightarrow> pending \<Rightarrow> sys \<Rightarrow> sys" where
  "run_kill n killed p sy = call_worker n (killAddr p) (\<lambda>w. fst (KillTask killed (killPID p) w)) sy"

section \<open>Choosing a worker\<close>

lemma find_min_least:
  "(bestNode \<in> A \<and> load bestNode = minLoad \<or> (\<exists>a\<in>set addrs. load a < minLoad)) \<Longrightarrow> set addrs \<subseteq> A \<Longrightarrow>
     find_min load minLoad bestNode addrs \<in> A \<and>
     load (find_min load minLoad bestNode addrs) \<le> minLoad \<and>
     (\<forall>a\<in>set addrs. load (find_min load minLoad bestNode addrs) \<le> load a)"
proof (induction addrs arbitrary: minLoad bestNode)
  case (Cons x addrs)
  show ?case
  proof (cases "load x < minLoad")
    case True
    have "find_min load (load x) x addrs \<in> A \<and> load (find_min load (load x) x addrs) \<le> load x \<and>
        (\<forall>a\<in>set addrs. load (find_min load (load x) x addrs) \<le> load a)"
      using Cons.IH [of x "load x"] Cons.prems(2) by simp
    with True show ?thesis by fastforce
  next
    case False
    then have "bestNode \<in> A \<and> load bestNode = minLoad \<or> (\<exists>a\<in>set addrs. load a < minLoad)"
      using Cons.prems(1) by auto
    then have "find_min load minLoad bestNode addrs \<in> A \<and> load (find_min load minLoad bestNode addrs) \<le> minLoad \<and>
        (\<forall>a\<in>set addrs. load (find_min load minLoad bestNode addrs) \<le> load a)"
      using Cons.IH [of bestNode minLoad] Cons.prems(2) by simp
    with False show ?thesis by fastforce
  qed
qed auto

lemma least_loaded:
  assumes "a \<in> set aliveNodes" and "vm_load ld a < 999999"
  shows "getLeastLoadedWorker ld aliveNodes \<in> set aliveNodes"
    and "\<forall>b\<in>set aliveNodes. vm_load ld (getLeastLoadedWorker ld aliveNodes) \<le> vm_load ld b"
proof -
  obtain x xs where x: "aliveNodes = x # xs" using assms(1) by (cases aliveNodes) auto
  have "find_min (vm_load ld) 999999 x aliveNodes \<in> set aliveNodes \<and>
      vm_load ld (find_min (vm_load ld) 999999 x aliveNodes) \<le> 999999 \<and>
      (\<forall>b\<in>set aliveNodes. vm_load ld (find_min (vm_load ld) 999999 x aliveNodes) \<le> vm_load ld b)"
    by (rule find_min_least) (use assms in auto)
  then show "getLeastLoadedWorker ld aliveNodes \<in> set aliveNodes"
    "\<forall>b\<in>set aliveNodes. vm_load ld (getLeastLoadedWorker ld aliveNodes) \<le> vm_load ld b"
    unfolding getLeastLoadedWorker_def using x by auto
qed


section \<open>Position in the list and task identifier\<close>

lemma info_at_set: "map_inv ld \<Longrightarrow> info_at ld s t = Some info \<longleftrightarrow> (t, info) \<in> set (stage_tasks ld s)"
  by (simp add: info_at_def map_inv_def)

lemma stage_infos:
  assumes "map_inv ld"
  shows "map infoTask (map snd (stage_tasks ld s)) = map fst (stage_tasks ld s)"
  using assms info_at_set [OF assms] unfolding map_inv_def by (auto simp: map_eq_conv)

lemma sorted_ints: "sorted xs \<Longrightarrow> distinct xs \<Longrightarrow> set xs = {0..<int n} \<Longrightarrow> xs = map int [0..<n]"
proof -
  assume xs: "sorted xs" "distinct xs" "set xs = {0..<int n}"
  have "sorted (map int [0..<n])" "distinct (map int [0..<n])" "set (map int [0..<n]) = {0..<int n}"
    by (auto simp: sorted_map distinct_map image_int_atLeastLessThan intro: sorted_wrt_mono_rel)
  with xs show ?thesis by (metis sorted_distinct_set_unique)
qed

text \<open>
  The address at position \<open>i\<close> of the sorted worker list is the address of task \<open>i\<close>: routing by
  position and delivering to the task of that number agree.
\<close>

lemma sorted_workers_nth:
  assumes "map_inv ld" and "contiguous ld s" and "i < getStageTaskCount ld s"
  shows "\<exists>info. info_at ld s (int i) = Some info \<and> getSortedStageWorkers ld s ! i = VMAddr info"
    and "length (getSortedStageWorkers ld s) = getStageTaskCount ld s"
proof -
  let ?infos = "map snd (stage_tasks ld s)" and ?n = "length (stage_tasks ld s)"
  let ?sorted = "sort_key infoTask ?infos"
  have ids: "map infoTask ?infos = map fst (stage_tasks ld s)" by (rule stage_infos [OF assms(1)])
  have "map infoTask ?sorted = map int [0..<?n]"
  proof (rule sorted_ints)
    show "sorted (map infoTask ?sorted)" by simp
    have ms: "mset (map infoTask ?sorted) = mset (map fst (stage_tasks ld s))"
      using ids by (metis mset_map mset_sort)
    have "distinct (map fst (stage_tasks ld s))" using assms(1) by (simp add: map_inv_def)
    then show "distinct (map infoTask ?sorted)" using mset_eq_imp_distinct_iff [OF ms] by (simp only:)
    have "set (map fst (stage_tasks ld s)) = {0..<int ?n}"
      using assms(2) by (simp add: contiguous_def task_ids_def)
    then show "set (map infoTask ?sorted) = {0..<int ?n}" using mset_eq_setD [OF ms] by (simp only:)
  qed
  then have task: "infoTask (?sorted ! i) = int i"
    using assms(3) by (metis getStageTaskCount_def length_map length_sort nth_map add_0 length_upt diff_zero nth_upt)
  have "?sorted ! i \<in> set ?infos"
    using assms(3) by (metis getStageTaskCount_def length_map length_sort nth_mem set_sort)
  then obtain t where t: "(t, ?sorted ! i) \<in> set (stage_tasks ld s)" by auto
  then have "info_at ld s t = Some (?sorted ! i)" using info_at_set [OF assms(1)] by blast
  moreover have "t = int i" using calculation assms(1) task by (auto simp: map_inv_def)
  ultimately show "\<exists>info. info_at ld s (int i) = Some info \<and> getSortedStageWorkers ld s ! i = VMAddr info"
    using assms(3) by (auto simp: getSortedStageWorkers_def getStageTaskCount_def)
  show "length (getSortedStageWorkers ld s) = getStageTaskCount ld s"
    by (simp add: getSortedStageWorkers_def getStageTaskCount_def)
qed

lemma foldl_max: "foldl max (a::int) xs = Max (insert a (set xs))"
proof -
  have "(\<lambda>x s. max s x) = (max :: int \<Rightarrow> int \<Rightarrow> int)" by (intro ext) (rule max.commute)
  then have "foldl max a xs = fold max xs a" by (simp only: foldl_conv_fold)
  then show ?thesis using Max.set_eq_fold [of a xs] by simp
qed

lemma max_task_contiguous:
  assumes "contiguous ld s"
  shows "max_task ld s = int (getStageTaskCount ld s) - 1"
proof -
  have "max_task ld s = Max (insert (-1) {0..<int (length (stage_tasks ld s))})"
    using assms by (simp add: max_task_def foldl_max contiguous_def task_ids_def)
  also have "\<dots> = int (length (stage_tasks ld s)) - 1"
    by (rule Max_eqI) auto
  finally show ?thesis by (simp add: getStageTaskCount_def)
qed

section \<open>Scaling keeps the map in order\<close>

definition leader_inv :: "nat \<Rightarrow> leader \<Rightarrow> bool" where
  "leader_inv numStages ld \<longleftrightarrow>
     map_inv ld \<and> TotalTasks ld = int (map_size ld) \<and>
     (\<forall>s. 1 \<le> s \<and> s \<le> numStages \<longrightarrow> contiguous ld (int s) \<and> 0 < getStageTaskCount ld (int s))"

lemma cooldown_frame [simp]:
  "stage_tasks (ld\<lparr>ScaleCooldown := x\<rparr>) s = stage_tasks ld s" "info_at (ld\<lparr>ScaleCooldown := x\<rparr>) s t = info_at ld s t"
  "map_size (ld\<lparr>ScaleCooldown := x\<rparr>) = map_size ld" "map_inv (ld\<lparr>ScaleCooldown := x\<rparr>) = map_inv ld"
  "max_task (ld\<lparr>ScaleCooldown := x\<rparr>) s = max_task ld s"
  "stage_tasks (ld\<lparr>TotalTasks := n\<rparr>) s = stage_tasks ld s" "info_at (ld\<lparr>TotalTasks := n\<rparr>) s t = info_at ld s t"
  "map_size (ld\<lparr>TotalTasks := n\<rparr>) = map_size ld" "map_inv (ld\<lparr>TotalTasks := n\<rparr>) = map_inv ld"
  by (simp_all add: stage_tasks_def info_at_def map_size_def map_inv_def max_task_def)

lemma contiguous_cong: "stage_tasks ld s = stage_tasks ld' s \<Longrightarrow> contiguous ld s = contiguous ld' s"
  by (simp add: contiguous_def task_ids_def)

lemma leader_inv_cooldown [simp]: "leader_inv n (ld\<lparr>ScaleCooldown := x\<rparr>) = leader_inv n ld"
  by (simp add: leader_inv_def contiguous_def task_ids_def getStageTaskCount_def)

lemma leader_inv_add:
  assumes "leader_inv numStages ld" and "1 \<le> stage" "stage \<le> numStages"
    and "t = max_task ld (int stage) + 1"
    and "infoStage info = int stage" "infoTask info = t" "StageID (OriginalArgs info) = int stage"
      "TaskID (OriginalArgs info) = t"
  shows "leader_inv numStages ((put_info (int stage) t info ld)\<lparr>TotalTasks := TotalTasks ld + 1\<rparr>)"
    and "getStageTaskCount ((put_info (int stage) t info ld)\<lparr>TotalTasks := TotalTasks ld + 1\<rparr>) (int stage)
       = Suc (getStageTaskCount ld (int stage))"
proof -
  let ?ld = "(put_info (int stage) t info ld)\<lparr>TotalTasks := TotalTasks ld + 1\<rparr>"
  have inv: "map_inv ld" "contiguous ld (int stage)" using assms(1-3) by (auto simp: leader_inv_def)
  let ?n = "getStageTaskCount ld (int stage)"
  have t: "t = int ?n" using assms(4) max_task_contiguous [OF inv(2)] by simp
  have dom: "info_at ld (int stage) u \<noteq> None \<longleftrightarrow> 0 \<le> u \<and> u < int ?n" for u
    unfolding info_at_iff using inv(2) by (simp add: contiguous_def getStageTaskCount_def)
  then have new: "info_at ld (int stage) t = None" using dom [of t] t by linarith
  have mi: "map_inv (put_info (int stage) t info ld)"
    by (rule map_inv_put) (use inv(1) assms(5-8) in auto)
  have dom': "info_at (put_info (int stage) t info ld) (int stage) u \<noteq> None \<longleftrightarrow> 0 \<le> u \<and> u < int (Suc ?n)" for u
    using dom [of u] t by (auto simp: info_at_put)
  note stage' = contiguousI [OF mi dom']
  have other: "stage_tasks ?ld s = stage_tasks ld s" if "s \<noteq> int stage" for s
    using that by (simp add: stage_tasks_put)
  have same: "stage_tasks ?ld s = stage_tasks (put_info (int stage) t info ld) s" for s by simp
  show count: "getStageTaskCount ?ld (int stage) = Suc ?n"
    using stage'(2) by (simp add: getStageTaskCount_def)
  have "map_size ?ld = Suc (map_size ld)" using map_size_put [OF inv(1)] new by simp
  moreover have "contiguous ?ld (int s) \<and> 0 < getStageTaskCount ?ld (int s)" if "1 \<le> s" "s \<le> numStages" for s
  proof (cases "s = stage")
    case True
    then show ?thesis using stage'(1) count contiguous_cong [OF same] by simp
  next
    case False
    then have "stage_tasks ?ld (int s) = stage_tasks ld (int s)" by (intro other) simp
    then show ?thesis using assms(1) that contiguous_cong [of ?ld "int s" ld]
      by (simp add: leader_inv_def getStageTaskCount_def)
  qed
  ultimately show "leader_inv numStages ?ld" using assms(1) mi by (simp add: leader_inv_def)
qed

lemma scaleUp_cases:
  assumes "scaleUp env ms args stage (ld, sy) = ((ld', sy'), r)"
  shows "ld' = ld\<lparr>ScaleCooldown := aNow env + Second\<rparr> \<or>
    (\<exists>addr rep. ld' = (put_info (int stage) (max_task ld (int stage) + 1)
        (new_info addr (scaleUp_args env args stage (ld\<lparr>ScaleCooldown := aNow env + Second\<rparr>)) rep)
        (ld\<lparr>ScaleCooldown := aNow env + Second\<rparr>))\<lparr>TotalTasks := TotalTasks ld + 1\<rparr>)"
proof -
  have id: "TaskID (scaleUp_args env args stage (ld\<lparr>ScaleCooldown := aNow env + Second\<rparr>))
      = max_task ld (int stage) + 1"
    by (simp add: scaleUp_args_def Let_def)
  obtain ws c where sy: "sy = (ws, c)" by (cases sy)
  show ?thesis
    using assms unfolding sy
    by (auto simp: scaleUp_def Let_def id split: option.splits prod.splits outcome.splits if_splits)
qed

lemma scaleUp_inv:
  assumes "leader_inv (NumStages args) ld" and "1 \<le> stage" "stage \<le> NumStages args"
    and "scaleUp env ms args stage (ld, sy) = ((ld', sy'), r)"
  shows "leader_inv (NumStages args) ld'"
  using scaleUp_cases [OF assms(4)]
proof
  assume "\<exists>addr rep. ld' = (put_info (int stage) (max_task ld (int stage) + 1)
      (new_info addr (scaleUp_args env args stage (ld\<lparr>ScaleCooldown := aNow env + Second\<rparr>)) rep)
      (ld\<lparr>ScaleCooldown := aNow env + Second\<rparr>))\<lparr>TotalTasks := TotalTasks ld + 1\<rparr>"
  then obtain addr rep where ld': "ld' = (put_info (int stage) (max_task ld (int stage) + 1)
      (new_info addr (scaleUp_args env args stage (ld\<lparr>ScaleCooldown := aNow env + Second\<rparr>)) rep)
      (ld\<lparr>ScaleCooldown := aNow env + Second\<rparr>))\<lparr>TotalTasks := TotalTasks ld + 1\<rparr>" by blast
  show ?thesis
    unfolding ld'
    using leader_inv_add(1) [of "NumStages args" "ld\<lparr>ScaleCooldown := aNow env + Second\<rparr>" stage] assms(1-3)
    by (simp add: new_info_def scaleUp_args_def Let_def)
qed (use assms(1) in simp)


lemma stage_tasks_drop:
  "stage_tasks (drop_info s t ld) s' = (if s' = s then AList.delete t (stage_tasks ld s) else stage_tasks ld s')"
  by (auto simp: stage_tasks_def drop_info_def split: option.split)

lemma info_at_drop:
  "info_at (drop_info s t ld) s' t' = (if s' = s \<and> t' = t then None else info_at ld s' t')"
  by (simp add: info_at_def stage_tasks_drop)

lemma drop_frame [simp]:
  "TotalTasks (drop_info s t ld) = TotalTasks ld" "GlobalTaskMap (drop_rate s t ld) = GlobalTaskMap ld"
  "TotalTasks (drop_rate s t ld) = TotalTasks ld"
  by (simp_all add: drop_info_def drop_rate_def split: option.split)

lemma drop_rate_frame [simp]:
  "stage_tasks (drop_rate s t ld) s' = stage_tasks ld s'" "info_at (drop_rate s t ld) s' t' = info_at ld s' t'"
  "map_size (drop_rate s t ld) = map_size ld" "map_inv (drop_rate s t ld) = map_inv ld"
  by (simp_all add: stage_tasks_def info_at_def map_size_def map_inv_def)

lemma map_inv_drop: "map_inv ld \<Longrightarrow> map_inv (drop_info s t ld)"
  unfolding map_inv_def
  by (auto simp: info_at_drop stage_tasks_drop distinct_delete split: if_splits)
    (simp add: drop_info_def distinct_update_fst split: option.split)

lemma map_size_drop:
  assumes "map_inv ld" and "info_at ld s t \<noteq> None"
  shows "Suc (map_size (drop_info s t ld)) = map_size ld"
proof -
  have d: "distinct (map fst (GlobalTaskMap ld))" using assms(1) by (simp add: map_inv_def)
  obtain ts where ts: "map_of (GlobalTaskMap ld) s = Some ts"
    using assms(2) by (cases "map_of (GlobalTaskMap ld) s") (auto simp: info_at_def stage_tasks_def)
  then have eq: "stage_tasks ld s = ts" by (simp add: stage_tasks_def)
  have "Suc (length (AList.delete t ts)) = length ts"
    using assms eq by (auto simp: map_inv_def info_at_def intro!: length_delete)
  then show ?thesis
    using sum_update [OF d, of length s "AList.delete t ts"] ts by (simp add: map_size_def drop_info_def)
qed

lemma leader_inv_drop:
  assumes "leader_inv numStages ld" and "1 \<le> stage" "stage \<le> numStages"
    and "t = max_task ld (int stage)" and "0 < t"
  shows "leader_inv numStages (drop_rate (int stage) t ((drop_info (int stage) t ld)\<lparr>TotalTasks := TotalTasks ld - 1\<rparr>))"
    and "Suc (getStageTaskCount (drop_rate (int stage) t ((drop_info (int stage) t ld)\<lparr>TotalTasks := TotalTasks ld - 1\<rparr>)) (int stage))
       = getStageTaskCount ld (int stage)"
proof -
  let ?ld = "drop_rate (int stage) t ((drop_info (int stage) t ld)\<lparr>TotalTasks := TotalTasks ld - 1\<rparr>)"
  have inv: "map_inv ld" "contiguous ld (int stage)" using assms(1-3) by (auto simp: leader_inv_def)
  let ?n = "getStageTaskCount ld (int stage)"
  have t: "t = int ?n - 1" using assms(4) max_task_contiguous [OF inv(2)] by simp
  have dom: "info_at ld (int stage) u \<noteq> None \<longleftrightarrow> 0 \<le> u \<and> u < int ?n" for u
    unfolding info_at_iff using inv(2) by (simp add: contiguous_def getStageTaskCount_def)
  have old: "info_at ld (int stage) t \<noteq> None" using dom [of t] t assms(5) by linarith
  have mi: "map_inv (drop_info (int stage) t ld)" by (rule map_inv_drop [OF inv(1)])
  have dom': "info_at (drop_info (int stage) t ld) (int stage) u \<noteq> None \<longleftrightarrow> 0 \<le> u \<and> u < int (?n - 1)" for u
    using dom [of u] t assms(5) by (auto simp: info_at_drop)
  note stage' = contiguousI [OF mi dom']
  have other: "stage_tasks ?ld s = stage_tasks ld s" if "s \<noteq> int stage" for s
    using that by (simp add: stage_tasks_drop)
  have same: "stage_tasks ?ld s = stage_tasks (drop_info (int stage) t ld) s" for s by simp
  show count: "Suc (getStageTaskCount ?ld (int stage)) = ?n"
    using stage'(2) t assms(5) by (simp add: getStageTaskCount_def)
  have "Suc (map_size ?ld) = map_size ld" using map_size_drop [OF inv(1) old] by simp
  moreover have "contiguous ?ld (int s) \<and> 0 < getStageTaskCount ?ld (int s)" if "1 \<le> s" "s \<le> numStages" for s
  proof (cases "s = stage")
    case True
    then show ?thesis using stage'(1) count contiguous_cong [OF same] t assms(5) by simp
  next
    case False
    then have "stage_tasks ?ld (int s) = stage_tasks ld (int s)" by (intro other) simp
    then show ?thesis using assms(1) that contiguous_cong [of ?ld "int s" ld]
      by (simp add: leader_inv_def getStageTaskCount_def)
  qed
  ultimately show "leader_inv numStages ?ld" using assms(1) mi by (simp add: leader_inv_def)
qed

lemma scaleDown_inv:
  assumes "leader_inv numStages ld" and "1 \<le> stage" "stage \<le> numStages"
    and "scaleDown now nets stage (ld, sy) = ((ld', sy'), p)"
  shows "leader_inv numStages ld'"
proof (cases "max_task ld (int stage) \<le> 0 \<or> info_at ld (int stage) (max_task ld (int stage)) = None")
  case True
  then have "ld' = ld\<lparr>ScaleCooldown := now + 3 * Second\<rparr>"
    using assms(4)
    by (cases "info_at ld (int stage) (max_task ld (int stage))") (simp_all add: scaleDown_def Let_def split: if_splits)
  then show ?thesis using assms(1) by simp
next
  case False
  let ?ld = "ld\<lparr>ScaleCooldown := now + 3 * Second\<rparr>" and ?t = "max_task ld (int stage)"
  have "ld' = drop_rate (int stage) ?t ((drop_info (int stage) ?t ?ld)\<lparr>TotalTasks := TotalTasks ?ld - 1\<rparr>)"
    using assms(4) False by (auto simp: scaleDown_def Let_def)
  then show ?thesis
    using leader_inv_drop(1) [of numStages ?ld stage ?t] assms(1-3) False by simp
qed

section \<open>What a broadcast leaves at the workers\<close>

lemma call_worker_at:
  "fst (call_worker n addr f sy) a = (if a = addr \<and> n \<noteq> Unreachable then f (fst sy a) else fst sy a)"
  by (simp add: call_worker_def)

lemma broadcast_fold:
  assumes "\<And>w. f (f w) = f w"
  shows "fst (foldl (\<lambda>sy addr. call_worker (nets addr) addr f sy) sy addrs) a =
     (if a \<in> set addrs \<and> nets a \<noteq> Unreachable then f (fst sy a) else fst sy a)"
proof (induction addrs arbitrary: sy)
  case (Cons b addrs)
  then show ?case using assms by (auto simp: call_worker_at)
qed simp

lemma UpdateDownstream_idem: "UpdateDownstream s ds (UpdateDownstream s ds w) = UpdateDownstream s ds w"
  by (simp add: UpdateDownstream_def) (rule arg_cong [where f = "\<lambda>x. w\<lparr>rsTasks := x\<rparr>"], auto)

lemma UpdateUpstream_idem: "UpdateUpstream s n (UpdateUpstream s n w) = UpdateUpstream s n w"
  by (simp add: UpdateUpstream_def) (rule arg_cong [where f = "\<lambda>x. w\<lparr>rsTasks := x\<rparr>"], auto)

text \<open>
  After a broadcast that reaches every host, each task of the upstream stage that its host has
  registered routes to the current workers of the next stage.
\<close>

lemma broadcast_downstream_reaches:
  assumes "1 \<le> s" and "info_at ld s t = Some info" and "nets (VMAddr info) \<noteq> Unreachable"
    and "task_at (fst sy (VMAddr info)) (getTaskKey s t) = Some task"
  shows "task_at (fst (broadcastUpdateDownstream nets s ld sy) (VMAddr info)) (getTaskKey s t)
       = Some (task\<lparr>DownstreamList := getSortedStageWorkers ld (s + 1)\<rparr>)"
proof -
  have "(t, info) \<in> set (stage_tasks ld s)" using assms(2) by (simp add: info_at_def map_of_SomeD)
  then have "VMAddr info \<in> set (map (VMAddr \<circ> snd) (stage_tasks ld s))" by force
  then show ?thesis
    using assms broadcast_fold [where f = "UpdateDownstream s (getSortedStageWorkers ld (s + 1))" and nets = nets,
        OF UpdateDownstream_idem, of sy "map (VMAddr \<circ> snd) (stage_tasks ld s)" "VMAddr info"]
    by (simp add: broadcastUpdateDownstream_def Let_def task_at_UpdateDownstream)
qed

lemma broadcast_upstream_reaches:
  assumes "1 \<le> s" and "info_at ld s t = Some info" and "nets (VMAddr info) \<noteq> Unreachable"
    and "task_at (fst sy (VMAddr info)) (getTaskKey s t) = Some task"
  shows "task_at (fst (broadcastUpdateUpstream nets s ld sy) (VMAddr info)) (getTaskKey s t)
       = Some (task\<lparr>NumUpstreams := int (getStageTaskCount ld (s - 1))\<rparr>)"
proof -
  have "(t, info) \<in> set (stage_tasks ld s)" using assms(2) by (simp add: info_at_def map_of_SomeD)
  then have "VMAddr info \<in> set (map (VMAddr \<circ> snd) (stage_tasks ld s))" by force
  then show ?thesis
    using assms broadcast_fold [where f = "UpdateUpstream s (int (getStageTaskCount ld (s - 1)))" and nets = nets,
        OF UpdateUpstream_idem, of sy "map (VMAddr \<circ> snd) (stage_tasks ld s)" "VMAddr info"]
    by (simp add: broadcastUpdateUpstream_def Let_def task_at_UpdateUpstream)
qed

end
