(* ===== verification/Merge.thy ===== *)
theory Merge
  imports Replication
begin

text \<open>
  Anti-entropy (\<^verbatim>\<open>node/node.go\<close>): \<^verbatim>\<open>MergeFile\<close> polls the logs of all replicas, merges them by
  operation id, compacts the result and pushes it; \<^verbatim>\<open>Rereplicate\<close>, \<^verbatim>\<open>checkReplica\<close> and
  \<^verbatim>\<open>TriggerAppend\<close> follow. The polling goroutines share the variable \<^verbatim>\<open>err\<close>: each first
  assigns it (\<open>Poll\<close>) and later tests it (\<open>Collect\<close>), so a schedule lists these steps in the
  order in which they happen.
\<close>

section \<open>Polling\<close>

datatype poll_event = Poll nat | Collect nat

fun goroutine :: "poll_event \<Rightarrow> nat" where
  "goroutine (Poll i) = i"
| "goroutine (Collect i) = i"

record poll_state =
  pNodes :: cluster
  pErr :: bool
  pReply :: "nat \<Rightarrow> OperationLogEntry list option"
  allOps :: "(string \<times> OperationLogEntry) list"
  pHangs :: bool

record menv =
  pollNet :: "string \<Rightarrow> net"
  pushNet :: "string \<Rightarrow> net"
  pushDisk :: "string \<Rightarrow> disk"

definition goodMerge :: menv where
  "goodMerge = \<lparr>pollNet = (\<lambda>_. Delivered), pushNet = (\<lambda>_. Delivered), pushDisk = (\<lambda>_. goodDisk)\<rparr>"

lemma goodMerge_simps [simp]:
  "pollNet goodMerge a = Delivered" "pushNet goodMerge a = Delivered" "pushDisk goodMerge a = goodDisk"
  by (simp_all add: goodMerge_def)

text \<open>
  The call of one goroutine. The local branch does not assign \<^verbatim>\<open>err\<close>; the remote branch assigns
  it on every return. A call that hangs leaves the goroutine without a reply.
\<close>

definition poll_step :: "menv \<Rightarrow> string \<Rightarrow> string \<Rightarrow> nat \<Rightarrow> string \<Rightarrow> poll_state \<Rightarrow> poll_state" where
  "poll_step env self f i addr st =
     (if addr = self then st\<lparr>pReply := (pReply st)(i := GetLocalOperationLog f (pNodes st self))\<rparr>
      else (case through (pollNet env addr) (pNodes st addr) (GetOperationLog f (pNodes st addr)) of
        (h, r) \<Rightarrow>
          let st = st\<lparr>pNodes := (pNodes st)(addr := h)\<rparr> in
          (case r of
             Blocked \<Rightarrow> st\<lparr>pHangs := True\<rparr>
           | Error _ \<Rightarrow> st\<lparr>pErr := True\<rparr>
           | Reply (ok, es) \<Rightarrow>
               st\<lparr>pErr := False, pReply := (pReply st)(i := (if ok then Some es else None))\<rparr>)))"

definition store_ops :: "OperationLogEntry list \<Rightarrow> (string \<times> OperationLogEntry) list
    \<Rightarrow> (string \<times> OperationLogEntry) list" where
  "store_ops es al = foldl (\<lambda>al e. AList.update (OpID e) e al) al es"

definition collect_step :: "nat \<Rightarrow> poll_state \<Rightarrow> poll_state" where
  "collect_step i st =
     (case pReply st i of
        Some es \<Rightarrow> if pErr st then st else st\<lparr>allOps := store_ops es (allOps st)\<rparr>
      | None \<Rightarrow> st)"

definition merge_event :: "menv \<Rightarrow> string \<Rightarrow> string \<Rightarrow> string list \<Rightarrow> poll_state \<Rightarrow> poll_event \<Rightarrow> poll_state" where
  "merge_event env self f addrs st ev =
     (case ev of
        Poll i \<Rightarrow> poll_step env self f i (addrs ! i) st
      | Collect i \<Rightarrow> collect_step i st)"

text \<open>The schedules that can happen: each goroutine polls, then collects.\<close>

definition valid_schedule :: "nat \<Rightarrow> poll_event list \<Rightarrow> bool" where
  "valid_schedule n sched \<longleftrightarrow>
     (\<forall>ev\<in>set sched. goroutine ev < n) \<and>
     (\<forall>i<n. filter (\<lambda>ev. goroutine ev = i) sched = [Poll i, Collect i])"

definition start_poll :: "cluster \<Rightarrow> poll_state" where
  "start_poll c = \<lparr>pNodes = c, pErr = False, pReply = (\<lambda>_. None), allOps = [], pHangs = False\<rparr>"

definition poll_logs :: "menv \<Rightarrow> string \<Rightarrow> string \<Rightarrow> string list \<Rightarrow> poll_event list \<Rightarrow> cluster \<Rightarrow> poll_state" where
  "poll_logs env self f addrs sched c =
     foldl (merge_event env self f addrs) (start_poll c) sched"

section \<open>Merging and pushing\<close>

definition sort_ops :: "(string \<times> OperationLogEntry) list \<Rightarrow> OperationLogEntry list" where
  "sort_ops al = sort_key OpID (map snd al)"

definition compact :: "(string \<Rightarrow> string) \<Rightarrow> string \<Rightarrow> string \<Rightarrow> OperationLogEntry list \<Rightarrow> ReconcileArgs" where
  "compact sha f opID_merge finalLog =
     (let d = concat (map Data finalLog) in
      \<lparr>recName = f, FinalDataFile = d,
       FinalLogEntries = marshal \<lparr>OpID = opID_merge, Data = d\<rparr> @ [NL], FinalDataHash = sha d\<rparr>)"

definition push_step :: "(string \<Rightarrow> string) \<Rightarrow> menv \<Rightarrow> string \<Rightarrow> ReconcileArgs \<Rightarrow> cluster \<times> bool \<Rightarrow> string
    \<Rightarrow> cluster \<times> bool" where
  "push_step sha env self args st addr =
     (case st of (c, hangs) \<Rightarrow>
        if addr = self then (c(self := fst (localReconcileFile sha (pushDisk env self) args (c self))), hangs)
        else (case through (pushNet env addr) (c addr) (ReconcileFile sha (pushDisk env addr) args (c addr)) of
                (h, r) \<Rightarrow> (c(addr := h), hangs \<or> r = Blocked)))"

text \<open>
  The mutex of the file is held from after the replica lookup to the end. When a goroutine
  hangs, \<^verbatim>\<open>Wait\<close> never returns and the mutex is never released.
\<close>

definition MergeFile :: "(string \<Rightarrow> string) \<Rightarrow> menv \<Rightarrow> string \<Rightarrow> fetched \<Rightarrow> string \<Rightarrow> poll_event list \<Rightarrow> string
    \<Rightarrow> cluster \<Rightarrow> cluster \<times> status outcome" where
  "MergeFile sha env self got opID_merge sched f c =
     (case GetReplica got f of
        Inl _ \<Rightarrow> (c, Reply (failReply ''Cannot get replica info''))
      | Inr replicaInfo \<Rightarrow>
          let c0 = c(self := getFileMetadata f (c self)) in
          if is_locked (c0 self) f then (c0, Blocked)
          else
            let addrs = map NodeAddr replicaInfo;
                st = poll_logs env self f addrs sched c0;
                c1 = pNodes st
            in if pHangs st then (c1(self := lock_forever f (c1 self)), Blocked)
               else (case foldl (push_step sha env self (compact sha f opID_merge (sort_ops (allOps st))))
                            (c1, False) addrs of
                       (c2, hangs) \<Rightarrow>
                         if hangs then (c2(self := lock_forever f (c2 self)), Blocked)
                         else (c2, Reply okReply)))"

text \<open>The merge of the logs as a function of the logs alone.\<close>

definition merged_ops :: "OperationLogEntry list list \<Rightarrow> OperationLogEntry list" where
  "merged_ops ess = sort_key OpID (remdups (concat ess))"

definition agree :: "OperationLogEntry set \<Rightarrow> bool" where
  "agree E \<longleftrightarrow> inj_on OpID E"

section \<open>Polling when every replica answers\<close>

lemma store_ops_set:
  assumes "set al = (\<lambda>e. (OpID e, e)) ` E" and "distinct (map fst al)" and "agree (E \<union> set es)"
  shows "set (store_ops es al) = (\<lambda>e. (OpID e, e)) ` (E \<union> set es) \<and> distinct (map fst (store_ops es al))"
  using assms
proof (induction es arbitrary: al E)
  case (Cons e es)
  let ?al = "AList.update (OpID e) e al"
  have same: "e' = e" if "e' \<in> E" "OpID e' = OpID e" for e'
    using Cons.prems(3) that by (auto simp: agree_def inj_on_def)
  have "set ?al = (\<lambda>e. (OpID e, e)) ` insert e E"
  proof -
    have "set ?al = insert (OpID e, e) {p \<in> set al. fst p \<noteq> OpID e}"
      using Cons.prems(2) by (rule set_update)
    then show ?thesis unfolding Cons.prems(1) using same by (force simp: image_iff)
  qed
  moreover have "distinct (map fst ?al)" by (rule distinct_update_fst [OF Cons.prems(2)])
  moreover have "agree (insert e E \<union> set es)" using Cons.prems(3) by simp
  ultimately show ?case using Cons.IH [of ?al "insert e E"] by (simp add: store_ops_def)
qed (simp add: store_ops_def)

lemma sort_ops_merged:
  assumes "set al = (\<lambda>e. (OpID e, e)) ` set (concat ess)" and "distinct (map fst al)"
    and "agree (set (concat ess))"
  shows "sort_ops al = merged_ops ess"
  unfolding sort_ops_def merged_ops_def
proof (rule sort_key_mset_eq)
  have "distinct al" using assms(2) by (simp add: distinct_map)
  moreover have "inj_on snd (set al)" unfolding assms(1) by (auto simp: inj_on_def)
  ultimately have "distinct (map snd al)" by (simp add: distinct_map)
  moreover have "set (map snd al) = set (concat ess)" unfolding set_map assms(1) by force
  ultimately show "mset (map snd al) = mset (remdups (concat ess))"
    by (metis distinct_remdups set_eq_iff_mset_eq_distinct set_remdups)
  have "map OpID (map snd al) = map fst al" using assms(1) by auto
  then show "distinct (map OpID (map snd al))" using assms(2) by (simp only:)
qed


definition same_store :: "hnode \<Rightarrow> hnode \<Rightarrow> bool" where
  "same_store h h' \<longleftrightarrow> files h = files h' \<and> logs h = logs h' \<and> (\<forall>g. is_locked h g = is_locked h' g)"

lemma same_store_trans: "same_store h h' \<Longrightarrow> same_store h' h'' \<Longrightarrow> same_store h h''"
  by (simp add: same_store_def)

lemma same_store_refl [simp]: "same_store h h" "same_store (getFileMetadata f h) h"
  by (simp_all add: same_store_def)

lemma same_store_at:
  assumes "same_store h h'"
  shows "file_at h = file_at h'" "log_at h = log_at h'" "is_locked h = is_locked h'"
    "GetLocalOperationLog f h = GetLocalOperationLog f h'"
  using assms by (auto simp: same_store_def file_at_def log_at_def GetLocalOperationLog_def)

lemma same_store_poll: "\<not> is_locked h f \<Longrightarrow> same_store (fst (GetOperationLog f h)) h"
  by (simp add: GetOperationLog_def with_lock_free)

text \<open>
  Every replica answers: the log of each can be read, and for the remote ones the network
  delivers and the mutex is free.
\<close>

definition answering :: "menv \<Rightarrow> string \<Rightarrow> string \<Rightarrow> string list \<Rightarrow> cluster \<Rightarrow> OperationLogEntry list list \<Rightarrow> bool" where
  "answering env self f addrs c ess \<longleftrightarrow>
     length ess = length addrs \<and>
     (\<forall>i<length addrs. GetLocalOperationLog f (c (addrs ! i)) = Some (ess ! i) \<and>
        (addrs ! i \<noteq> self \<longrightarrow> pollNet env (addrs ! i) = Delivered \<and> \<not> is_locked (c (addrs ! i)) f))"

definition poll_inv :: "cluster \<Rightarrow> OperationLogEntry list list \<Rightarrow> poll_event list \<Rightarrow> poll_state \<Rightarrow> bool" where
  "poll_inv c ess pre st \<longleftrightarrow>
     (\<forall>a. same_store (pNodes st a) (c a)) \<and> \<not> pErr st \<and> \<not> pHangs st \<and>
     (\<forall>i. Poll i \<in> set pre \<longrightarrow> pReply st i = Some (ess ! i)) \<and>
     set (allOps st) = (\<lambda>e. (OpID e, e)) ` (\<Union>i\<in>{i. Collect i \<in> set pre}. set (ess ! i)) \<and>
     distinct (map fst (allOps st))"

lemma poll_inv_poll:
  assumes "answering env self f addrs c ess" and "i < length addrs" and "poll_inv c ess pre st"
  shows "poll_inv c ess (pre @ [Poll i]) (merge_event env self f addrs st (Poll i))"
proof -
  let ?h = "pNodes st (addrs ! i)"
  have same: "same_store ?h (c (addrs ! i))" using assms(3) by (simp add: poll_inv_def)
  have log: "GetLocalOperationLog f ?h = Some (ess ! i)"
    using assms(1,2) same_store_at(4) [OF same] by (simp add: answering_def)
  show ?thesis
  proof (cases "addrs ! i = self")
    case True
    then show ?thesis using assms(3) log
      by (simp add: merge_event_def poll_step_def poll_inv_def)
  next
    case False
    then have free: "\<not> is_locked ?h f" and net: "pollNet env (addrs ! i) = Delivered"
      using assms(1,2) same_store_at(3) [OF same] by (auto simp: answering_def)
    have call: "GetOperationLog f ?h = (getFileMetadata f ?h, Reply (True, ess ! i))"
    proof -
      have "GetLocalOperationLog f (getFileMetadata f ?h) = Some (ess ! i)"
        using log by (simp add: GetLocalOperationLog_def)
      then show ?thesis using free by (simp add: GetOperationLog_def with_lock_free)
    qed
    have "same_store (getFileMetadata f ?h) (c (addrs ! i))"
      using same same_store_refl(2) same_store_trans by blast
    then show ?thesis using assms(3) call net False
      by (simp add: merge_event_def poll_step_def poll_inv_def Let_def)
  qed
qed

lemma poll_inv_collect:
  assumes "agree (set (concat ess))" and "i < length ess" and "Poll i \<in> set pre"
    and "\<forall>j. Collect j \<in> set pre \<longrightarrow> j < length ess" and "poll_inv c ess pre st"
  shows "poll_inv c ess (pre @ [Collect i]) (merge_event env self f addrs st (Collect i))"
proof -
  let ?E = "\<Union>j\<in>{j. Collect j \<in> set pre}. set (ess ! j)"
  have "?E \<union> set (ess ! i) \<subseteq> set (concat ess)" using assms(2,4) by fastforce
  then have ag: "agree (?E \<union> set (ess ! i))"
    using assms(1) unfolding agree_def by (rule inj_on_subset [rotated])
  have inv: "set (allOps st) = (\<lambda>e. (OpID e, e)) ` ?E" "distinct (map fst (allOps st))"
    "pReply st i = Some (ess ! i)" "\<not> pErr st"
    using assms(3,5) unfolding poll_inv_def by blast+
  have stored: "set (store_ops (ess ! i) (allOps st)) = (\<lambda>e. (OpID e, e)) ` (?E \<union> set (ess ! i))"
    "distinct (map fst (store_ops (ess ! i) (allOps st)))"
    using store_ops_set [OF inv(1,2) ag] by simp_all
  have U: "(\<Union>j\<in>{j. Collect j \<in> set (pre @ [Collect i])}. set (ess ! j)) = ?E \<union> set (ess ! i)" by auto
  have eq: "merge_event env self f addrs st (Collect i) = st\<lparr>allOps := store_ops (ess ! i) (allOps st)\<rparr>"
    by (simp add: merge_event_def collect_step_def inv(3,4))
  have old: "\<forall>a. same_store (pNodes st a) (c a)" "\<not> pErr st" "\<not> pHangs st"
    "\<forall>j. Poll j \<in> set pre \<longrightarrow> pReply st j = Some (ess ! j)"
    using assms(5) by (simp_all add: poll_inv_def)
  show ?thesis unfolding poll_inv_def U eq
    by (intro conjI) (use old in \<open>auto simp: stored simp del: set_concat\<close>)
qed

lemma schedule_ordered:
  assumes "valid_schedule n (as @ Collect i # bs)"
  shows "Poll i \<in> set as"
proof -
  have "i < n" using assms by (simp add: valid_schedule_def)
  then have "filter (\<lambda>ev. goroutine ev = i) (as @ Collect i # bs) = [Poll i, Collect i]"
    using assms unfolding valid_schedule_def by blast
  then have "filter (\<lambda>ev. goroutine ev = i) as @ Collect i # filter (\<lambda>ev. goroutine ev = i) bs = [Poll i, Collect i]"
    by simp
  then have "Poll i \<in> set (filter (\<lambda>ev. goroutine ev = i) as)"
    by (cases "filter (\<lambda>ev. goroutine ev = i) as") auto
  then show ?thesis by simp
qed

lemma schedule_complete:
  assumes "valid_schedule n sched"
  shows "{i. Collect i \<in> set sched} = {..<n}"
proof -
  have "Collect i \<in> set sched" if "i < n" for i
  proof -
    have "Collect i \<in> set (filter (\<lambda>ev. goroutine ev = i) sched)"
      using assms that by (simp add: valid_schedule_def)
    then show ?thesis by simp
  qed
  moreover have "i < n" if "Collect i \<in> set sched" for i
    using assms that by (fastforce simp: valid_schedule_def)
  ultimately show ?thesis by auto
qed

lemma poll_logs_inv:
  assumes "valid_schedule (length addrs) sched" and "answering env self f addrs c ess"
    and "agree (set (concat ess))" and "\<exists>post. sched = pre @ post"
  shows "poll_inv c ess pre (poll_logs env self f addrs pre c)"
  using assms(4)
proof (induction pre rule: rev_induct)
  case Nil
  show ?case by (simp add: poll_logs_def start_poll_def poll_inv_def)
next
  case (snoc ev pre)
  then obtain post where s: "sched = pre @ ev # post" by auto
  then have IH: "poll_inv c ess pre (poll_logs env self f addrs pre c)" using snoc.IH by blast
  have len: "length ess = length addrs" using assms(2) by (simp add: answering_def)
  have bound: "goroutine e < length addrs" if "e \<in> set sched" for e
    using assms(1) that by (simp add: valid_schedule_def)
  have step: "poll_logs env self f addrs (pre @ [ev]) c
      = merge_event env self f addrs (poll_logs env self f addrs pre c) ev"
    by (simp add: poll_logs_def)
  show ?case
  proof (cases ev)
    case (Poll i)
    then show ?thesis using bound [of ev] s step poll_inv_poll [OF assms(2) _ IH] by simp
  next
    case (Collect i)
    have "\<forall>j. Collect j \<in> set pre \<longrightarrow> j < length ess" using bound s len by fastforce
    moreover have "Poll i \<in> set pre" using schedule_ordered assms(1) s Collect by blast
    moreover have "i < length ess" using bound [of ev] s Collect len by simp
    ultimately show ?thesis using step Collect poll_inv_collect [OF assms(3) _ _ _ IH] by simp
  qed
qed

lemma poll_logs_all:
  assumes "valid_schedule (length addrs) sched" and "answering env self f addrs c ess"
    and "agree (set (concat ess))"
  shows "sort_ops (allOps (poll_logs env self f addrs sched c)) = merged_ops ess"
    and "\<not> pHangs (poll_logs env self f addrs sched c)"
    and "same_store (pNodes (poll_logs env self f addrs sched c) a) (c a)"
proof -
  have inv: "poll_inv c ess sched (poll_logs env self f addrs sched c)"
    by (rule poll_logs_inv [OF assms]) simp
  have "(\<Union>i\<in>{..<length ess}. set (ess ! i)) = set (concat ess)"
    by (simp add: set_concat) (metis image_image lessThan_atLeast0 list.set_map map_nth set_upt)
  then have "(\<Union>i\<in>{i. Collect i \<in> set sched}. set (ess ! i)) = set (concat ess)"
    unfolding schedule_complete [OF assms(1)] using assms(2) by (simp add: answering_def)
  then show "sort_ops (allOps (poll_logs env self f addrs sched c)) = merged_ops ess"
    using inv assms(3) by (intro sort_ops_merged) (simp_all add: poll_inv_def)
  show "\<not> pHangs (poll_logs env self f addrs sched c)"
    "same_store (pNodes (poll_logs env self f addrs sched c) a) (c a)"
    using inv by (simp_all add: poll_inv_def)
qed


section \<open>Convergence\<close>

definition reconcile_at :: "(string \<Rightarrow> string) \<Rightarrow> menv \<Rightarrow> string \<Rightarrow> ReconcileArgs \<Rightarrow> string \<Rightarrow> hnode \<Rightarrow> hnode \<times> bool" where
  "reconcile_at sha env self args addr h =
     (if addr = self then (fst (localReconcileFile sha (pushDisk env self) args h), False)
      else (case through (pushNet env addr) h (ReconcileFile sha (pushDisk env addr) args h) of
              (h', r) \<Rightarrow> (h', r = Blocked)))"

lemma push_step_at:
  "push_step sha env self args (c, b) a =
     (c(a := fst (reconcile_at sha env self args a (c a))), b \<or> snd (reconcile_at sha env self args a (c a)))"
  by (auto simp: push_step_def reconcile_at_def split: prod.split)

lemma push_result:
  assumes "distinct addrs"
  shows "foldl (push_step sha env self args) (c, b) addrs =
     ((\<lambda>a. if a \<in> set addrs then fst (reconcile_at sha env self args a (c a)) else c a),
      b \<or> (\<exists>a\<in>set addrs. snd (reconcile_at sha env self args a (c a))))"
  by (rule fold_pointwise [OF assms push_step_at])

lemma reconcile_at_ok:
  assumes "pushDisk env a = goodDisk"
    and "a \<noteq> self \<Longrightarrow> pushNet env a = Delivered"
    and "a \<noteq> self \<Longrightarrow> \<not> is_locked h (recName args)"
    and "FinalDataHash args = sha (FinalDataFile args)"
    and "\<And>x. file_at h (recName args) = Some x \<Longrightarrow> sha x = sha (FinalDataFile args) \<Longrightarrow> x = FinalDataFile args"
  shows "\<exists>h'. reconcile_at sha env self args a h = (h', False) \<and>
    file_at h' (recName args) = Some (FinalDataFile args) \<and>
    log_at h' (recName args) = Some (FinalLogEntries args) \<and>
    (\<forall>g. g \<noteq> recName args \<longrightarrow> file_at h' g = file_at h g \<and> log_at h' g = log_at h g) \<and>
    (\<forall>g. is_locked h' g = is_locked h g)"
proof -
  have base: "\<exists>h'. localReconcileFile sha goodDisk args h0 = (h', True) \<and>
    file_at h' (recName args) = Some (FinalDataFile args) \<and>
    log_at h' (recName args) = Some (FinalLogEntries args) \<and>
    (\<forall>g. g \<noteq> recName args \<longrightarrow> file_at h' g = file_at h0 g \<and> log_at h' g = log_at h0 g) \<and>
    (\<forall>g. is_locked h' g = is_locked h0 g)" if "file_at h0 = file_at h" for h0
    by (rule localReconcile_ok [where sha = sha, OF assms(4)]) (use assms(5) that in simp)
  show ?thesis
  proof (cases "a = self")
    case True
    with base [of h] assms(1) show ?thesis by (auto simp: reconcile_at_def)
  next
    case False
    with base [of "getFileMetadata (recName args) h"] assms(1-3) show ?thesis
      by (auto simp: reconcile_at_def ReconcileFile_def with_lock_free fun_eq_iff)
  qed
qed

lemma compact_simps [simp]:
  "recName (compact sha f opid es) = f" "FinalDataFile (compact sha f opid es) = concat (map Data es)"
  "FinalLogEntries (compact sha f opid es) = log_text [\<lparr>OpID = opid, Data = concat (map Data es)\<rparr>]"
  "FinalDataHash (compact sha f opid es) = sha (concat (map Data es))"
  by (simp_all add: compact_def Let_def log_text_def)

text \<open>
  When every replica answers and accepts, a merge ends with the same single operation on every
  replica: the data of all operations any replica had logged, in the order of their ids.
\<close>

lemma MergeFile_converges:
  assumes "GetReplica got f = Inr rs" and "addrs = map NodeAddr rs" and "distinct addrs"
    and "self \<in> set addrs" and "\<not> is_locked (c self) f"
    and "valid_schedule (length addrs) sched"
    and "answering env self f addrs c ess" and "agree (set (concat ess))"
    and push: "\<forall>a\<in>set addrs. pushNet env a = Delivered \<and> pushDisk env a = goodDisk"
    and coll: "\<forall>a\<in>set addrs. \<forall>x. file_at (c a) f = Some x \<longrightarrow>
      sha x = sha (concat (map Data (merged_ops ess))) \<longrightarrow> x = concat (map Data (merged_ops ess))"
  shows "\<exists>c'. MergeFile sha env self got opID sched f c = (c', Reply okReply) \<and>
    (\<forall>a\<in>set addrs. holds_ops (c' a) f [\<lparr>OpID = opID, Data = concat (map Data (merged_ops ess))\<rparr>]) \<and>
    (\<forall>a g. g \<noteq> f \<longrightarrow> file_at (c' a) g = file_at (c a) g \<and> log_at (c' a) g = log_at (c a) g) \<and>
    (\<forall>a g. is_locked (c' a) g = is_locked (c a) g)"
proof -
  let ?c0 = "c(self := getFileMetadata f (c self))"
  have ans: "answering env self f addrs ?c0 ess"
    using assms(7) by (auto simp: answering_def GetLocalOperationLog_def)
  let ?st = "poll_logs env self f addrs sched ?c0"
  let ?args = "compact sha f opID (merged_ops ess)"
  note polled = poll_logs_all [OF assms(6) ans assms(8)]
  have same: "same_store (pNodes ?st a) (c a)" for a
    using polled(3) [of a] by (cases "a = self") (auto intro: same_store_trans)
  note at = same_store_at [OF same]
  have unlocked: "\<not> is_locked (pNodes ?st a) f" if "a \<in> set addrs" for a
    using that assms(5,7) at(3) [of a] by (metis answering_def in_set_conv_nth)
  have ok: "\<exists>h'. reconcile_at sha env self ?args a (pNodes ?st a) = (h', False) \<and>
      holds_ops h' f [\<lparr>OpID = opID, Data = concat (map Data (merged_ops ess))\<rparr>] \<and>
      (\<forall>g. g \<noteq> f \<longrightarrow> file_at h' g = file_at (c a) g \<and> log_at h' g = log_at (c a) g) \<and>
      (\<forall>g. is_locked h' g = is_locked (c a) g)" if a: "a \<in> set addrs" for a
    using reconcile_at_ok [of env a self "pNodes ?st a" ?args sha] a push coll unlocked [OF a] at [of a]
    by (auto simp: holds_ops_def)
  let ?c' = "\<lambda>a. if a \<in> set addrs then fst (reconcile_at sha env self ?args a (pNodes ?st a)) else pNodes ?st a"
  have run: "foldl (push_step sha env self ?args) (pNodes ?st, False) addrs = (?c', False)"
    unfolding push_result [OF assms(3)] using ok by fastforce
  have "MergeFile sha env self got opID sched f c = (?c', Reply okReply)"
    using assms(1,2,5) polled(1,2) run by (simp add: MergeFile_def Let_def)
  moreover have "holds_ops (?c' a) f [\<lparr>OpID = opID, Data = concat (map Data (merged_ops ess))\<rparr>]"
    if "a \<in> set addrs" for a using ok [OF that] that by auto
  moreover have "file_at (?c' a) g = file_at (c a) g \<and> log_at (?c' a) g = log_at (c a) g" if "g \<noteq> f" for a g
    using ok [of a] that at [of a] by (cases "a \<in> set addrs") auto
  moreover have "is_locked (?c' a) g = is_locked (c a) g" for a g
    using ok [of a] at [of a] by (cases "a \<in> set addrs") auto
  ultimately show ?thesis by blast
qed


lemma answering_holds:
  assumes "\<forall>i<length addrs. holds_ops (c (addrs ! i)) f (ess ! i) \<and> (\<forall>e\<in>set (ess ! i). small e)"
    and "length ess = length addrs"
    and "\<forall>a\<in>set addrs. pollNet env a = Delivered \<and> \<not> is_locked (c a) f"
  shows "answering env self f addrs c ess"
  using assms by (simp add: answering_def GetLocalOperationLog_ops)

lemma merged_ops_same: "n \<noteq> 0 \<Longrightarrow> merged_ops (replicate n [e]) = [e]"
proof -
  have "remdups (concat (replicate (Suc m) [e])) = [e]" for m
    by (induction m) auto
  moreover assume "n \<noteq> 0"
  ultimately show ?thesis by (metis merged_ops_def not0_implies_Suc sort_key_simps(1) insort_key.simps(1) sort_key_simps(2))
qed

lemma merged_ops_none [simp]: "merged_ops (replicate n []) = []"
  by (simp add: merged_ops_def)

lemma merged_ops_set: "set (merged_ops ess) = set (concat ess)"
  by (simp add: merged_ops_def)

lemma merged_ops_perm:
  assumes "set (concat ess) = set (concat ess')" and "agree (set (concat ess))"
  shows "merged_ops ess = merged_ops ess'"
  unfolding merged_ops_def
proof (rule sort_key_mset_eq)
  show "mset (remdups (concat ess)) = mset (remdups (concat ess'))"
    using assms(1) by (metis distinct_remdups set_eq_iff_mset_eq_distinct set_remdups)
  show "distinct (map OpID (remdups (concat ess)))"
    using assms(2) by (simp add: agree_def distinct_map)
qed

section \<open>What a merge can lose\<close>

lemma MergeFile_polled:
  assumes "GetReplica got f = Inr rs" and "\<not> is_locked (c self) f"
    and "poll_logs env self f (map NodeAddr rs) sched (c(self := getFileMetadata f (c self))) = st"
    and "\<not> pHangs st" and "pNodes st = c1" and "sort_ops (allOps st) = es"
    and "foldl (push_step sha env self (compact sha f opID es)) (c1, False) (map NodeAddr rs) = (c2, False)"
  shows "MergeFile sha env self got opID sched f c = (c2, Reply okReply)"
  using assms by (simp add: MergeFile_def Let_def)

text \<open>While goroutines only poll, no operation is stored; once an error is noted, none ever is.\<close>

lemma polls_store_nothing:
  assumes "set ks \<subseteq> {..<length addrs}" and "\<forall>a\<in>set addrs. \<not> is_locked (pNodes st a) f"
    and "allOps st = []" and "\<not> pHangs st"
  shows "allOps (foldl (merge_event env self f addrs) st (map Poll ks)) = []
    \<and> \<not> pHangs (foldl (merge_event env self f addrs) st (map Poll ks))
    \<and> (\<forall>a. same_store (pNodes (foldl (merge_event env self f addrs) st (map Poll ks)) a) (pNodes st a))"
  using assms
proof (induction ks arbitrary: st)
  case (Cons k ks)
  let ?st = "merge_event env self f addrs st (Poll k)"
  have free: "\<not> is_locked (pNodes st (addrs ! k)) f" using Cons.prems(1,2) by simp
  have fetch: "snd (GetOperationLog f (pNodes st (addrs ! k))) \<noteq> Blocked"
    using free by (simp add: GetOperationLog_def with_lock_free split: option.split)
  have step: "allOps ?st = []" "\<not> pHangs ?st" "same_store (pNodes ?st a) (pNodes st a)" for a
    using Cons.prems(3,4) fetch same_store_poll [OF free]
    by (auto simp: merge_event_def poll_step_def Let_def through_def split: net.splits outcome.splits prod.splits)
  then have "\<forall>a\<in>set addrs. \<not> is_locked (pNodes ?st a) f"
    using Cons.prems(2) same_store_at(3) by metis
  from Cons.IH [OF _ this step(1,2)] show ?case
    using Cons.prems(1) step(3) by (auto intro: same_store_trans)
qed simp

lemma collects_after_error:
  "pErr st \<Longrightarrow> foldl (merge_event env self f addrs) st (map Collect ks) = st"
  by (induction ks) (simp_all add: merge_event_def collect_step_def split: option.split)

lemma poll_unreachable:
  assumes "addrs ! j \<noteq> self" and "pollNet env (addrs ! j) = Unreachable"
  shows "merge_event env self f addrs st (Poll j) = st\<lparr>pErr := True\<rparr>"
  using assms by (simp add: merge_event_def poll_step_def Let_def)

lemma polls_then_error:
  assumes "set (is @ [j]) \<subseteq> {..<length addrs}" and "\<forall>a\<in>set addrs. \<not> is_locked (c a) f"
    and "addrs ! j \<noteq> self" and "pollNet env (addrs ! j) = Unreachable"
    and "st = poll_logs env self f addrs (map Poll (is @ [j]) @ map Collect ks) c"
  shows "allOps st = []" and "\<not> pHangs st" and "same_store (pNodes st a) (c a)"
proof -
  let ?st = "foldl (merge_event env self f addrs) (start_poll c) (map Poll is)"
  have start: "allOps (start_poll c) = []" "\<not> pHangs (start_poll c)" "pNodes (start_poll c) = c"
    by (simp_all add: start_poll_def)
  note polls = polls_store_nothing [of "is" addrs "start_poll c" f env self, unfolded start]
  have "st = foldl (merge_event env self f addrs) (?st\<lparr>pErr := True\<rparr>) (map Collect ks)"
    using assms(3,4,5) by (simp add: poll_logs_def poll_unreachable)
  then have "st = ?st\<lparr>pErr := True\<rparr>" by (simp add: collects_after_error)
  then show "allOps st = []" "\<not> pHangs st" "same_store (pNodes st a) (c a)"
    using polls assms(1,2) start(2) by auto
qed

text \<open>
  When the failed call to an unreachable replica is the last one noted before the results are
  collected, the primary drops every log, its own and those it fetched, and empties the file
  on itself and on every replica it can reach.
\<close>

lemma merge_stale_error:
  assumes "GetReplica got f = Inr rs" and "addrs = map NodeAddr rs" and "distinct addrs"
    and "self \<in> set addrs" and free: "\<forall>a\<in>set addrs. \<not> is_locked (c a) f"
    and "mset (is @ [j]) = mset [0..<length addrs]"
    and "addrs ! j \<noteq> self" and "pollNet env (addrs ! j) = Unreachable"
    and push: "\<forall>a\<in>set addrs. pushDisk env a = goodDisk \<and> pushNet env a \<in> {Delivered, Unreachable}"
    and coll: "\<forall>a\<in>set addrs. \<forall>x. file_at (c a) f = Some x \<longrightarrow> sha x = sha [] \<longrightarrow> x = []"
  shows "\<exists>c'. MergeFile sha env self got opID (map Poll (is @ [j]) @ map Collect ks) f c = (c', Reply okReply) \<and>
    (\<forall>a\<in>set addrs. a = self \<or> pushNet env a = Delivered \<longrightarrow> file_at (c' a) f = Some [])"
proof -
  let ?c0 = "c(self := getFileMetadata f (c self))"
  define st where "st = poll_logs env self f addrs (map Poll (is @ [j]) @ map Collect ks) ?c0"
  let ?args = "compact sha f opID []"
  have "set (is @ [j]) \<subseteq> {..<length addrs}" using mset_eq_setD [OF assms(6)] by auto
  moreover have free0: "\<forall>a\<in>set addrs. \<not> is_locked (?c0 a) f" using free by simp
  ultimately have st: "allOps st = []" "\<not> pHangs st" "same_store (pNodes st a) (?c0 a)" for a
    using polls_then_error [OF _ _ assms(7,8) st_def] by blast+
  have same: "same_store (pNodes st a) (c a)" for a
    using st(3) [of a] by (cases "a = self") (auto intro: same_store_trans)
  note at = same_store_at [OF same]
  have ok: "\<not> snd (reconcile_at sha env self ?args a (pNodes st a)) \<and>
      (a = self \<or> pushNet env a = Delivered \<longrightarrow> file_at (fst (reconcile_at sha env self ?args a (pNodes st a))) f = Some [])"
    if a: "a \<in> set addrs" for a
  proof (cases "a = self \<or> pushNet env a = Delivered")
    case True
    obtain h' where "reconcile_at sha env self ?args a (pNodes st a) = (h', False)" "file_at h' f = Some []"
      using reconcile_at_ok [of env a self "pNodes st a" ?args sha] True a push free at(1,3) [of a] coll by auto
    then show ?thesis by simp
  next
    case False
    then show ?thesis using push a by (auto simp: reconcile_at_def)
  qed
  let ?c' = "\<lambda>a. if a \<in> set addrs then fst (reconcile_at sha env self ?args a (pNodes st a)) else pNodes st a"
  have "foldl (push_step sha env self ?args) (pNodes st, False) addrs = (?c', False)"
    unfolding push_result [OF assms(3)] using ok by auto
  then have run: "foldl (push_step sha env self ?args) (pNodes st, False) (map NodeAddr rs) = (?c', False)"
    unfolding assms(2) .
  have "\<not> is_locked (c self) f" using assms(4) free by blast
  moreover have "sort_ops (allOps st) = []" using st(1) by (simp add: sort_ops_def)
  ultimately have "MergeFile sha env self got opID (map Poll (is @ [j]) @ map Collect ks) f c = (?c', Reply okReply)"
    using MergeFile_polled [OF assms(1) _ _ st(2) refl _ run] st_def assms(2) by blast
  then show ?thesis using ok by (intro exI [of _ ?c']) auto
qed


section \<open>Re-replication and the replica check\<close>

text \<open>
  \<^verbatim>\<open>Rereplicate\<close>: the primary compares digests with every other replica and pushes its own data
  and log to those that differ. The two calls of a goroutine may meet different networks.
\<close>

record renv =
  checkNet :: "string \<Rightarrow> net"
  fixNet :: "string \<Rightarrow> net"
  fixDisk :: "string \<Rightarrow> disk"

definition same_digest :: "(status \<times> string) outcome \<Rightarrow> string \<Rightarrow> bool" where
  "same_digest r d = (case r of Reply (s, x) \<Rightarrow> success s \<and> x = d | _ \<Rightarrow> False)"

definition rereplicate_at :: "(string \<Rightarrow> string) \<Rightarrow> renv \<Rightarrow> ReconcileArgs \<Rightarrow> string \<Rightarrow> hnode \<Rightarrow> hnode \<times> bool" where
  "rereplicate_at sha env args addr h =
     (case through (checkNet env addr) h (CheckFile sha (recName args) h) of
        (h1, r) \<Rightarrow>
          if r = Blocked then (h1, True)
          else if same_digest r (FinalDataHash args) then (h1, False)
          else (case through (fixNet env addr) h1 (ReconcileFile sha (fixDisk env addr) args h1) of
                  (h2, r2) \<Rightarrow> (h2, r2 = Blocked)))"

definition rereplicate_step :: "(string \<Rightarrow> string) \<Rightarrow> renv \<Rightarrow> ReconcileArgs \<Rightarrow> cluster \<times> bool \<Rightarrow> string
    \<Rightarrow> cluster \<times> bool" where
  "rereplicate_step sha env args st rpcAddr =
     (case st of (c, hangs) \<Rightarrow>
        (case rereplicate_at sha env args rpcAddr (c rpcAddr) of (h, b) \<Rightarrow> (c(rpcAddr := h), hangs \<or> b)))"

definition Rereplicate :: "(string \<Rightarrow> string) \<Rightarrow> renv \<Rightarrow> string \<Rightarrow> string \<Rightarrow> NodeInfo list \<Rightarrow> cluster
    \<Rightarrow> cluster \<times> unit outcome" where
  "Rereplicate sha env self filename nonPrimary c =
     (let c = c(self := getFileMetadata filename (c self)) in
      if is_locked (c self) filename then (c, Blocked)
      else (case (file_at (c self) filename, log_at (c self) filename) of
        (Some dataFile, Some logFile) \<Rightarrow>
          let args = \<lparr>recName = filename, FinalDataFile = dataFile, FinalLogEntries = logFile,
                      FinalDataHash = sha dataFile\<rparr>
          in (case foldl (rereplicate_step sha env args) (c, False) (map NodeAddr nonPrimary) of
                (c', hangs) \<Rightarrow> (c', if hangs then Blocked else Reply ()))
      | _ \<Rightarrow> (c, Reply ())))"

text \<open>
  \<^verbatim>\<open>checkReplica\<close>: what to do with each file in the storage directory. \<^const>\<open>None\<close> is the panic
  on an empty ring. Merges are started in goroutines of their own, so the result lists them.
\<close>

datatype duty = StartMerge | KeepReplica | RemoveCopy

definition replica_duty :: "string \<Rightarrow> NodeInfo list \<Rightarrow> string \<Rightarrow> duty option" where
  "replica_duty rpcAddr ringNodes f =
     (case GetSuccessor (HashFunc f) ringNodes ReplicaNum of
        None \<Rightarrow> None
      | Some [] \<Rightarrow> None
      | Some (p # rest) \<Rightarrow>
          Some (if rpcAddr \<in> set (map NodeAddr (p # rest))
                then (if rpcAddr = NodeAddr p then StartMerge else KeepReplica)
                else RemoveCopy))"

definition check_step :: "string \<Rightarrow> NodeInfo list \<Rightarrow> (hnode \<times> string list) option \<Rightarrow> string
    \<Rightarrow> (hnode \<times> string list) option" where
  "check_step rpcAddr ringNodes st f =
     (case st of None \<Rightarrow> None
      | Some (h, merges) \<Rightarrow>
          (case replica_duty rpcAddr ringNodes f of
             None \<Rightarrow> None
           | Some StartMerge \<Rightarrow> Some (h, merges @ [f])
           | Some KeepReplica \<Rightarrow> Some (h, merges)
           | Some RemoveCopy \<Rightarrow> Some (drop_log f (drop_file f h), merges)))"

definition checkReplica :: "string \<Rightarrow> member list \<Rightarrow> hnode \<Rightarrow> (hnode \<times> string list) option" where
  "checkReplica rpcAddr currentMembers h =
     foldl (check_step rpcAddr (sort_ring (GetRingInfo currentMembers))) (Some (h, [])) (map fst (files h))"

text \<open>
  \<^verbatim>\<open>TriggerAppend\<close>: the target node appends its local file through a replica picked at random
  (\<open>primaryIndex\<close>, below \<^const>\<open>ReplicaNum\<close>). \<^const>\<open>None\<close> is the index panic on a short replica list.
\<close>

definition TriggerAppend :: "wenv \<Rightarrow> fetched \<Rightarrow> nat \<Rightarrow> string \<Rightarrow> string option \<Rightarrow> string \<Rightarrow> cluster
    \<Rightarrow> (cluster \<times> status outcome) option" where
  "TriggerAppend env got primaryIndex opID localFile f c =
     (case localFile of
        None \<Rightarrow> Some (c, Reply (failReply ''Cannot read local file''))
      | Some localFileData \<Rightarrow>
          (case GetReplica got f of
             Inl e \<Rightarrow> Some (c, Reply (failReply (''Cannot get replica info: '' @ e)))
           | Inr replicaInfo \<Rightarrow>
               if length replicaInfo < ReplicaNum then None
               else
                 let nonPrimary = map (\<lambda>i. NodeAddr (replicaInfo ! i))
                       (filter (\<lambda>i. i \<noteq> primaryIndex) [0..<ReplicaNum]);
                     primary = NodeAddr (replicaInfo ! primaryIndex);
                     args = \<lparr>HyDFSFileName = f, LocalFile = localFileData,
                             NonPrimary = nonPrimary, OperationID = opID\<rparr>
                 in Some (case through (eNet env) c (AppendFile env primary args c) of
                      (c', Blocked) \<Rightarrow> (c', Blocked)
                    | (c', Error e) \<Rightarrow> (c', Reply (failReply (''Cannot call RPC AppendFile on primary: '' @ e)))
                    | (c', Reply s) \<Rightarrow>
                        (c', Reply (if success s then okReply else failReply (errorMessage s))))))"


text \<open>
  One tick of \<^verbatim>\<open>CheckReplicaRoutine\<close> on every node, with the same membership list, and the
  ticks of a sequence of membership lists. A node whose check panics is left as it is. At this
  commit \<^verbatim>\<open>Start\<close> has the routine commented out.
\<close>

definition check_tick :: "member list \<Rightarrow> cluster \<Rightarrow> cluster" where
  "check_tick ms c = (\<lambda>a. case checkReplica a ms (c a) of None \<Rightarrow> c a | Some (h, merges) \<Rightarrow> h)"

definition CheckReplicaRoutine :: "member list list \<Rightarrow> cluster \<Rightarrow> cluster" where
  "CheckReplicaRoutine mss c = foldl (\<lambda>c ms. check_tick ms c) c mss"

section \<open>Merging twice\<close>

text \<open>
  After a merge every replica holds one operation. The next merge keeps its data when its
  log line fits the scanner, and empties every replica when it does not.
\<close>

lemma merge_of_merged:
  assumes "GetReplica got f = Inr rs" and "addrs = map NodeAddr rs" and "distinct addrs"
    and "self \<in> set addrs" and "valid_schedule (length addrs) sched"
    and "\<forall>a\<in>set addrs. holds_ops (c a) f [e] \<and> \<not> is_locked (c a) f"
    and coll: "sha (Data e) = sha [] \<Longrightarrow> Data e = []"
  shows "\<exists>c'. MergeFile sha goodMerge self got opID sched f c = (c', Reply okReply) \<and>
    (\<forall>a\<in>set addrs. file_at (c' a) f = Some (if small e then Data e else []))"
proof -
  have ne: "length addrs \<noteq> 0" using assms(4) by auto
  have read: "GetLocalOperationLog f (c a) = Some (if small e then [e] else [])" if "a \<in> set addrs" for a
    using assms(6) that read_log_text [of "[e]"] read_log_oversized [of "[]" e "[]"]
    by (simp add: GetLocalOperationLog_def holds_ops_def)
  let ?ess = "replicate (length addrs) (if small e then [e] else [])"
  have merged: "merged_ops ?ess = (if small e then [e] else [])"
    using merged_ops_same [OF ne] by simp
  have "answering goodMerge self f addrs c ?ess"
    using read assms(6) by (simp add: answering_def)
  moreover have "agree (set (concat ?ess))" by (auto simp: agree_def inj_on_def)
  moreover have "\<not> is_locked (c self) f" using assms(4,6) by blast
  moreover have "\<forall>a\<in>set addrs. \<forall>x. file_at (c a) f = Some x \<longrightarrow>
      sha x = sha (concat (map Data (merged_ops ?ess))) \<longrightarrow> x = concat (map Data (merged_ops ?ess))"
    using assms(6) coll unfolding merged by (auto simp: holds_ops_def)
  ultimately obtain c' where "MergeFile sha goodMerge self got opID sched f c = (c', Reply okReply)"
    "\<forall>a\<in>set addrs. holds_ops (c' a) f [\<lparr>OpID = opID, Data = concat (map Data (merged_ops ?ess))\<rparr>]"
    using MergeFile_converges [OF assms(1-4), where env = goodMerge and c = c and ess = ?ess
        and sched = sched and sha = sha and opID = opID] assms(5) by auto
  then show ?thesis unfolding merged by (fastforce simp: holds_ops_def)
qed

section \<open>Re-replication\<close>

lemma rereplicate_step_at:
  "rereplicate_step sha env args (c, b) a =
     (c(a := fst (rereplicate_at sha env args a (c a))), b \<or> snd (rereplicate_at sha env args a (c a)))"
  by (simp add: rereplicate_step_def split: prod.split)

text \<open>One replica that can be repaired ends with the data, whatever the digest call met.\<close>

lemma rereplicate_at_ok:
  assumes "fixNet env a = Delivered" and "fixDisk env a = goodDisk" and "\<not> is_locked h (recName args)"
    and "FinalDataHash args = sha (FinalDataFile args)"
    and coll: "\<And>x. file_at h (recName args) = Some x \<Longrightarrow> sha x = sha (FinalDataFile args) \<Longrightarrow> x = FinalDataFile args"
  shows "\<not> snd (rereplicate_at sha env args a h)
    \<and> file_at (fst (rereplicate_at sha env args a h)) (recName args) = Some (FinalDataFile args)"
proof -
  let ?f = "recName args"
  obtain h1 r where chk: "through (checkNet env a) h (CheckFile sha ?f h) = (h1, r)" by fastforce
  then have h1: "file_at h1 = file_at h" "is_locked h1 ?f = is_locked h ?f" and r: "r \<noteq> Blocked"
    using assms(3)
    by (auto simp: CheckFile_def with_lock_free through_def fun_eq_iff split: net.splits option.splits)
  have same: "file_at h ?f = Some (FinalDataFile args)" if "same_digest r (FinalDataHash args)"
    using that chk assms(3,4) coll
    by (auto simp: CheckFile_def with_lock_free through_def same_digest_def
        split: net.splits option.splits outcome.splits prod.splits)
  obtain h2 where "localReconcileFile sha goodDisk args (getFileMetadata ?f h1) = (h2, True)"
    "file_at h2 ?f = Some (FinalDataFile args)"
    using localReconcile_ok [where sha = sha and args = args and h = "getFileMetadata ?f h1", OF assms(4)] coll h1 by auto
  then have "ReconcileFile sha goodDisk args h1 = (h2, Reply True)"
    using assms(3) h1 by (simp add: ReconcileFile_def with_lock_free)
  then show ?thesis
    using chk r same h1 assms(1,2) \<open>file_at h2 ?f = Some (FinalDataFile args)\<close>
    by (simp add: rereplicate_at_def)
qed

lemma Rereplicate_copies:
  assumes "\<not> is_locked (c self) f" and "file_at (c self) f = Some d" and "log_at (c self) f = Some l"
    and "distinct (map NodeAddr nonPrimary)" and "self \<notin> set (map NodeAddr nonPrimary)"
    and able: "\<forall>a\<in>set (map NodeAddr nonPrimary).
      fixNet env a = Delivered \<and> fixDisk env a = goodDisk \<and> \<not> is_locked (c a) f"
    and coll: "\<forall>a\<in>set (map NodeAddr nonPrimary). \<forall>x. file_at (c a) f = Some x \<longrightarrow> sha x = sha d \<longrightarrow> x = d"
  shows "\<exists>c'. Rereplicate sha env self f nonPrimary c = (c', Reply ()) \<and>
    (\<forall>a\<in>set (map NodeAddr nonPrimary). file_at (c' a) f = Some d)"
proof -
  let ?c0 = "c(self := getFileMetadata f (c self))"
  let ?args = "\<lparr>recName = f, FinalDataFile = d, FinalLogEntries = l, FinalDataHash = sha d\<rparr>"
  let ?addrs = "map NodeAddr nonPrimary"
  let ?g = "rereplicate_at sha env ?args"
  have ok: "\<not> snd (?g a (?c0 a)) \<and> file_at (fst (?g a (?c0 a))) f = Some d" if a: "a \<in> set ?addrs" for a
    using rereplicate_at_ok [of env a "?c0 a" ?args sha] a assms(5) able coll by (metis fun_upd_other ReconcileArgs.select_convs)
  have "foldl (rereplicate_step sha env ?args) (?c0, False) ?addrs =
      ((\<lambda>a. if a \<in> set ?addrs then fst (?g a (?c0 a)) else ?c0 a), False \<or> (\<exists>a\<in>set ?addrs. snd (?g a (?c0 a))))"
    by (rule fold_pointwise [OF assms(4) rereplicate_step_at])
  moreover have "\<not> (\<exists>a\<in>set ?addrs. snd (?g a (?c0 a)))" using ok by blast
  ultimately have "foldl (rereplicate_step sha env ?args) (?c0, False) ?addrs =
      ((\<lambda>a. if a \<in> set ?addrs then fst (?g a (?c0 a)) else ?c0 a), False)" by (simp only: simp_thms)
  then have "Rereplicate sha env self f nonPrimary c
      = ((\<lambda>a. if a \<in> set ?addrs then fst (?g a (?c0 a)) else ?c0 a), Reply ())"
    using assms(1-3) by (simp add: Rereplicate_def Let_def)
  then show ?thesis using ok by simp
qed

section \<open>The replica check and the triggered append\<close>

lemma check_step_simps:
  "check_step rpcAddr ns None f = None"
  "replica_duty rpcAddr ns f = None \<Longrightarrow> check_step rpcAddr ns (Some st) f = None"
  "replica_duty rpcAddr ns f = Some d \<Longrightarrow> check_step rpcAddr ns (Some (h, ms)) f =
     Some (case d of StartMerge \<Rightarrow> (h, ms @ [f]) | KeepReplica \<Rightarrow> (h, ms)
           | RemoveCopy \<Rightarrow> (drop_log f (drop_file f h), ms))"
  by (auto simp: check_step_def split: duty.split)

lemma check_fold:
  "foldl (check_step rpcAddr ns) (Some (h, ms)) fs = Some (h', ms') \<Longrightarrow>
     (\<forall>f. file_at h' f = (if f \<in> set fs \<and> replica_duty rpcAddr ns f = Some RemoveCopy then None else file_at h f)) \<and>
     (\<forall>f. log_at h' f = (if f \<in> set fs \<and> replica_duty rpcAddr ns f = Some RemoveCopy then None else log_at h f)) \<and>
     ms' = ms @ filter (\<lambda>f. replica_duty rpcAddr ns f = Some StartMerge) fs"
proof (induction fs arbitrary: h ms)
  case (Cons f fs)
  have none: "foldl (check_step rpcAddr ns) None fs = None"
    by (induction fs) (simp_all add: check_step_simps)
  from Cons.prems none obtain d where d: "replica_duty rpcAddr ns f = Some d"
    by (cases "replica_duty rpcAddr ns f") (auto simp: check_step_simps)
  note prem = Cons.prems [unfolded foldl_Cons check_step_simps(3) [OF d]]
  show ?case
  proof (cases d)
    case StartMerge
    with Cons.IH prem d show ?thesis by fastforce
  next
    case KeepReplica
    with Cons.IH prem d show ?thesis by fastforce
  next
    case RemoveCopy
    with Cons.IH [of "drop_log f (drop_file f h)" ms] prem d show ?thesis by auto
  qed
qed simp

lemma replica_duty_total:
  assumes "ns \<noteq> []"
  shows "\<exists>d. replica_duty rpcAddr ns f = Some d"
proof -
  obtain rs where rs: "GetSuccessor (HashFunc f) ns ReplicaNum = Some rs"
    using assms by (simp add: GetSuccessor_def Let_def)
  then have "rs \<noteq> []" using GetSuccessor_length [OF assms rs] by (auto simp: ReplicaNum_def)
  then show ?thesis unfolding replica_duty_def rs by (cases rs) simp_all
qed

lemma check_fold_total:
  assumes "ns \<noteq> []"
  shows "foldl (check_step rpcAddr ns) (Some st) fs \<noteq> None"
proof (induction fs arbitrary: st)
  case (Cons f fs)
  obtain d where "replica_duty rpcAddr ns f = Some d" using replica_duty_total [OF assms] by blast
  then show ?case using Cons.IH by (cases d; cases st) (auto simp: check_step_simps)
qed simp

lemma checkReplica_effect:
  assumes "checkReplica a ms h = Some (h', merges)"
  shows "file_at h' f = (if replica_duty a (sort_ring (GetRingInfo ms)) f = Some RemoveCopy then None else file_at h f)"
    and "f \<in> set merges \<longleftrightarrow> file_at h f \<noteq> None \<and> replica_duty a (sort_ring (GetRingInfo ms)) f = Some StartMerge"
proof -
  have listed: "f \<in> set (map fst (files h)) \<longleftrightarrow> file_at h f \<noteq> None" for f
    by (simp add: file_at_def map_of_eq_None_iff)
  note eff = check_fold [OF assms [unfolded checkReplica_def]]
  show "file_at h' f = (if replica_duty a (sort_ring (GetRingInfo ms)) f = Some RemoveCopy then None else file_at h f)"
    using eff listed [of f] by (cases "f \<in> set (map fst (files h))") auto
  show "f \<in> set merges \<longleftrightarrow> file_at h f \<noteq> None \<and> replica_duty a (sort_ring (GetRingInfo ms)) f = Some StartMerge"
    using eff listed [of f] by auto
qed

lemma replica_duty_placed:
  assumes "place_replicas ms f = Inr rs"
  shows "replica_duty a (sort_ring (GetRingInfo ms)) f =
    Some (if a \<notin> set (map NodeAddr rs) then RemoveCopy
          else if a = NodeAddr (hd rs) then StartMerge else KeepReplica)"
  using place_replicas_Inr(2) [OF assms] place_replicas_replicas(1) [OF assms]
  by (auto simp: replica_duty_def ReplicaNum_def split: list.split)

lemma checkReplica_placed:
  assumes "place_replicas ms f = Inr rs"
  shows "\<exists>h merges. checkReplica a ms h0 = Some (h, merges)
    \<and> file_at h f = (if a \<in> set (map NodeAddr rs) then file_at h0 f else None)
    \<and> (f \<in> set merges \<longleftrightarrow> file_at h0 f \<noteq> None \<and> a = NodeAddr (hd rs))"
proof -
  have ne: "rs \<noteq> []" using place_replicas_replicas(1) [OF assms] by (auto simp: ReplicaNum_def)
  have "GetRingInfo ms \<noteq> []" using place_replicas_Inr(1) [OF assms] by (auto simp: ReplicaNum_def)
  then have "checkReplica a ms h0 \<noteq> None"
    unfolding checkReplica_def by (intro check_fold_total) simp
  then obtain h merges where run: "checkReplica a ms h0 = Some (h, merges)" by auto
  show ?thesis
    using checkReplica_effect [OF run, of f] run ne
    unfolding replica_duty_placed [OF assms] by (auto simp: image_iff)
qed

lemma TriggerAppend_ack:
  assumes "TriggerAppend env got k opID (Some d) f c = Some (c', Reply okReply)"
    and "GetReplica got f = Inr rs" and "distinct (map NodeAddr rs)" and "length rs = ReplicaNum"
    and "k < ReplicaNum" and "n \<in> set rs"
  shows "\<exists>x. file_at (c (NodeAddr n)) f = Some x \<and> file_at (c' (NodeAddr n)) f = Some (x @ d)"
proof -
  let ?rest = "map (\<lambda>i. NodeAddr (rs ! i)) (filter (\<lambda>i. i \<noteq> k) [0..<ReplicaNum])"
  let ?args = "\<lparr>HyDFSFileName = f, LocalFile = d, NonPrimary = ?rest, OperationID = opID\<rparr>"
  obtain r where t: "through (eNet env) c (AppendFile env (NodeAddr (rs ! k)) ?args c) = (c', Reply r)" "success r"
    using assms(1,2,4)
    by (auto simp: TriggerAppend_def Let_def split: prod.splits outcome.splits if_splits)
  then have run: "AppendFile env (NodeAddr (rs ! k)) ?args c = (c', Reply r)" by (simp add: through_Reply)
  have inj: "inj_on (\<lambda>i. NodeAddr (rs ! i)) {0..<ReplicaNum}"
    using assms(3,4) by (auto simp: inj_on_def distinct_conv_nth) metis
  then have "distinct (NodeAddr (rs ! k) # ?rest)"
    using assms(5) by (auto simp: distinct_map inj_on_def)
  moreover have "NodeAddr n \<in> set (NodeAddr (rs ! k) # ?rest)"
    using assms(4,6) by (fastforce simp: in_set_conv_nth)
  ultimately show ?thesis
    using AppendFile_ack [OF run, of "NodeAddr n"] t(2) by (auto simp: acked_def)
qed

end
