(* ===== verification/Samples.thy ===== *)
theory Samples
  imports Store Merge
begin

text \<open>
  Concrete data on which the properties are exercised: three members and their ring, a cluster
  with a file \<open>''f''\<close> created through that ring, operations, and replicas whose logs differ.
\<close>

section \<open>Sample data\<close>

definition sample_members :: "member list" where
  "sample_members = [sample_member ''a'' ''h1:1'', sample_member ''b'' ''h2:1'', sample_member ''c'' ''h3:1'']"

definition sample_got :: fetched where
  "sample_got = Members sample_members"

definition sample_replicas :: "NodeInfo list" where
  "sample_replicas = [\<lparr>NodeID = 3826002220, NodeAddr = ''h1:9082''\<rparr>,
     \<lparr>NodeID = 3859557458, NodeAddr = ''h3:9082''\<rparr>, \<lparr>NodeID = 3876335077, NodeAddr = ''h2:9082''\<rparr>]"

lemma sample_replicas: "GetReplica sample_got ''f'' = Inr sample_replicas"
  by code_simp

lemma sample_ring: "ring_valid (GetRingInfo sample_members)"
  by code_simp

lemma sample_addrs:
  "map NodeAddr sample_replicas = [''h1:9082'', ''h3:9082'', ''h2:9082'']" "length sample_replicas = 3"
  by (simp_all add: sample_replicas_def)

text \<open>The file \<open>''f''\<close> created through the sample ring, and one append to it.\<close>

definition empty_cluster :: cluster where
  "empty_cluster = (\<lambda>_. empty_hnode)"

definition created_cluster :: cluster where
  "created_cluster = fst (CallHyDFSWrite goodEnv sample_got ''f'' ''hi'' CreateMethod ''o1'' empty_cluster)"

lemma sample_create:
  "CallHyDFSWrite goodEnv sample_got ''f'' ''hi'' CreateMethod ''o1'' empty_cluster = (created_cluster, Reply ())"
proof -
  have "snd (CallHyDFSWrite goodEnv sample_got ''f'' ''hi'' CreateMethod ''o1'' empty_cluster) = Reply ()"
    by code_simp
  then show ?thesis unfolding created_cluster_def by (metis prod.collapse)
qed

definition appended_cluster :: cluster where
  "appended_cluster = fst (CallHyDFSWrite goodEnv sample_got ''f'' ''!'' AppendMethod ''o2'' created_cluster)"

lemma sample_append:
  "CallHyDFSWrite goodEnv sample_got ''f'' ''!'' AppendMethod ''o2'' created_cluster = (appended_cluster, Reply ())"
proof -
  have "snd (CallHyDFSWrite goodEnv sample_got ''f'' ''!'' AppendMethod ''o2'' created_cluster) = Reply ()"
    by code_simp
  then show ?thesis unfolding appended_cluster_def by (metis prod.collapse)
qed

text \<open>Operations: two short ones and one whose data alone fill the scanner's buffer.\<close>

definition opA :: OperationLogEntry where "opA = \<lparr>OpID = ''o1'', Data = ''hi''\<rparr>"
definition opB :: OperationLogEntry where "opB = \<lparr>OpID = ''o2'', Data = ''!''\<rparr>"

definition big_op :: OperationLogEntry where
  "big_op = \<lparr>OpID = ''m'', Data = replicate maxTokenSize (CHR ''x'')\<rparr>"

lemma sample_small: "small opA" "small opB" "\<not> small big_op"
proof -
  have "length (marshal opA) < 100" "length (marshal opB) < 100" by code_simp+
  then show "small opA" "small opB" by (simp_all add: small_def maxTokenSize_def)
  show "\<not> small big_op" by (rule big_not_small) (simp add: big_op_def)
qed

text \<open>The three replicas of \<open>''f''\<close> with different logs: each missed some operations.\<close>

definition node_with :: "OperationLogEntry list \<Rightarrow> hnode" where
  "node_with es = \<lparr>files = [(''f'', concat (map Data es))], logs = [(''f'', log_text es)], fileMetadata = []\<rparr>"

definition diverged :: cluster where
  "diverged = (\<lambda>a. node_with (if a = ''h1:9082'' then [opA] else if a = ''h3:9082'' then [opB, opA] else [opB]))"

lemma node_with_holds: "holds_ops (node_with es) ''f'' es" "\<not> is_locked (node_with es) g"
  by (simp_all add: node_with_def holds_ops_def disk_defs is_locked_def)

lemma sample_schedule: "valid_schedule 3 [Poll 1, Poll 0, Collect 1, Poll 2, Collect 2, Collect 0]"
proof -
  have "\<forall>i\<in>set [0..<3]. filter (\<lambda>ev. goroutine ev = i) [Poll 1, Poll 0, Collect 1, Poll 2, Collect 2, Collect 0]
      = [Poll i, Collect i]" by code_simp
  then show ?thesis by (simp add: valid_schedule_def)
qed

end
