(* ===== verification/ExactlyOnce.thy ===== *)
theory ExactlyOnce
  imports Delivery Samples
begin

text \<open>
  What the dedup machinery achieves. A task sees a sequence of events: tuples pushed to it,
  whatever their environments, and lines replayed from a log. The trace of a run is the list
  of (identifier, value) pairs that were written to the operator.
\<close>

datatype tevent = Push penv StreamTuple | Replay bool "string \<times> string"

fun do_event :: "tevent \<Rightarrow> RainStormTask \<times> cluster \<Rightarrow> (RainStormTask \<times> cluster) \<times> (string \<times> string) list" where
  "do_event (Push env tuple) (task, c) =
     (let (task', c') = fst (push_one env tuple (task, c)) in
      ((task', c'),
       if MessageID tuple \<in> ProcessedIDs task' - ProcessedIDs task then [(MessageID tuple, Value tuple)] else []))"
| "do_event (Replay check line) (task, c) =
     ((replay_line check Written line task, c),
      if stdinOpen task \<and> (check \<longrightarrow> fst line \<notin> ProcessedIDs task) then [line] else [])"

fun run_events :: "tevent list \<Rightarrow> RainStormTask \<times> cluster \<Rightarrow> (RainStormTask \<times> cluster) \<times> (string \<times> string) list" where
  "run_events [] st = (st, [])"
| "run_events (e # es) st =
     (case do_event e st of (st1, d) \<Rightarrow> (case run_events es st1 of (st2, ds) \<Rightarrow> (st2, d @ ds)))"

text \<open>The pipe takes a line or refuses it: no event tears a line.\<close>

fun whole_lines :: "tevent \<Rightarrow> bool" where
  "whole_lines (Push env _) \<longleftrightarrow> pPipe env \<in> {Written, Refused}"
| "whole_lines (Replay _ _) \<longleftrightarrow> True"

fun is_push :: "tevent \<Rightarrow> bool" where
  "is_push (Push _ _) \<longleftrightarrow> True"
| "is_push (Replay _ _) \<longleftrightarrow> False"

definition pushed :: "(string \<times> string) list \<Rightarrow> string" where
  "pushed tr = unlines (map snd tr)"

lemma pushed_simps [simp]: "pushed [] = []" "pushed (a @ b) = pushed a @ pushed b"
  "pushed [(i, v)] = v @ [NL]"
  by (simp_all add: pushed_def)

section \<open>One event\<close>

lemma push_one_cases:
  assumes "push_one env tuple (task, c) = ((task', c'), r)"
  shows "ProcessedIDs task' = (if MessageID tuple \<in> ProcessedIDs task' then insert (MessageID tuple) (ProcessedIDs task)
           else ProcessedIDs task)"
    and "pPipe env \<in> {Written, Refused} \<Longrightarrow> Stdin task' = Stdin task @
      pushed (if MessageID tuple \<in> ProcessedIDs task' - ProcessedIDs task then [(MessageID tuple, Value tuple)] else [])"
    and "r = Reply okReply \<Longrightarrow> \<not> IsEOS tuple \<Longrightarrow> MessageID tuple \<in> ProcessedIDs task'"
    and "MessageID tuple \<in> ProcessedIDs task \<Longrightarrow> \<not> IsEOS tuple \<Longrightarrow> task' = task \<and> c' = c \<and> r = Reply okReply"
    and "DedupHYDFSFile task' = DedupHYDFSFile task"
  using assms
  by (auto simp: push_one_def Let_def write_stdin_def split: if_splits prod.splits outcome.splits)

lemma do_event_ids:
  assumes "do_event e (task, c) = ((task', c'), d)"
  shows "ProcessedIDs task \<subseteq> ProcessedIDs task'"
    and "is_push e \<Longrightarrow> ProcessedIDs task' = ProcessedIDs task \<union> fst ` set d"
    and "is_push e \<Longrightarrow> length d \<le> 1 \<and> fst ` set d \<inter> ProcessedIDs task = {}"
    and "whole_lines e \<Longrightarrow> Stdin task' = Stdin task @ pushed d"
    and "DedupHYDFSFile task' = DedupHYDFSFile task"
proof -
  have "ProcessedIDs task \<subseteq> ProcessedIDs task' \<and>
    (is_push e \<longrightarrow> ProcessedIDs task' = ProcessedIDs task \<union> fst ` set d) \<and>
    (is_push e \<longrightarrow> length d \<le> 1 \<and> fst ` set d \<inter> ProcessedIDs task = {}) \<and>
    (whole_lines e \<longrightarrow> Stdin task' = Stdin task @ pushed d) \<and>
    DedupHYDFSFile task' = DedupHYDFSFile task"
  proof (cases e)
    case (Push env tuple)
    obtain r where run: "push_one env tuple (task, c) = ((task', c'), r)"
      using assms Push by (cases "push_one env tuple (task, c)") (auto simp: Let_def split: prod.splits)
    have d: "d = (if MessageID tuple \<in> ProcessedIDs task' - ProcessedIDs task
        then [(MessageID tuple, Value tuple)] else [])"
      using assms Push run by (auto simp: Let_def)
    note cases = push_one_cases [OF run]
    show ?thesis using cases(1,2,5) Push unfolding d by (auto split: if_splits)
  next
    case (Replay check line)
    then show ?thesis using assms
      by (auto simp: replay_line_def write_stdin_def split: prod.splits if_splits)
  qed
  then show "ProcessedIDs task \<subseteq> ProcessedIDs task'"
    and "is_push e \<Longrightarrow> ProcessedIDs task' = ProcessedIDs task \<union> fst ` set d"
    and "is_push e \<Longrightarrow> length d \<le> 1 \<and> fst ` set d \<inter> ProcessedIDs task = {}"
    and "whole_lines e \<Longrightarrow> Stdin task' = Stdin task @ pushed d"
    and "DedupHYDFSFile task' = DedupHYDFSFile task"
    by blast+
qed

section \<open>Whole runs\<close>

lemma run_events_step:
  assumes "run_events (e # es) (task, c) = ((task', c'), tr)"
  shows "\<exists>task1 c1 d ds. do_event e (task, c) = ((task1, c1), d) \<and>
    run_events es (task1, c1) = ((task', c'), ds) \<and> tr = d @ ds"
proof -
  obtain task1 c1 d where 1: "do_event e (task, c) = ((task1, c1), d)" by (metis surj_pair)
  obtain ds where "run_events es (task1, c1) = ((task', c'), ds)" "tr = d @ ds"
    using assms 1 by (auto split: prod.splits)
  with 1 show ?thesis by blast
qed

lemma run_events_stdin:
  assumes "run_events es (task, c) = ((task', c'), tr)" and "\<forall>e\<in>set es. whole_lines e"
  shows "Stdin task' = Stdin task @ pushed tr"
  using assms
proof (induction es arbitrary: task c tr)
  case (Cons e es)
  obtain task1 c1 d ds where s: "do_event e (task, c) = ((task1, c1), d)"
    "run_events es (task1, c1) = ((task', c'), ds)" "tr = d @ ds" 
    using run_events_step [OF Cons.prems(1)] by blast
  have "Stdin task' = Stdin task1 @ pushed ds" using Cons.IH [OF s(2)] Cons.prems(2) by simp
  moreover have "Stdin task1 = Stdin task @ pushed d" using do_event_ids(4) [OF s(1)] Cons.prems(2) by simp
  ultimately show ?case unfolding s(3) by (simp only: pushed_simps append_assoc)
qed (simp add: pushed_def)

text \<open>Pushes alone: every identifier is written at most once, and exactly the new ones are.\<close>

lemma run_pushes:
  assumes "run_events es (task, c) = ((task', c'), tr)" and "\<forall>e\<in>set es. is_push e"
  shows "distinct (map fst tr) \<and> fst ` set tr \<inter> ProcessedIDs task = {} \<and>
    ProcessedIDs task' = ProcessedIDs task \<union> fst ` set tr"
  using assms
proof (induction es arbitrary: task c tr)
  case (Cons e es)
  obtain task1 c1 d ds where s: "do_event e (task, c) = ((task1, c1), d)"
    "run_events es (task1, c1) = ((task', c'), ds)" "tr = d @ ds" 
    using run_events_step [OF Cons.prems(1)] by blast
  have "length d \<le> 1" "fst ` set d \<inter> ProcessedIDs task = {}" "ProcessedIDs task1 = ProcessedIDs task \<union> fst ` set d"
    using do_event_ids(2,3) [OF s(1)] Cons.prems(2) by auto
  moreover have "distinct (map fst ds) \<and> fst ` set ds \<inter> ProcessedIDs task1 = {} \<and>
      ProcessedIDs task' = ProcessedIDs task1 \<union> fst ` set ds"
    using Cons.IH [OF s(2)] Cons.prems(2) by simp
  moreover have "distinct (map fst d)" using calculation(1) by (cases d; cases "tl d") auto
  ultimately show ?case unfolding s(3) by auto
qed simp

text \<open>
  A replay without the dedup check, interleaved with pushes in any way: the replayed lines
  are all written, in order, and the pushed identifiers are new and different.
\<close>

definition replayed :: "tevent list \<Rightarrow> (string \<times> string) list" where
  "replayed es = concat (map (\<lambda>e. case e of Replay _ l \<Rightarrow> [l] | _ \<Rightarrow> []) es)"

fun replays_all :: "tevent \<Rightarrow> bool" where
  "replays_all (Replay check _) \<longleftrightarrow> \<not> check"
| "replays_all (Push _ tuple) \<longleftrightarrow> \<not> IsEOS tuple"

lemma push_open: "fst (push_one env tuple (task, c)) = (task', c') \<Longrightarrow> \<not> IsEOS tuple \<Longrightarrow> stdinOpen task' = stdinOpen task"
  by (auto simp: push_one_def Let_def write_stdin_def split: if_splits prod.splits outcome.splits)

lemma run_recovery:
  assumes "run_events es (task, c) = ((task', c'), tr)" and "\<forall>e\<in>set es. replays_all e"
    and "stdinOpen task"
  shows "\<exists>new. mset tr = mset (replayed es) + mset new \<and> distinct (map fst new) \<and>
    fst ` set new \<inter> ProcessedIDs task = {} \<and> ProcessedIDs task' = ProcessedIDs task \<union> fst ` set new"
  using assms
proof (induction es arbitrary: task c tr)
  case (Cons e es)
  obtain task1 c1 d ds where s: "do_event e (task, c) = ((task1, c1), d)"
    "run_events es (task1, c1) = ((task', c'), ds)" "tr = d @ ds" 
    using run_events_step [OF Cons.prems(1)] by blast
  have op: "stdinOpen task1"
    using s(1) Cons.prems(2,3)
    by (cases e) (auto simp: push_open replay_line_def write_stdin_def Let_def split: prod.splits if_splits)
  obtain new where new: "mset ds = mset (replayed es) + mset new" "distinct (map fst new)"
    "fst ` set new \<inter> ProcessedIDs task1 = {}" "ProcessedIDs task' = ProcessedIDs task1 \<union> fst ` set new"
    using Cons.IH [OF s(2) _ op] Cons.prems(2) by auto
  show ?case
  proof (cases e)
    case (Push env tuple)
    then have d: "length d \<le> 1" "fst ` set d \<inter> ProcessedIDs task = {}"
      "ProcessedIDs task1 = ProcessedIDs task \<union> fst ` set d"
      using do_event_ids(2,3) [OF s(1)] by auto
    moreover have "distinct (map fst d)" using d(1) by (cases d; cases "tl d") auto
    moreover have "mset tr = mset (replayed (e # es)) + mset (d @ new)"
      using new(1) s(3) Push by (simp add: replayed_def)
    ultimately show ?thesis using new(2-4) by (intro exI [of _ "d @ new"]) auto
  next
    case (Replay check line)
    then have "d = [line]" "ProcessedIDs task1 = ProcessedIDs task"
      using s(1) Cons.prems(2,3) by (auto simp: replay_line_def write_stdin_def split: prod.splits)
    moreover have "mset tr = mset (replayed (e # es)) + mset new"
      using new(1) s(3) calculation(1) Replay by (simp add: replayed_def)
    ultimately show ?thesis using new(2-4) by (intro exI [of _ new]) auto
  qed
qed (simp add: replayed_def)


section \<open>The dedup log follows the trace\<close>

definition entry :: "string \<times> string \<Rightarrow> string" where
  "entry l = log_entry (fst l) (snd l)"

text \<open>
  The log as one member list sees it: an acknowledged append is one more line; anything else
  leaves at most some bytes at the end.
\<close>

lemma push_one_log:
  assumes "push_one env tuple (task, c) = ((task', c'), r)" and "pGot env = got"
    and "stored got c (DedupHYDFSFile task) = Some x"
  shows "\<exists>y. stored got c' (DedupHYDFSFile task) = Some (x @ y) \<and>
    (MessageID tuple \<in> ProcessedIDs task' - ProcessedIDs task \<longrightarrow> y = log_entry (MessageID tuple) (Value tuple))"
proof (cases "IsEOS tuple \<or> MessageID tuple \<in> ProcessedIDs task \<or> DedupHYDFSFile task = []")
  case True
  then have "c' = c" "ProcessedIDs task' = ProcessedIDs task"
    using assms(1) by (auto simp: push_one_def Let_def split: if_splits)
  then show ?thesis using assms(3) by simp
next
  case False
  let ?w = "CallHyDFSWrite (pWrite env) got (DedupHYDFSFile task)
    (log_entry (MessageID tuple) (Value tuple)) AppendMethod
    (''dedup-'' @ show_int (pNow env) @ ''-'' @ MessageID tuple) c"
  obtain c1 r1 where w: "?w = (c1, r1)" by fastforce
  have c': "c' = c1" and new: "MessageID tuple \<in> ProcessedIDs task' \<Longrightarrow> r1 = Reply ()"
    using assms(1,2) w False
    by (auto simp: push_one_def write_stdin_def split: if_splits prod.splits outcome.splits)
  have "\<exists>y. stored got c1 (DedupHYDFSFile task) = Some (x @ y)"
    using hydfs.append_grows [where e = "(pWrite env, ''dedup-'' @ show_int (pNow env) @ ''-'' @ MessageID tuple)"] w assms(3)
    by simp
  moreover have "r1 = Reply () \<Longrightarrow> stored got c1 (DedupHYDFSFile task) = Some (x @ log_entry (MessageID tuple) (Value tuple))"
    using hydfs.append_ok [where e = "(pWrite env, ''dedup-'' @ show_int (pNow env) @ ''-'' @ MessageID tuple)"] w assms(3)
    by simp
  ultimately show ?thesis using c' new by auto
qed

text \<open>
  Every event is a push seen with the same member list, and one that did not write to the
  operator left no bytes in the log (no failed append reached the primary's disk).
\<close>

fun clean_run :: "fetched \<Rightarrow> tevent list \<Rightarrow> RainStormTask \<times> cluster \<Rightarrow> bool" where
  "clean_run got [] st \<longleftrightarrow> True"
| "clean_run got (Replay _ _ # es) st \<longleftrightarrow> False"
| "clean_run got (Push env tuple # es) st \<longleftrightarrow>
     (case do_event (Push env tuple) st of (st', d) \<Rightarrow>
        pGot env = got \<and>
        (d = [] \<longrightarrow> stored got (snd st') (DedupHYDFSFile (fst st)) = stored got (snd st) (DedupHYDFSFile (fst st))) \<and>
        clean_run got es st')"

lemma clean_run_pushes: "clean_run got es st \<Longrightarrow> \<forall>e\<in>set es. is_push e"
proof (induction es arbitrary: st)
  case (Cons e es)
  then show ?case by (cases e) (auto split: prod.splits)
qed simp

lemma clean_run_log:
  assumes "run_events es (task, c) = ((task', c'), tr)" and "clean_run got es (task, c)"
    and "stored got c (DedupHYDFSFile task) = Some x"
  shows "stored got c' (DedupHYDFSFile task) = Some (x @ concat (map entry tr))"
  using assms
proof (induction es arbitrary: task c tr x)
  case (Cons e es)
  obtain env tuple where e: "e = Push env tuple" using Cons.prems(2) by (cases e) auto
  obtain task1 c1 d ds where s: "do_event e (task, c) = ((task1, c1), d)"
    "run_events es (task1, c1) = ((task', c'), ds)" "tr = d @ ds"
    using run_events_step [OF Cons.prems(1)] by blast
  have clean: "pGot env = got" "clean_run got es (task1, c1)"
    "d = [] \<Longrightarrow> stored got c1 (DedupHYDFSFile task) = stored got c (DedupHYDFSFile task)"
    using Cons.prems(2) s(1) e by (auto split: prod.splits)
  obtain r where run: "push_one env tuple (task, c) = ((task1, c1), r)"
    using s(1) e by (cases "push_one env tuple (task, c)") (auto simp: Let_def split: prod.splits)
  have d: "d = (if MessageID tuple \<in> ProcessedIDs task1 - ProcessedIDs task
      then [(MessageID tuple, Value tuple)] else [])"
    using s(1) e run by (auto simp: Let_def)
  have "stored got c1 (DedupHYDFSFile task) = Some (x @ concat (map entry d))"
  proof (cases "d = []")
    case True
    then show ?thesis using clean(3) Cons.prems(3) by simp
  next
    case False
    then show ?thesis
      using push_one_log [OF run clean(1) Cons.prems(3)] d by (auto simp: entry_def split: if_splits)
  qed
  moreover have "DedupHYDFSFile task1 = DedupHYDFSFile task" by (rule do_event_ids(5) [OF s(1)])
  ultimately show ?case using Cons.IH [OF s(2) clean(2)] s(3) by simp
qed simp

section \<open>Reading the log back\<close>

definition good_entry :: "string \<times> string \<Rightarrow> bool" where
  "good_entry l \<longleftrightarrow> fst l \<noteq> [] \<and> (\<forall>c\<in>set (fst l). \<not> is_space c) \<and> scannable (fst l @ TAB # snd l)"

lemma entries_unlines: "concat (map entry tr) = unlines (map (\<lambda>l. fst l @ TAB # snd l) tr)"
  by (induction tr) (simp_all add: entry_def log_entry_def)

lemma scan_entries:
  "\<forall>l\<in>set tr. good_entry l \<Longrightarrow> scan_lines (concat (map entry tr)) = map (\<lambda>l. fst l @ TAB # snd l) tr"
  unfolding entries_unlines by (rule scan_lines_unlines) (auto simp: good_entry_def)

lemma split_entry: "good_entry l \<Longrightarrow> splitn2 TAB (fst l @ TAB # snd l) = [fst l, snd l]"
  by (rule splitn2_hit) (auto simp: good_entry_def is_space_def)

lemma log_parts_entries: "\<forall>l\<in>set tr. good_entry l \<Longrightarrow> log_parts (map (\<lambda>l. fst l @ TAB # snd l) tr) = tr"
  by (induction tr) (simp_all add: split_entry)

lemma trim_space_id: "\<forall>c\<in>set s. \<not> is_space c \<Longrightarrow> trim_space s = s"
proof -
  assume s: "\<forall>c\<in>set s. \<not> is_space c"
  then have "dropWhile is_space s = s" by (cases s) auto
  moreover have "dropWhile is_space (rev s) = rev s" using s by (cases "rev s") (auto dest: arg_cong [where f = set])
  ultimately show ?thesis by (simp add: trim_space_def trim_chars_def)
qed

lemma recovered_entries:
  assumes "\<forall>l\<in>set tr. good_entry l"
  shows "recovered_ids (concat (map entry tr)) = fst ` set tr"
proof -
  have "trim_space (hd (splitn2 TAB (fst l @ TAB # snd l))) = fst l" "fst l \<noteq> []" if "l \<in> set tr" for l
    using assms that split_entry [of l] trim_space_id [of "fst l"] by (auto simp: good_entry_def)
  then show ?thesis unfolding recovered_ids_def scan_entries [OF assms] by (force simp: image_iff)
qed

lemma replay_lines_stdin:
  "stdinOpen task \<Longrightarrow> Stdin (replay_lines False tr task) = Stdin task @ pushed tr
     \<and> ProcessedIDs (replay_lines False tr task) = ProcessedIDs task"
proof (induction tr arbitrary: task)
  case (Cons l tr)
  let ?t = "replay_line False Written l task"
  have "stdinOpen ?t" "Stdin ?t = Stdin task @ pushed [l]" "ProcessedIDs ?t = ProcessedIDs task"
    using Cons.prems by (auto simp: replay_line_def write_stdin_def pushed_def split: prod.splits)
  then show ?case using Cons.IH [of ?t] by (simp add: replay_lines_def pushed_def)
qed (simp add: replay_lines_def)

lemma replay_entries:
  assumes "\<forall>l\<in>set tr. good_entry l" and "stdinOpen task"
  shows "Stdin (replayLogData False (concat (map entry tr)) task) = Stdin task @ pushed tr"
  using replay_lines_stdin [OF assms(2), of tr]
  by (simp add: replayLogData_def scan_entries [OF assms(1)] log_parts_entries [OF assms(1)])


section \<open>A sample task\<close>

definition sample_args :: StartTaskArgs where
  "sample_args = \<lparr>RSID = ''rs'', StageID = 1, TaskID = 0, OpExe = ''op0'', OpArgs = [], IsLastStage = False,
     HyDFSOutput = ''out'', DownstreamTasks = [], ExactlyOnce = True, NumUpstream = 1, HyDFSDedupLog = ''f''\<rparr>"

definition sample_task :: RainStormTask where
  "sample_task = newTask sample_args {}"

text \<open>The dedup log \<open>''f''\<close>, created empty.\<close>

definition log_cluster :: cluster where
  "log_cluster = fst (CallHyDFSWrite goodEnv sample_got ''f'' [] CreateMethod ''o1'' empty_cluster)"

definition good_push :: penv where
  "good_push = \<lparr>pWrite = goodEnv, pGot = sample_got, pNow = 0, pPipe = Written\<rparr>"

text \<open>A push whose append never reaches the primary, and a pipe that refuses.\<close>

definition lost_push :: penv where
  "lost_push = good_push\<lparr>pWrite := goodEnv\<lparr>eNet := Unreachable\<rparr>\<rparr>"

definition sample_tuple :: "string \<Rightarrow> string \<Rightarrow> StreamTuple" where
  "sample_tuple i v = \<lparr>Key = v, Value = v, MessageID = i, IsEOS = False\<rparr>"

text \<open>Two tuples, one refused at first and one sent twice.\<close>

definition sample_events :: "tevent list" where
  "sample_events = [Push lost_push (sample_tuple ''1-0-1'' ''x''), Push good_push (sample_tuple ''1-0-2'' ''y''),
     Push good_push (sample_tuple ''1-0-2'' ''y''), Push good_push (sample_tuple ''1-0-1'' ''x'')]"

definition sample_end :: "RainStormTask \<times> cluster" where
  "sample_end = fst (run_events sample_events (sample_task, log_cluster))"

lemma sample_run:
  "run_events sample_events (sample_task, log_cluster) = ((fst sample_end, snd sample_end), [(''1-0-2'', ''y''), (''1-0-1'', ''x'')])"
proof -
  have "snd (run_events sample_events (sample_task, log_cluster)) = [(''1-0-2'', ''y''), (''1-0-1'', ''x'')]"
    by code_simp
  then show ?thesis unfolding sample_end_def by (metis prod.collapse)
qed

section \<open>Pushes\<close>

lemma run_events_append:
  "run_events (es @ es') st =
     (case run_events es st of (st1, d) \<Rightarrow> (case run_events es' st1 of (st2, ds) \<Rightarrow> (st2, d @ ds)))"
  by (induction es arbitrary: st) (auto split: prod.splits)

lemma run_from_real_pushes:
  assumes "run_events es (task, c) = ((task', c'), tr)" and "\<forall>e\<in>set es. is_push e"
  shows "\<forall>l\<in>set tr. \<exists>env tuple. Push env tuple \<in> set es \<and> \<not> IsEOS tuple \<and> l = (MessageID tuple, Value tuple)"
  using assms
proof (induction es arbitrary: task c tr)
  case (Cons e es)
  obtain env tuple where e: "e = Push env tuple" using Cons.prems(2) by (cases e) auto
  obtain task1 c1 d ds where s: "do_event e (task, c) = ((task1, c1), d)"
    "run_events es (task1, c1) = ((task', c'), ds)" "tr = d @ ds"
    using run_events_step [OF Cons.prems(1)] by blast
  have "IsEOS tuple \<Longrightarrow> d = []"
    using s(1) e by (auto simp: Let_def push_one_def split: prod.splits if_splits)
  moreover have "set d \<subseteq> {(MessageID tuple, Value tuple)}" using s(1) e by (auto simp: Let_def split: prod.splits if_splits)
  moreover have "\<forall>l\<in>set ds. \<exists>env tuple. Push env tuple \<in> set es \<and> \<not> IsEOS tuple \<and> l = (MessageID tuple, Value tuple)"
    using Cons.IH [OF s(2)] Cons.prems(2) by simp
  ultimately show ?case using e s(3) by (cases "IsEOS tuple") fastforce+
qed simp

text \<open>
  C1. Pushes are exactly once. Whatever the senders retry, duplicate or reorder, and whichever
  appends to the dedup log or writes to the operator fail, the operator's input grows by the
  values of tuples that were pushed, whole lines, each message identifier at most once and none
  that was processed before; and a tuple whose push was acknowledged is among them or had been
  processed before the run.
\<close>

theorem pushes_exactly_once:
  assumes "run_events es (task, c) = ((task', c'), tr)"
    and "\<forall>e\<in>set es. is_push e \<and> whole_lines e"
  shows "Stdin task' = Stdin task @ unlines (map snd tr)
    \<and> distinct (map fst tr) \<and> fst ` set tr \<inter> ProcessedIDs task = {}
    \<and> (\<forall>l\<in>set tr. \<exists>env tuple. Push env tuple \<in> set es \<and> l = (MessageID tuple, Value tuple))
    \<and> (\<forall>pre env tuple post. es = pre @ Push env tuple # post \<and> \<not> IsEOS tuple \<and>
         snd (push_one env tuple (fst (run_events pre (task, c)))) = Reply okReply \<longrightarrow>
         MessageID tuple \<in> ProcessedIDs task \<union> fst ` set tr)"
proof -
  have push: "\<forall>e\<in>set es. is_push e" and whole: "\<forall>e\<in>set es. whole_lines e" using assms(2) by simp_all
  note ids = run_pushes [OF assms(1) push]
  have "MessageID tuple \<in> ProcessedIDs task \<union> fst ` set tr"
    if es: "es = pre @ Push env tuple # post" and "\<not> IsEOS tuple"
      and ack: "snd (push_one env tuple (fst (run_events pre (task, c)))) = Reply okReply" for pre env tuple post
  proof -
    obtain task1 c1 d1 where pre: "run_events pre (task, c) = ((task1, c1), d1)" by (metis surj_pair)
    obtain task2 c2 where one: "push_one env tuple (task1, c1) = ((task2, c2), Reply okReply)"
      using ack pre by (metis fst_conv prod.collapse)
    have "MessageID tuple \<in> ProcessedIDs task2" by (rule push_one_cases(3) [OF one refl that(2)])
    moreover obtain d3 where post: "run_events post (task2, c2) = ((task', c'), d3)"
      using assms(1) one pre unfolding es run_events_append by (auto simp: Let_def split: prod.splits)
    have "\<forall>e\<in>set post. is_push e" using push es by simp
    from run_pushes [OF post this] have "ProcessedIDs task2 \<subseteq> ProcessedIDs task'" by blast
    ultimately show ?thesis using ids by blast
  qed
  moreover have "\<forall>l\<in>set tr. \<exists>env tuple. Push env tuple \<in> set es \<and> l = (MessageID tuple, Value tuple)"
    using run_from_real_pushes [OF assms(1) push] by blast
  moreover have "Stdin task' = Stdin task @ unlines (map snd tr)"
    using run_events_stdin [OF assms(1) whole] by (simp add: pushed_def)
  ultimately show ?thesis using ids by blast
qed

theorem pushes_exactly_once_witness:
  "Stdin (fst sample_end) = Stdin sample_task @ unlines [''y'', ''x'']"
proof -
  have "\<forall>e\<in>set sample_events. is_push e \<and> whole_lines e"
    by (simp add: sample_events_def lost_push_def good_push_def)
  from pushes_exactly_once [OF sample_run this] show ?thesis by simp
qed

section \<open>Restart\<close>



lemma replay_duplicates:
  assumes "good_entry l" and "stdinOpen task"
  shows "Stdin (replayLogData False (entry l @ entry l) task) = Stdin task @ snd l @ [NL] @ snd l @ [NL]"
proof -
  have two: "entry l @ entry l = concat (map entry [l, l])" and g: "\<forall>k\<in>set [l, l]. good_entry k"
    using assms(1) by simp_all
  show ?thesis unfolding two replay_entries [OF g assms(2)] by (simp add: pushed_def)
qed

text \<open>
  C37. A lost acknowledgement of the log is replayed twice. When the append of a push reaches the
  log but is reported as failed, the push fails and its retry appends the line again. The
  running operator gets the value once, but an operator restarted from that log gets it twice.
\<close>

theorem lost_append_replayed_twice:
  assumes first: "push_one env1 tuple (task, c) = ((task1, c1), Reply s1)" "\<not> success s1" "pPipe env1 = Refused"
    and landed: "stored got c1 (DedupHYDFSFile task) = Some (entry (MessageID tuple, Value tuple))"
    and retry: "push_one env2 tuple (task1, c1) = ((task2, c2), Reply okReply)" "pGot env2 = got" "pPipe env2 = Written"
    and tuple: "\<not> IsEOS tuple" "MessageID tuple \<notin> ProcessedIDs task" "good_entry (MessageID tuple, Value tuple)"
    and new: "stdinOpen restarted" "Stdin restarted = []"
  shows "Stdin task2 = Stdin task @ Value tuple @ [NL] \<and>
    (\<exists>log. stored got c2 (DedupHYDFSFile task) = Some log \<and>
       Stdin (replayLogData False log restarted) = Value tuple @ [NL] @ Value tuple @ [NL])"
proof -
  note one = push_one_cases [OF first(1)]
  have "r = okReply" if "Reply s1 = Reply r" "MessageID tuple \<in> ProcessedIDs task1" for r
    using first(1,2) tuple(1,2) that
    by (auto simp: push_one_def write_stdin_def split: if_splits prod.splits outcome.splits)
  then have "MessageID tuple \<notin> ProcessedIDs task1" using first(2) by auto
  then have old: "ProcessedIDs task1 = ProcessedIDs task" "Stdin task1 = Stdin task" "DedupHYDFSFile task1 = DedupHYDFSFile task"
    using one(1,2,5) first(3) by (auto split: if_splits)
  note two = push_one_cases [OF retry(1)]
  have seen: "MessageID tuple \<in> ProcessedIDs task2 - ProcessedIDs task1"
    using two(3) tuple(1,2) old(1) by simp
  then have "Stdin task2 = Stdin task @ Value tuple @ [NL]"
    using two(2) retry(3) old(2) by simp
  moreover have "stored got c2 (DedupHYDFSFile task) = Some (entry (MessageID tuple, Value tuple) @ entry (MessageID tuple, Value tuple))"
    using push_one_log [OF retry(1,2)] landed seen old(3) by (auto simp: entry_def)
  ultimately show ?thesis
    using replay_duplicates [OF tuple(3) new(1)] new(2) by simp
qed

theorem lost_append_replayed_twice_witness:
  "let tuple = sample_tuple ''1-0-1'' ''x'';
       first = fst (push_one (lost_push\<lparr>pWrite := goodEnv\<lparr>eNet := ReplyLost\<rparr>, pPipe := Refused\<rparr>) tuple (sample_task, log_cluster));
       second = fst (push_one good_push tuple first)
   in Stdin (fst second) = ''x'' @ [NL] \<and>
     (\<exists>log. stored sample_got (snd second) ''f'' = Some log \<and>
        Stdin (replayLogData False log sample_task) = ''x'' @ [NL] @ ''x'' @ [NL])"
proof -
  let ?tuple = "sample_tuple ''1-0-1'' ''x''"
  let ?env = "lost_push\<lparr>pWrite := goodEnv\<lparr>eNet := ReplyLost\<rparr>, pPipe := Refused\<rparr>"
  define first where "first = push_one ?env ?tuple (sample_task, log_cluster)"
  define second where "second = push_one good_push ?tuple (fst first)"
  have "snd (push_one ?env ?tuple (sample_task, log_cluster)) = Reply (failReply ''Failed to persist dedup log: connection lost'')"
    by code_simp
  then have one: "push_one ?env ?tuple (sample_task, log_cluster)
      = ((fst (fst first), snd (fst first)), Reply (failReply ''Failed to persist dedup log: connection lost''))"
    unfolding first_def by (metis prod.collapse)
  have "snd (push_one good_push ?tuple (fst (push_one ?env ?tuple (sample_task, log_cluster)))) = Reply okReply"
    by code_simp
  then have two: "push_one good_push ?tuple (fst (fst first), snd (fst first)) = ((fst (fst second), snd (fst second)), Reply okReply)"
    unfolding second_def first_def by (metis prod.collapse)
  have "stored sample_got (snd (fst (push_one ?env ?tuple (sample_task, log_cluster)))) ''f'' = Some (entry (''1-0-1'', ''x''))"
    by code_simp
  then have landed: "stored sample_got (snd (fst first)) (DedupHYDFSFile sample_task) = Some (entry (MessageID ?tuple, Value ?tuple))"
    by (simp add: first_def sample_task_def newTask_def sample_args_def sample_tuple_def)
  have envs: "\<not> success (failReply ''Failed to persist dedup log: connection lost'')" "pPipe ?env = Refused"
    "pGot good_push = sample_got" "pPipe good_push = Written"
    by (simp_all add: good_push_def)
  have tuple: "\<not> IsEOS ?tuple" "MessageID ?tuple \<notin> ProcessedIDs sample_task" "good_entry (MessageID ?tuple, Value ?tuple)"
    by (simp_all add: sample_tuple_def sample_task_def newTask_def good_entry_def scannable_def is_space_def maxTokenSize_def)
  have new: "stdinOpen sample_task" "Stdin sample_task = []" by (simp_all add: sample_task_def newTask_def)
  have dedup: "DedupHYDFSFile sample_task = ''f''" by (simp add: sample_task_def newTask_def sample_args_def)
  have val: "Value ?tuple = ''x''" by (simp add: sample_tuple_def)
  have "Stdin (fst (fst second)) = ''x'' @ [NL] \<and>
     (\<exists>log. stored sample_got (snd (fst second)) ''f'' = Some log \<and>
        Stdin (replayLogData False log sample_task) = ''x'' @ [NL] @ ''x'' @ [NL])"
    using lost_append_replayed_twice [OF one envs(1,2) landed two envs(3,4) tuple new] new(2)
    unfolding dedup val by simp
  then show ?thesis
    unfolding Let_def first_def [symmetric] second_def [symmetric] .
qed

section \<open>What a restarted task emits\<close>

definition emit :: "int \<Rightarrow> int \<Rightarrow> string list \<Rightarrow> StreamTuple list" where
  "emit stageID taskID outs =
     map (\<lambda>i. out_tuple stageID taskID (1 + int i) (outs ! i)) [0..<length outs]"

lemma emit_append: "\<exists>more. emit s t (outs @ outs') = emit s t outs @ more"
proof -
  have "[0..<length (outs @ outs')] = [0..<length outs] @ [length outs..<length outs + length outs']"
    unfolding length_append by (rule upt_add_eq_append) simp
  moreover have "map (\<lambda>i. out_tuple s t (1 + int i) ((outs @ outs') ! i)) [0..<length outs] = emit s t outs"
    by (simp add: emit_def nth_append)
  ultimately have "emit s t (outs @ outs') = emit s t outs @
      map (\<lambda>i. out_tuple s t (1 + int i) ((outs @ outs') ! i)) [length outs..<length outs + length outs']"
    unfolding emit_def by (simp only: map_append)
  then show ?thesis by blast
qed

lemma emit_distinct:
  assumes "0 \<le> s" and "0 \<le> t"
  shows "distinct (map MessageID (emit s t outs))"
proof -
  have "map MessageID (emit s t outs) = map (\<lambda>i. outMsgID s t (1 + int i)) [0..<length outs]"
    by (simp add: emit_def out_tuple_def)
  moreover have "inj_on (\<lambda>i. outMsgID s t (1 + int i)) {0..<length outs}"
    using outMsgID_inj [of s t _ s t] assms by (fastforce simp: inj_on_def)
  ultimately show ?thesis by (simp add: distinct_map)
qed

context line_operator
begin

text \<open>
  When the replay ends before new input arrives, the restarted operator sends every tuple it
  sent before again under its old identifier, then the new ones.
\<close>

lemma restart_emits_same: "\<exists>more. emit s t (run (ls @ ls')) = emit s t (run ls) @ more"
  using run_extends [of ls ls'] emit_append by metis

end

text \<open>The operators of \<^verbatim>\<open>ops/\<close>, with any arguments.\<close>

definition operator :: "(string list \<Rightarrow> string list) \<Rightarrow> bool" where
  "operator run \<longleftrightarrow> run \<in> {op0_identity, op3_transform} \<union> range op1_filter \<union> range op2_count"

lemma operator_emits_same:
  assumes "operator run"
  shows "\<exists>more. emit s t (run (ls @ ls')) = emit s t (run ls) @ more"
proof -
  have "\<exists>more. emit s t (op1_filter args (ls @ ls')) = emit s t (op1_filter args ls) @ more" for args
  proof (cases args)
    case Nil
    then show ?thesis by (simp add: op1_filter_def emit_def)
  next
    case (Cons p rest)
    then show ?thesis by (cases rest) (simp_all add: op1.restart_emits_same op1_key.restart_emits_same)
  qed
  then show ?thesis
    using assms unfolding operator_def
    by (auto simp: op0.restart_emits_same op3.restart_emits_same op2.restart_emits_same)
qed

lemma emit_is_output:
  assumes "\<not> IsLastStage args"
  shows "fst (snd (handle_lines args ls (newTask args ids, c))) = emit (StageID args) (TaskID args) (map snd ls)"
  unfolding handle_lines_emits [OF assms] by (simp add: emit_def newTask_def)



section \<open>Senders\<close>

lemma push_one_success: "push_one env tuple st = (st', Reply r) \<Longrightarrow> success r \<Longrightarrow> r = okReply"
  by (auto simp: push_one_def Let_def split: if_splits prod.splits outcome.splits)

lemma push_at_single:
  assumes "task_at (ws addr) (getTaskKey stage (int i)) = Some task" and "\<not> taskLocked task"
    and "push_one env tuple (task, c) = ((task', c'), r)"
  shows "push_at addr [env] (push_args stage i tuple) (ws, c)
    = ((ws(addr := put_task (getTaskKey stage (int i)) task' (ws addr)), c'), r)"
proof -
  have "push_all [(env, tuple)] (task, c) = ((task', c'), r)"
    using assms(3) push_one_success [of env tuple "(task, c)" "(task', c')"]
    by (cases r) auto
  then show ?thesis using assms(1,2) by (simp add: push_at_def PushTuple_def push_args_def Let_def)
qed


text \<open>Between the two states of a task nothing but this tuple was written, and at most once.\<close>

definition once :: "StreamTuple \<Rightarrow> RainStormTask \<Rightarrow> RainStormTask \<Rightarrow> bool" where
  "once tuple task task' \<longleftrightarrow>
     ProcessedIDs task' \<in> {ProcessedIDs task, insert (MessageID tuple) (ProcessedIDs task)} \<and>
     Stdin task' = Stdin task @
       (if MessageID tuple \<in> ProcessedIDs task' - ProcessedIDs task then Value tuple @ [NL] else [])"

lemma once_refl [simp]: "once tuple task task"
  by (simp add: once_def)

lemma once_trans: "once tuple a b \<Longrightarrow> once tuple b c \<Longrightarrow> once tuple a c"
  unfolding once_def by (auto split: if_splits)

lemma once_push:
  assumes "push_one env tuple (task, c) = ((task', c'), r)" and "pPipe env \<in> {Written, Refused}"
  shows "once tuple task task'"
  using push_one_cases(1,2) [OF assms(1)] assms(2)
  by (auto simp: once_def split: if_splits)

definition others_same :: "string \<Rightarrow> string \<Rightarrow> (string \<Rightarrow> worker) \<Rightarrow> (string \<Rightarrow> worker) \<Rightarrow> bool" where
  "others_same addr key ws ws' \<longleftrightarrow>
     (\<forall>a k. (a, k) \<noteq> (addr, key) \<longrightarrow> task_at (ws' a) k = task_at (ws a) k)"

lemma push_at_once:
  assumes "task_at (ws addr) (getTaskKey stage (int i)) = Some task"
    and "\<not> IsEOS tuple" and "pPipe env \<in> {Written, Refused}"
    and "through n (ws, c) (push_at addr [env] (push_args stage i tuple) (ws, c)) = ((ws1, c1), r)"
  shows "\<exists>task1. task_at (ws1 addr) (getTaskKey stage (int i)) = Some task1 \<and> once tuple task task1 \<and>
    (\<forall>s. r = Reply s \<and> success s \<longrightarrow> MessageID tuple \<in> ProcessedIDs task1) \<and>
    others_same addr (getTaskKey stage (int i)) ws ws1"
proof (cases "n = Unreachable \<or> taskLocked task")
  case True
  have "push_at addr [env] (push_args stage i tuple) (ws, c) = ((ws, c), Blocked)" if "taskLocked task"
    using that assms(1) by (simp add: push_at_def PushTuple_def push_args_def)
  then have "ws1 = ws \<and> (\<forall>s. r \<noteq> Reply s)"
    using True assms(4) by (cases n) (auto simp: through_def)
  then show ?thesis using assms(1) by (auto simp: others_same_def)
next
  case False
  obtain task1 c2 r1 where run: "push_one env tuple (task, c) = ((task1, c2), r1)" by (metis surj_pair)
  have push: "push_at addr [env] (push_args stage i tuple) (ws, c)
      = ((ws(addr := put_task (getTaskKey stage (int i)) task1 (ws addr)), c2), r1)"
    using push_at_single [where ws = ws and env = env, OF assms(1) _ run] False by simp
  have ws1: "ws1 = ws(addr := put_task (getTaskKey stage (int i)) task1 (ws addr))"
    and r: "r = Reply s \<Longrightarrow> r1 = Reply s" for s
    using False assms(4) push by (cases n; auto simp: through_def split: outcome.splits)+
  have "MessageID tuple \<in> ProcessedIDs task1" if "r = Reply s" "success s" for s
    using push_one_cases(3) [OF run] push_one_success [of env tuple "(task, c)" "(task1, c2)" s] run r [OF that(1)]
      that(2) assms(2) by simp
  then show ?thesis using ws1 once_push [OF run assms(3)] by (auto simp: others_same_def)
qed

lemma others_same_trans: "others_same a k ws ws1 \<Longrightarrow> others_same a k ws1 ws2 \<Longrightarrow> others_same a k ws ws2"
  by (simp add: others_same_def)

lemma route_two:
  assumes "ds \<noteq> []" "ds' \<noteq> []"
    and "i = targetIndex (Key tuple) (length ds)" and "j = targetIndex (Key tuple) (length ds')"
    and "task_at (ws (ds ! i)) (getTaskKey stage (int i)) = Some task1" "\<not> taskLocked task1"
    and "push_one env1 tuple (task1, c) = ((task1', c1), Reply okReply)"
    and "ws1 = ws(ds ! i := put_task (getTaskKey stage (int i)) task1' (ws (ds ! i)))"
    and "task_at (ws1 (ds' ! j)) (getTaskKey stage (int j)) = Some task2" "\<not> taskLocked task2"
    and "push_one env2 tuple (task2, c1) = ((task2', c2), Reply okReply)"
  shows "sendTupleWithDynamicRouting [(ds, ReplyLost, env1), (ds', Delivered, env2)] stage tuple (ws, c)
    = ((ws1(ds' ! j := put_task (getTaskKey stage (int j)) task2' (ws1 (ds' ! j))), c2), True)"
proof -
  have p1: "push_at (ds ! i) [env1] (push_args stage i tuple) (ws, c) = ((ws1, c1), Reply okReply)"
    unfolding assms(8) by (rule push_at_single) (use assms(5-7) in auto)
  have p2: "push_at (ds' ! j) [env2] (push_args stage j tuple) (ws1, c1)
      = ((ws1(ds' ! j := put_task (getTaskKey stage (int j)) task2' (ws1 (ds' ! j))), c2), Reply okReply)"
    by (rule push_at_single [where ws = ws1 and task = task2]) (use assms(9-11) in auto)
  show ?thesis
    using assms(1-4) p1 p2 by (simp add: Let_def through_def)
qed

text \<open>
  C19. Routing without rescaling is exactly once. While the downstream list stays the same,
  however many attempts of the retry loop fail, whatever the network does to each call and its
  reply, the tuple's value is written to the one task its key selects at most once, has been
  written when the loop ends, and no other task on any worker is touched.
\<close>

theorem routing_once:
  assumes "sendTupleWithDynamicRouting atts stage tuple (ws, c) = ((ws', c'), finished)"
    and "\<forall>(l, n, env)\<in>set atts. l = ds \<and> pPipe env \<in> {Written, Refused}"
    and "ds \<noteq> []" and "\<not> IsEOS tuple" and "i = targetIndex (Key tuple) (length ds)"
    and "task_at (ws (ds ! i)) (getTaskKey stage (int i)) = Some task"
  shows "\<exists>task'. task_at (ws' (ds ! i)) (getTaskKey stage (int i)) = Some task' \<and> once tuple task task' \<and>
    (finished \<longrightarrow> MessageID tuple \<in> ProcessedIDs task') \<and> others_same (ds ! i) (getTaskKey stage (int i)) ws ws'"
  using assms(1,2,6)
proof (induction atts arbitrary: ws c task)
  case Nil
  then show ?case by (auto simp: others_same_def)
next
  case (Cons a atts)
  obtain n env where a: "a = (ds, n, env)" and pipe: "pPipe env \<in> {Written, Refused}"
    using Cons.prems(2) by auto
  obtain ws1 c1 r where t: "through n (ws, c) (push_at (ds ! i) [env] (push_args stage i tuple) (ws, c)) = ((ws1, c1), r)"
    by (metis surj_pair)
  obtain task1 where t1: "task_at (ws1 (ds ! i)) (getTaskKey stage (int i)) = Some task1" "once tuple task task1"
    "\<forall>s. r = Reply s \<and> success s \<longrightarrow> MessageID tuple \<in> ProcessedIDs task1"
    "others_same (ds ! i) (getTaskKey stage (int i)) ws ws1"
    using push_at_once [OF Cons.prems(3) assms(4) pipe t] by blast
  have later: ?case if "sendTupleWithDynamicRouting atts stage tuple (ws1, c1) = ((ws', c'), finished)"
    using Cons.IH [OF that _ t1(1)] Cons.prems(2) t1 once_trans others_same_trans
    by (metis (no_types, lifting) list.set_intros(2))
  have now: ?case if "ws' = ws1" "finished \<Longrightarrow> \<exists>s. r = Reply s \<and> success s"
    using that t1 by blast
  show ?case
    using Cons.prems(1) assms(3,5) t a later now
    by (cases r) (auto simp: Let_def split: if_splits)
qed

definition sample_task2 :: RainStormTask where
  "sample_task2 = newTask (sample_args\<lparr>TaskID := 1, HyDFSDedupLog := ''g''\<rparr>) {}"

definition two_logs :: cluster where
  "two_logs = fst (CallHyDFSWrite goodEnv sample_got ''g'' [] CreateMethod ''o2'' log_cluster)"

definition two_workers :: "string \<Rightarrow> worker" where
  "two_workers = (\<lambda>_. empty_worker)(''w1'' := put_task ''1:0'' sample_task empty_worker,
     ''w2'' := put_task ''1:1'' sample_task2 empty_worker)"

lemma two_workers:
  "task_at (two_workers ''w1'') (getTaskKey 1 0) = Some sample_task"
  "task_at (two_workers ''w2'') (getTaskKey 1 1) = Some sample_task2"
proof -
  have "getTaskKey 1 0 = ''1:0''" "getTaskKey 1 1 = ''1:1''" by code_simp+
  then show "task_at (two_workers ''w1'') (getTaskKey 1 0) = Some sample_task"
    "task_at (two_workers ''w2'') (getTaskKey 1 1) = Some sample_task2"
    by (simp_all add: two_workers_def)
qed

theorem routing_once_witness:
  "\<exists>ws' c' task'. sendTupleWithDynamicRouting [([''w1''], ReplyLost, good_push), ([''w1''], Delivered, good_push)] 1
      (sample_tuple ''0-0-1'' ''x'') (two_workers, two_logs) = ((ws', c'), True) \<and>
    task_at (ws' ''w1'') (getTaskKey 1 0) = Some task' \<and> once (sample_tuple ''0-0-1'' ''x'') sample_task task' \<and>
    ''0-0-1'' \<in> ProcessedIDs task'"
proof -
  let ?tuple = "sample_tuple ''0-0-1'' ''x''"
  let ?atts = "[([''w1''], ReplyLost, good_push), ([''w1''], Delivered, good_push)]"
  define one where "one = push_one good_push ?tuple (sample_task, two_logs)"
  define two where "two = push_one good_push ?tuple (fst one)"
  have acks: "snd (push_one good_push ?tuple (sample_task, two_logs)) = Reply okReply"
    "snd (push_one good_push ?tuple (fst (push_one good_push ?tuple (sample_task, two_logs)))) = Reply okReply"
    "\<not> taskLocked (fst (fst (push_one good_push ?tuple (sample_task, two_logs))))"
    by code_simp+
  have run1: "push_one good_push ?tuple (sample_task, two_logs) = ((fst (fst one), snd (fst one)), Reply okReply)"
    using acks(1) unfolding one_def by (metis prod.collapse)
  have run2: "push_one good_push ?tuple (fst (fst one), snd (fst one)) = ((fst (fst two), snd (fst two)), Reply okReply)"
    using acks(2) unfolding two_def one_def by (metis prod.collapse)
  define ws1 where "ws1 = two_workers([''w1''] ! 0 := put_task (getTaskKey 1 (int 0)) (fst (fst one)) (two_workers ([''w1''] ! 0)))"
  have idx0: "0 = targetIndex (Key ?tuple) (length [''w1''])" by (simp add: targetIndex_def)
  have at0: "task_at (two_workers ([''w1''] ! 0)) (getTaskKey 1 (int 0)) = Some sample_task"
    "\<not> taskLocked sample_task" "task_at (ws1 ([''w1''] ! 0)) (getTaskKey 1 (int 0)) = Some (fst (fst one))"
    "\<not> taskLocked (fst (fst one))"
    using two_workers acks(3) by (simp_all add: ws1_def sample_task_def newTask_def one_def)
  have one_worker: "[''w1''] \<noteq> []" by simp
  obtain ws' c' where run: "sendTupleWithDynamicRouting ?atts 1 ?tuple (two_workers, two_logs) = ((ws', c'), True)"
    using route_two [OF one_worker one_worker idx0 idx0 at0(1,2) run1 ws1_def at0(3,4) run2] by blast
  have same: "\<forall>(l, n, env)\<in>set ?atts. l = [''w1''] \<and> pPipe env \<in> {Written, Refused}" by (simp add: good_push_def)
  have idx: "0 = targetIndex (Key ?tuple) (length [''w1''])" by (simp add: targetIndex_def)
  have plain: "[''w1''] \<noteq> []" "\<not> IsEOS ?tuple" by (simp_all add: sample_tuple_def)
  have at: "task_at (two_workers ([''w1''] ! 0)) (getTaskKey 1 (int 0)) = Some sample_task"
    using two_workers by simp
  from routing_once [OF run same plain idx at] run show ?thesis by (auto simp: sample_tuple_def)
qed

text \<open>
  Rescaling can duplicate a tuple. When the downstream list changes between an attempt whose
  acknowledgement is lost and the next attempt, and the key then selects another task, both
  tasks give the value to their operators: the second task has its own log and never saw the
  identifier.
\<close>

lemma routing_twice:
  assumes "ds \<noteq> []" "ds' \<noteq> []" and "\<not> IsEOS tuple"
    and "i = targetIndex (Key tuple) (length ds)" and "j = targetIndex (Key tuple) (length ds')"
    and "(ds ! i, getTaskKey stage (int i)) \<noteq> (ds' ! j, getTaskKey stage (int j))"
    and "task_at (ws (ds ! i)) (getTaskKey stage (int i)) = Some task1" "\<not> taskLocked task1"
    and "task_at (ws (ds' ! j)) (getTaskKey stage (int j)) = Some task2" "\<not> taskLocked task2"
    and "push_one env1 tuple (task1, c) = ((task1', c1), Reply okReply)" "pPipe env1 = Written"
    and "push_one env2 tuple (task2, c1) = ((task2', c2), Reply okReply)" "pPipe env2 = Written"
    and "MessageID tuple \<notin> ProcessedIDs task1" "MessageID tuple \<notin> ProcessedIDs task2"
  shows "\<exists>ws'. sendTupleWithDynamicRouting [(ds, ReplyLost, env1), (ds', Delivered, env2)] stage tuple (ws, c)
      = ((ws', c2), True) \<and>
    task_at (ws' (ds ! i)) (getTaskKey stage (int i)) = Some task1' \<and>
    task_at (ws' (ds' ! j)) (getTaskKey stage (int j)) = Some task2' \<and>
    Stdin task1' = Stdin task1 @ Value tuple @ [NL] \<and> Stdin task2' = Stdin task2 @ Value tuple @ [NL]"
proof -
  define ws1 where "ws1 = ws(ds ! i := put_task (getTaskKey stage (int i)) task1' (ws (ds ! i)))"
  have t2: "task_at (ws1 (ds' ! j)) (getTaskKey stage (int j)) = Some task2" using assms(6,9) by (auto simp: ws1_def)
  let ?ws2 = "ws1(ds' ! j := put_task (getTaskKey stage (int j)) task2' (ws1 (ds' ! j)))"
  have run: "sendTupleWithDynamicRouting [(ds, ReplyLost, env1), (ds', Delivered, env2)] stage tuple (ws, c)
      = ((?ws2, c2), True)"
    by (rule route_two [OF assms(1,2,4,5,7,8,11) ws1_def t2 assms(10,13)])
  have stdin: "Stdin task1' = Stdin task1 @ Value tuple @ [NL]" "Stdin task2' = Stdin task2 @ Value tuple @ [NL]"
    using push_one_cases(2,3) [OF assms(11)] push_one_cases(2,3) [OF assms(13)] assms(3,12,14-) by auto
  have "task_at (?ws2 (ds ! i)) (getTaskKey stage (int i)) = Some task1'" using assms(6) by (auto simp: ws1_def)
  moreover have "task_at (?ws2 (ds' ! j)) (getTaskKey stage (int j)) = Some task2'" by simp
  ultimately show ?thesis using run stdin by blast
qed

lemma routing_twice_witness:
  "\<exists>ws' c' task1 task2. sendTupleWithDynamicRouting [([''w1''], ReplyLost, good_push), ([''w1'', ''w2''], Delivered, good_push)] 1
      (sample_tuple ''0-0-1'' ''x'') (two_workers, two_logs) = ((ws', c'), True) \<and>
    task_at (ws' ''w1'') (getTaskKey 1 0) = Some task1 \<and> task_at (ws' ''w2'') (getTaskKey 1 1) = Some task2 \<and>
    Stdin task1 = ''x'' @ [NL] \<and> Stdin task2 = ''x'' @ [NL]"
proof -
  let ?tuple = "sample_tuple ''0-0-1'' ''x''"
  define one where "one = push_one good_push ?tuple (sample_task, two_logs)"
  define two where "two = push_one good_push ?tuple (sample_task2, snd (fst one))"
  have acks: "snd (push_one good_push ?tuple (sample_task, two_logs)) = Reply okReply"
    "snd (push_one good_push ?tuple (sample_task2, snd (fst (push_one good_push ?tuple (sample_task, two_logs))))) = Reply okReply"
    by code_simp+
  have run1: "push_one good_push ?tuple (sample_task, two_logs) = ((fst (fst one), snd (fst one)), Reply okReply)"
    using acks(1) unfolding one_def by (metis prod.collapse)
  have run2: "push_one good_push ?tuple (sample_task2, snd (fst one)) = ((fst (fst two), snd (fst two)), Reply okReply)"
    using acks(2) unfolding two_def one_def by (metis prod.collapse)
  have idx: "0 = targetIndex (Key ?tuple) (length [''w1''])" "1 = targetIndex (Key ?tuple) (length [''w1'', ''w2''])"
  proof -
    have "HashFunc ''x'' = 4245442695" by code_simp
    then show "0 = targetIndex (Key ?tuple) (length [''w1''])" "1 = targetIndex (Key ?tuple) (length [''w1'', ''w2''])"
      by (simp_all add: targetIndex_def sample_tuple_def numeral_2_eq_2 [symmetric] del: One_nat_def)
  qed
  have lists: "[''w1''] \<noteq> []" "[''w1'', ''w2''] \<noteq> []" "\<not> IsEOS ?tuple"
    "([''w1''] ! 0, getTaskKey 1 (int 0)) \<noteq> ([''w1'', ''w2''] ! 1, getTaskKey 1 (int 1))"
    by (simp_all add: sample_tuple_def)
  have at: "task_at (two_workers ([''w1''] ! 0)) (getTaskKey 1 (int 0)) = Some sample_task" "\<not> taskLocked sample_task"
    "task_at (two_workers ([''w1'', ''w2''] ! 1)) (getTaskKey 1 (int 1)) = Some sample_task2" "\<not> taskLocked sample_task2"
    using two_workers by (simp_all add: sample_task_def sample_task2_def newTask_def)
  have rest: "pPipe good_push = Written" "MessageID ?tuple \<notin> ProcessedIDs sample_task" "MessageID ?tuple \<notin> ProcessedIDs sample_task2"
    "Stdin sample_task = []" "Stdin sample_task2 = []" "Value ?tuple = ''x''"
    by (simp_all add: good_push_def sample_task_def sample_task2_def newTask_def sample_tuple_def)
  from routing_twice [OF lists(1-3) idx lists(4) at run1 rest(1) run2 rest(1-3)]
  show ?thesis unfolding rest(4-6) by auto
qed

text \<open>
  The replay is not isolated from new input. It runs beside the push handler: a value pushed
  between two replayed lines reaches the operator between them, and the tuple the operator then
  emits carries the identifier under which another value was emitted before the crash, so the
  receiver drops it as a duplicate.
\<close>

lemma interleaved_replay:
  assumes "push_one env tuple (replay_line False Written l1 task, c) = ((task1, c1), Reply okReply)"
    and "pPipe env = Written" and "\<not> IsEOS tuple" and "MessageID tuple \<notin> ProcessedIDs task"
    and "stdinOpen task" and "Stdin task = []"
  shows "Stdin (fst (fst (run_events [Replay False l1, Push env tuple, Replay False l2] (task, c))))
       = unlines [snd l1, Value tuple, snd l2]
    \<and> MessageID (emit s t (op0_identity [snd l1, Value tuple, snd l2]) ! 1)
       = MessageID (emit s t (op0_identity [snd l1, snd l2]) ! 1)
    \<and> Value (emit s t (op0_identity [snd l1, Value tuple, snd l2]) ! 1) = snd (split_output (Value tuple))
    \<and> Value (emit s t (op0_identity [snd l1, snd l2]) ! 1) = snd (split_output (snd l2))"
proof -
  let ?t1 = "replay_line False Written l1 task"
  have t1: "Stdin ?t1 = snd l1 @ [NL]" "stdinOpen ?t1" "ProcessedIDs ?t1 = ProcessedIDs task"
    using assms(5,6) by (auto simp: replay_line_def write_stdin_def split: prod.splits)
  have "Stdin task1 = Stdin ?t1 @ Value tuple @ [NL]"
    using push_one_cases(2,3) [OF assms(1)] assms(2-4) t1(3) by auto
  moreover have "stdinOpen task1" using push_open [of env tuple ?t1 c task1 c1] assms(1,3) t1(2) by simp
  ultimately have "Stdin (replay_line False Written l2 task1) = unlines [snd l1, Value tuple, snd l2]"
    using t1(1) by (auto simp: replay_line_def write_stdin_def split: prod.splits)
  then have "Stdin (fst (fst (run_events [Replay False l1, Push env tuple, Replay False l2] (task, c))))
       = unlines [snd l1, Value tuple, snd l2]"
    using assms(1) by (simp add: Let_def case_prod_beta)
  then show ?thesis by (simp add: emit_def op_concat(1) out_tuple_def upt_rec)
qed

lemma interleaved_replay_witness:
  "let tuple = sample_tuple ''0-0-9'' ''z''
   in Stdin (fst (fst (run_events [Replay False (''0-0-1'', ''x''), Push good_push tuple, Replay False (''0-0-2'', ''y'')] (sample_task, log_cluster))))
       = unlines [''x'', ''z'', ''y'']
    \<and> MessageID (emit 1 0 (op0_identity [''x'', ''z'', ''y'']) ! 1) = MessageID (emit 1 0 (op0_identity [''x'', ''y'']) ! 1)"
proof -
  let ?tuple = "sample_tuple ''0-0-9'' ''z''"
  define run where "run = push_one good_push ?tuple (replay_line False Written (''0-0-1'', ''x'') sample_task, log_cluster)"
  have "snd (push_one good_push ?tuple (replay_line False Written (''0-0-1'', ''x'') sample_task, log_cluster)) = Reply okReply"
    by code_simp
  then have one: "push_one good_push ?tuple (replay_line False Written (''0-0-1'', ''x'') sample_task, log_cluster)
      = ((fst (fst run), snd (fst run)), Reply okReply)"
    unfolding run_def by (metis prod.collapse)
  have rest: "pPipe good_push = Written" "\<not> IsEOS ?tuple" "MessageID ?tuple \<notin> ProcessedIDs sample_task"
    "stdinOpen sample_task" "Stdin sample_task = []" "Value ?tuple = ''z''"
    by (simp_all add: good_push_def sample_tuple_def sample_task_def newTask_def)
  from interleaved_replay [OF one rest(1-5), of "(''0-0-2'', ''y'')" 1 0]
  show ?thesis unfolding rest(6) Let_def by simp
qed

end
