(* ===== verification/JobControl.thy ===== *)
theory JobControl
  imports Autoscaler ExactlyOnce
begin

text \<open>
  A whole job from the leader's side. The step relation has the leader's operations in any
  order: rate reports, ticks of the autoscaler, success reports and restarts; what workers do in
  between may change every worker and every file. The properties say what stays true of the task
  map, of the routing that depends on it, and of the end marks that close a job.
\<close>

section \<open>Steps of the leader\<close>

inductive leader_step :: "LeaderStartArgs \<Rightarrow> leader \<times> sys \<Rightarrow> leader \<times> sys \<Rightarrow> bool" for args where
  Rate: "leader_step args (ld, sy) (UpdateRate stage task rate ld, sy)"
| Up: "leader_step args (ld, sy) (ld', sy')"
    if "monitor_tick (aNow env) (NumStages args) ld = Some (ScaleUp stage)"
      "scaleUp env ms args stage (ld, sy) = ((ld', sy'), r)"
| Down: "leader_step args (ld, sy) (ld', sy')"
    if "monitor_tick now (NumStages args) ld = Some (ScaleDown stage)"
      "scaleDown now nets stage (ld, sy) = ((ld', sy'), p)"
| Finished: "leader_step args (ld, sy) (fst (TaskFinished stage task stat ld), sy)"
| Restart: "leader_step args (ld, sy) (restart_task n senv stage task info (ld, sy))"
| Workers: "leader_step args (ld, sy) (ld, sy')"

inductive_cases leader_stepE: "leader_step args st st'"

lemma decision_stage:
  "scale_decision ld stages = Some (ScaleUp stage) \<Longrightarrow> stage \<in> set stages"
  "scale_decision ld stages = Some (ScaleDown stage) \<Longrightarrow> stage \<in> set stages"
  by (induction stages) (auto simp: Let_def split: if_splits)

lemma tick_stage:
  "monitor_tick now n ld = Some (ScaleUp stage) \<Longrightarrow> 1 \<le> stage \<and> stage \<le> n"
  "monitor_tick now n ld = Some (ScaleDown stage) \<Longrightarrow> 1 \<le> stage \<and> stage \<le> n"
  by (auto simp: monitor_tick_def simp del: upt_Suc split: if_splits dest!: decision_stage)

lemma leader_inv_same_map:
  "GlobalTaskMap ld' = GlobalTaskMap ld \<Longrightarrow> TotalTasks ld' = TotalTasks ld \<Longrightarrow>
   leader_inv n ld' = leader_inv n ld"
  by (simp add: leader_inv_def map_inv_def info_at_def stage_tasks_def map_size_def contiguous_def
      task_ids_def getStageTaskCount_def)

lemma restart_inv:
  assumes "leader_inv n ld"
  shows "leader_inv n (fst (restart_task net env stage task info (ld, sy)))"
proof -
  let ?ld = "fst (restart_task net env stage task info (ld, sy))"
  have inv: "map_inv ld" using assms by (simp add: leader_inv_def)
  note keep = restart_keeps [OF inv, of net env stage task info sy]
  have count: "length (stage_tasks ?ld s) = length (stage_tasks ld s)" for s
  proof -
    have "distinct (map fst (stage_tasks ?ld s))" "distinct (map fst (stage_tasks ld s))"
      using keep(1) inv by (simp_all add: map_inv_def)
    then show ?thesis using keep(3) by (metis distinct_card length_map list.set_map task_ids_def)
  qed
  show ?thesis
    using assms keep unfolding leader_inv_def contiguous_def getStageTaskCount_def by (simp add: count)
qed

lemma leader_step_inv:
  assumes "leader_step args st st'" and "leader_inv (NumStages args) (fst st)"
  shows "leader_inv (NumStages args) (fst st')"
  using assms
proof (cases rule: leader_step.cases)
  case (Rate ld sy stage task rate)
  then show ?thesis using assms(2) leader_inv_same_map [of "UpdateRate stage task rate ld" ld]
    by (simp add: UpdateRate_def)
next
  case (Up env ld stage ms sy ld' sy' r)
  then show ?thesis using assms(2) scaleUp_inv [of args ld stage env ms sy ld' sy' r] tick_stage(1) by auto
next
  case (Down now ld stage nets sy ld' sy' p)
  then show ?thesis using assms(2) scaleDown_inv [of "NumStages args" ld stage now nets sy ld' sy' p] tick_stage(2) by auto
next
  case (Finished ld sy stage task stat)
  then show ?thesis using assms(2) leader_inv_same_map [of "fst (TaskFinished stage task stat ld)" ld]
    by (simp add: TaskFinished_def Let_def)
next
  case (Restart ld sy n senv stage task info)
  then show ?thesis using assms(2) restart_inv by simp
qed simp

lemma started_inv:
  assumes "startAllTasks args plan dedup envs (ld, sy) = ((ld', sy'), Reply ())"
    and "GlobalTaskMap ld = []" "TotalTasks ld = int (NumStages args * NumTasks args)" and "0 < NumTasks args"
  shows "leader_inv (NumStages args) ld'"
proof -
  note started = startAllTasks_map [OF assms(1-3)]
  have "0 < getStageTaskCount ld' (int s)" if "1 \<le> s" "s \<le> NumStages args" for s
  proof -
    have "info_at ld' (int s) 0 \<noteq> None" using started(4) [of "int s" 0] that assms(4) by simp
    then show ?thesis by (auto simp: getStageTaskCount_def info_at_def)
  qed
  then show ?thesis using started(1-3) by (simp add: leader_inv_def)
qed

text \<open>
  C10. The leader's task map stays sound for the whole life of a job. After a start that
  reports success, and then any sequence of rate reports, scale-ups, scale-downs, success reports,
  restarts and whatever the workers do: every entry of the map is filed under its own stage and
  task number and carries the arguments of that task, the identifiers of every stage are
  consecutive from zero, no stage is empty, and the number of tasks the job waits for is the number
  of tasks in the map.
\<close>

theorem task_map_sound:
  assumes "startAllTasks args plan dedup envs (ld, sy) = ((ld0, sy0), Reply ())"
    and "GlobalTaskMap ld = []" "TotalTasks ld = int (NumStages args * NumTasks args)" and "0 < NumTasks args"
    and "(leader_step args)\<^sup>*\<^sup>* (ld0, sy0) (ld', sy')"
  shows "leader_inv (NumStages args) ld'"
  using assms(5)
proof (induction "(ld', sy')" arbitrary: ld' sy' rule: rtranclp_induct)
  case base
  then show ?case using started_inv [OF assms(1-4)] by simp
next
  case (step st)
  then show ?case using leader_step_inv [of args st "(ld', sy')"] by (cases st) auto
qed

section \<open>A job to evaluate\<close>

definition sample_job :: LeaderStartArgs where
  "sample_job = \<lparr>jobID = ''rs'', NumStages = 1, NumTasks = 2, OpExes = [''op0''], OpArgss = [[]],
     SrcFile = ''src'', DestFile = ''out'', jobExactlyOnce = True, Autoscale = True, InputRate = 10, LW = 1, HW = 5\<rparr>"

definition sample_senv :: senv where
  "sample_senv = \<lparr>sNets = (\<lambda>_. Delivered), sGot = sample_got, sLogName = Some ''log'', sStdin = True,
     sStdout = True, sPID = Some 7\<rparr>"

definition idle_leader :: leader where
  "idle_leader = \<lparr>GlobalTaskMap = [], TaskRates = [], TotalTasks = 2, FinishedTasks = 0, AutoLW = 1, AutoHW = 5,
     ScaleCooldown = 0\<rparr>"

definition sample_plan :: "(nat \<times> string list) list" where
  "sample_plan = calculateDeploymentPlan 1 2 [''h1:9082'', ''h2:9082'']"

definition sample_started :: "(leader \<times> sys) \<times> unit outcome" where
  "sample_started = startAllTasks sample_job sample_plan (\<lambda>_ _. ''f'') (\<lambda>_ _. (Delivered, sample_senv))
     (idle_leader, (\<lambda>_. empty_worker, empty_cluster))"

lemma sample_started: "snd sample_started = Reply ()"
  by code_simp

text \<open>Nothing has arrived in the first second, so the monitor gives one task up.\<close>

definition sample_idle :: leader where
  "sample_idle = UpdateRate 1 0 0 (fst (fst sample_started))"

definition sample_scaled :: "(leader \<times> sys) \<times> pending option" where
  "sample_scaled = scaleDown 0 (\<lambda>_. Delivered) 1 (sample_idle, snd (fst sample_started))"

lemma sample_decision: "monitor_tick 0 (NumStages sample_job) sample_idle = Some (ScaleDown 1)"
  by code_simp

lemma sample_size: "getStageTaskCount (fst (fst sample_scaled)) 1 = 1"
  by code_simp

lemma sample_job_run:
  "startAllTasks sample_job sample_plan (\<lambda>_ _. ''f'') (\<lambda>_ _. (Delivered, sample_senv))
     (idle_leader, (\<lambda>_. empty_worker, empty_cluster)) = ((fst (fst sample_started), snd (fst sample_started)), Reply ())"
  "GlobalTaskMap idle_leader = []" "TotalTasks idle_leader = int (NumStages sample_job * NumTasks sample_job)"
  "0 < NumTasks sample_job"
  "(leader_step sample_job)\<^sup>*\<^sup>* (fst (fst sample_started), snd (fst sample_started))
     (fst (fst sample_scaled), snd (fst sample_scaled))"
proof -
  let ?ld = "fst (fst sample_started)" and ?sy = "snd (fst sample_started)"
  show "startAllTasks sample_job sample_plan (\<lambda>_ _. ''f'') (\<lambda>_ _. (Delivered, sample_senv))
     (idle_leader, (\<lambda>_. empty_worker, empty_cluster)) = ((?ld, ?sy), Reply ())"
    using sample_started unfolding sample_started_def by (metis prod.collapse)
  show "GlobalTaskMap idle_leader = []" "TotalTasks idle_leader = int (NumStages sample_job * NumTasks sample_job)"
    "0 < NumTasks sample_job" by (simp_all add: idle_leader_def sample_job_def)
  have "leader_step sample_job (?ld, ?sy) (sample_idle, ?sy)"
    unfolding sample_idle_def by (rule leader_step.Rate)
  moreover have "leader_step sample_job (sample_idle, ?sy) (fst (fst sample_scaled), snd (fst sample_scaled))"
    by (rule leader_step.Down [OF sample_decision, where p = "snd sample_scaled"]) (simp add: sample_scaled_def)
  ultimately show "(leader_step sample_job)\<^sup>*\<^sup>* (?ld, ?sy) (fst (fst sample_scaled), snd (fst sample_scaled))"
    by (meson r_into_rtranclp rtranclp.rtrancl_into_rtrancl)
qed

theorem task_map_sound_witness:
  "leader_inv 1 (fst (fst sample_scaled)) \<and> getStageTaskCount (fst (fst sample_scaled)) 1 = 1"
  using task_map_sound [OF sample_job_run] sample_size by (simp add: sample_job_def)

lemma sample_leader_inv: "leader_inv 1 (fst (fst sample_scaled))"
proof -
  have "leader_inv 1 (fst (fst sample_started))"
    using started_inv [OF sample_job_run(1-4)] by (simp add: sample_job_def)
  then have "leader_inv 1 sample_idle"
    using leader_inv_same_map [of sample_idle "fst (fst sample_started)"]
    by (simp add: sample_idle_def UpdateRate_def)
  moreover have "scaleDown 0 (\<lambda>_. Delivered) 1 (sample_idle, snd (fst sample_started))
      = ((fst (fst sample_scaled), snd (fst sample_scaled)), snd sample_scaled)"
    unfolding sample_scaled_def by simp
  ultimately show ?thesis using scaleDown_inv order.refl by blast
qed

section \<open>Routing on the leader's lists\<close>

text \<open>
  C24. A key always selects a task that exists, and the address it is sent to is that task's
  address: the list the leader hands out is sorted by task number, numbers are consecutive, so the
  position picked by the hash of the key is the number of the task at that position. Equal keys
  reach the same task as long as the list is the same.
\<close>

theorem routing_reaches_task:
  assumes "leader_inv n ld" and "1 \<le> s" "s \<le> n" and "i = targetIndex key (length (getSortedStageWorkers ld (int s)))"
  shows "i < getStageTaskCount ld (int s) \<and>
    (\<exists>info. info_at ld (int s) (int i) = Some info \<and> infoTask info = int i \<and>
       getSortedStageWorkers ld (int s) ! i = VMAddr info)"
proof -
  have inv: "map_inv ld" "contiguous ld (int s)" "0 < getStageTaskCount ld (int s)"
    using assms(1-3) by (simp_all add: leader_inv_def)
  have len: "length (getSortedStageWorkers ld (int s)) = getStageTaskCount ld (int s)"
    by (simp add: getSortedStageWorkers_def getStageTaskCount_def)
  then have i: "i < getStageTaskCount ld (int s)" using assms(4) inv(3) by (simp add: targetIndex_def)
  obtain info where info: "info_at ld (int s) (int i) = Some info" "getSortedStageWorkers ld (int s) ! i = VMAddr info"
    using sorted_workers_nth(1) [OF inv(1,2) i] by blast
  moreover have "infoTask info = int i" using inv(1) info(1) by (simp add: map_inv_def)
  ultimately show ?thesis using i by blast
qed

text \<open>
  A new task goes to a least loaded worker: among the live workers none runs fewer tasks of
  the job than the one chosen, and the choice is one of them, as long as some worker runs fewer
  than the bound the search starts from.
\<close>

lemma least_loaded_worker:
  assumes "a \<in> set aliveNodes" and "vm_load ld a < 999999"
  shows "getLeastLoadedWorker ld aliveNodes \<in> set aliveNodes \<and>
    (\<forall>b\<in>set aliveNodes. vm_load ld (getLeastLoadedWorker ld aliveNodes) \<le> vm_load ld b)"
  using least_loaded [OF assms] by blast

theorem routing_reaches_task_witness:
  "\<exists>info. info_at (fst (fst sample_scaled)) 1 (int (targetIndex ''k'' 1)) = Some info \<and>
    getSortedStageWorkers (fst (fst sample_scaled)) 1 ! targetIndex ''k'' 1 = VMAddr info"
proof -
  have inv: "leader_inv 1 (fst (fst sample_scaled))"
    using sample_leader_inv .
  have one: "length (getSortedStageWorkers (fst (fst sample_scaled)) (int 1)) = 1"
    using sample_size by (simp add: getSortedStageWorkers_def getStageTaskCount_def)
  from routing_reaches_task [OF inv order.refl order.refl refl, of "''k''"] show ?thesis
    unfolding one by auto
qed

lemma least_loaded_worker_witness:
  "vm_load (fst (fst sample_scaled)) (getLeastLoadedWorker (fst (fst sample_scaled)) [''h1:9082'', ''h2:9082'']) \<le> 0"
proof -
  have load: "vm_load (fst (fst sample_scaled)) ''h2:9082'' = 0" by code_simp
  then have "vm_load (fst (fst sample_scaled)) ''h2:9082'' < 999999" by simp
  from least_loaded_worker [OF _ this, of "[''h1:9082'', ''h2:9082'']"] load show ?thesis by auto
qed

section \<open>What the neighbour stages know\<close>

lemma broadcast_down_at:
  "task_at (fst (broadcastUpdateDownstream nets s ld sy) a) (getTaskKey s' t) =
     map_option (\<lambda>task. if s' = s \<and> 1 \<le> s \<and> a \<in> set (map (VMAddr \<circ> snd) (stage_tasks ld s)) \<and> nets a \<noteq> Unreachable
        then task\<lparr>DownstreamList := getSortedStageWorkers ld (s + 1)\<rparr> else task)
       (task_at (fst sy a) (getTaskKey s' t))"
  by (cases "task_at (fst sy a) (getTaskKey s' t)")
    (auto simp: broadcastUpdateDownstream_def Let_def broadcast_fold UpdateDownstream_idem task_at_UpdateDownstream)

lemma broadcast_up_at:
  "task_at (fst (broadcastUpdateUpstream nets s ld sy) a) (getTaskKey s' t) =
     map_option (\<lambda>task. if s' = s \<and> 1 \<le> s \<and> a \<in> set (map (VMAddr \<circ> snd) (stage_tasks ld s)) \<and> nets a \<noteq> Unreachable
        then task\<lparr>NumUpstreams := int (getStageTaskCount ld (s - 1))\<rparr> else task)
       (task_at (fst sy a) (getTaskKey s' t))"
  by (cases "task_at (fst sy a) (getTaskKey s' t)")
    (auto simp: broadcastUpdateUpstream_def Let_def broadcast_fold UpdateUpstream_idem task_at_UpdateUpstream)

text \<open>
  The tasks of the stages around \<open>stage\<close> that run where the leader's map says and that it can reach
  know its current workers and their number.
\<close>

definition informed :: "(string \<Rightarrow> net) \<Rightarrow> int \<Rightarrow> leader \<Rightarrow> sys \<Rightarrow> bool" where
  "informed nets stage ld sy \<longleftrightarrow>
     (\<forall>t info task. 1 < stage \<longrightarrow> info_at ld (stage - 1) t = Some info \<longrightarrow> nets (VMAddr info) \<noteq> Unreachable \<longrightarrow>
        task_at (fst sy (VMAddr info)) (getTaskKey (stage - 1) t) = Some task \<longrightarrow>
        DownstreamList task = getSortedStageWorkers ld stage) \<and>
     (\<forall>t info task. info_at ld (stage + 1) t = Some info \<longrightarrow> nets (VMAddr info) \<noteq> Unreachable \<longrightarrow>
        task_at (fst sy (VMAddr info)) (getTaskKey (stage + 1) t) = Some task \<longrightarrow>
        NumUpstreams task = int (getStageTaskCount ld stage))"

lemma broadcasts_inform:
  assumes "1 \<le> stage"
  shows "informed nets stage ld (broadcastUpdateUpstream nets (stage + 1) ld
    (broadcastUpdateDownstream nets (stage - 1) ld sy))"
proof -
  have at: "VMAddr info \<in> set (map (VMAddr \<circ> snd) (stage_tasks ld s))" if "info_at ld s t = Some info" for s t info
    using that by (force simp: info_at_def dest: map_of_SomeD)
  let ?sy = "broadcastUpdateDownstream nets (stage - 1) ld sy"
  have down: "DownstreamList task = getSortedStageWorkers ld stage"
    if "1 < stage" "info_at ld (stage - 1) t = Some info" "nets (VMAddr info) \<noteq> Unreachable"
      "task_at (fst (broadcastUpdateUpstream nets (stage + 1) ld ?sy) (VMAddr info)) (getTaskKey (stage - 1) t) = Some task"
    for t info task
    using that at [OF that(2)] unfolding broadcast_up_at broadcast_down_at
    by (cases "task_at (fst sy (VMAddr info)) (getTaskKey (stage - 1) t)") auto
  have up: "NumUpstreams task = int (getStageTaskCount ld stage)"
    if "info_at ld (stage + 1) t = Some info" "nets (VMAddr info) \<noteq> Unreachable"
      "task_at (fst (broadcastUpdateUpstream nets (stage + 1) ld ?sy) (VMAddr info)) (getTaskKey (stage + 1) t) = Some task"
    for t info task
    using that at [OF that(1)] assms unfolding broadcast_up_at
    by (cases "task_at (fst ?sy (VMAddr info)) (getTaskKey (stage + 1) t)") auto
  show ?thesis unfolding informed_def using down up by blast
qed



section \<open>Closing a job\<close>

fun is_eos :: "tevent \<Rightarrow> bool" where
  "is_eos (Push env tuple) \<longleftrightarrow> IsEOS tuple"
| "is_eos (Replay check line) \<longleftrightarrow> False"

definition eos_marks :: "tevent list \<Rightarrow> int" where
  "eos_marks es = int (length (filter is_eos es))"

text \<open>The pipe is open exactly while end marks are missing.\<close>

definition gate_ok :: "RainStormTask \<Rightarrow> bool" where
  "gate_ok task \<longleftrightarrow> (stdinOpen task \<longleftrightarrow> EOSCount task < NumUpstreams task)"

lemma push_one_gate:
  assumes "push_one env tuple (task, c) = ((task', c'), r)" and "gate_ok task"
  shows "gate_ok task'" "EOSCount task' = EOSCount task + (if IsEOS tuple then 1 else 0)"
    "NumUpstreams task' = NumUpstreams task"
  using assms
  by (auto simp: push_one_def Let_def write_stdin_def gate_ok_def split: if_splits prod.splits outcome.splits)

lemma do_event_gate:
  assumes "do_event e (task, c) = ((task', c'), d)" and "gate_ok task"
  shows "gate_ok task' \<and> EOSCount task' = EOSCount task + (if is_eos e then 1 else 0) \<and>
    NumUpstreams task' = NumUpstreams task"
proof (cases e)
  case (Push env tuple)
  obtain r where "push_one env tuple (task, c) = ((task', c'), r)"
    using assms(1) Push by (cases "push_one env tuple (task, c)") (auto simp: Let_def split: prod.splits)
  then show ?thesis using push_one_gate assms(2) Push by auto
next
  case (Replay check line)
  then show ?thesis using assms
    by (auto simp: replay_line_def write_stdin_def gate_ok_def split: prod.splits if_splits)
qed

lemma run_events_gate:
  assumes "run_events es (task, c) = ((task', c'), tr)" and "gate_ok task"
  shows "gate_ok task' \<and> EOSCount task' = EOSCount task + eos_marks es \<and> NumUpstreams task' = NumUpstreams task"
  using assms
proof (induction es arbitrary: task c tr)
  case Nil
  then show ?case by (simp add: eos_marks_def)
next
  case (Cons e es)
  then obtain task1 c1 d ds where "do_event e (task, c) = ((task1, c1), d)"
    "run_events es (task1, c1) = ((task', c'), ds)"
    using run_events_step by blast
  then show ?case using Cons.IH do_event_gate [of e task c task1 c1 d] Cons.prems(2) by (auto simp: eos_marks_def)
qed



text \<open>
  End marks are not protected against duplicates. \<^verbatim>\<open>SendTupleWithRetry\<close> sends an end mark
  again when its acknowledgement is lost, and the receiver counts both: with one other upstream task
  still running, the receiver closes its operator's input, and from then on no tuple that the other
  upstream task sends is ever acknowledged, however often it is sent again.
\<close>

lemma end_mark_counted_twice:
  assumes "task_at (ws addr) (getTaskKey s t) = Some task" and "\<not> taskLocked task"
    and "NumUpstreams task = EOSCount task + 2"
    and "\<not> IsEOS tuple" and "MessageID tuple \<notin> ProcessedIDs task"
  shows "\<exists>ws' task'. SendTupleWithRetry [(ReplyLost, [env1]), (Delivered, [env2])] addr
        \<lparr>DestStageID = s, DestTaskID = t, Tuples = [eosTuple]\<rparr> (ws, c) = ((ws', c), True) \<and>
    task_at (ws' addr) (getTaskKey s t) = Some task' \<and> EOSCount task' = NumUpstreams task' \<and>
    \<not> stdinOpen task' \<and> (\<forall>env c2 st r. push_one env tuple (task', c2) = (st, Reply r) \<longrightarrow> \<not> success r)"
proof -
  let ?key = "getTaskKey s t" and ?args = "\<lparr>DestStageID = s, DestTaskID = t, Tuples = [eosTuple]\<rparr>"
  define task1 where "task1 = task\<lparr>EOSCount := EOSCount task + 1\<rparr>"
  define task2 where "task2 = task1\<lparr>EOSCount := EOSCount task + 2, stdinOpen := False\<rparr>"
  have one: "push_one env eosTuple (task, c) = ((task1, c), Reply okReply)"
    "push_one env eosTuple (task1, c) = ((task2, c), Reply okReply)" for env
    using assms(3) by (simp_all add: push_one_def Let_def eosTuple_def task1_def task2_def)
  let ?ws1 = "ws(addr := put_task ?key task1 (ws addr))"
  have p1: "push_at addr [env1] ?args (ws, c) = ((?ws1, c), Reply okReply)"
    using assms(1,2) one(1) by (simp add: push_at_def PushTuple_def Let_def)
  have p2: "push_at addr [env2] ?args (?ws1, c) = ((?ws1(addr := put_task ?key task2 (?ws1 addr)), c), Reply okReply)"
    using assms(2) one(2) by (simp add: push_at_def PushTuple_def Let_def task1_def)
  have "\<not> success r" if "push_one env tuple (task2, c2) = (st, Reply r)" for env c2 st r
    using that assms(4,5)
    by (auto simp: push_one_def Let_def write_stdin_def task2_def task1_def split: if_splits outcome.splits prod.splits)
  moreover have "EOSCount task2 = NumUpstreams task2" "\<not> stdinOpen task2"
    using assms(3) by (simp_all add: task2_def task1_def)
  moreover have "SendTupleWithRetry [(ReplyLost, [env1]), (Delivered, [env2])] addr ?args (ws, c)
      = ((?ws1(addr := put_task ?key task2 (?ws1 addr)), c), True)"
    using p1 p2 by (simp add: through_def)
  ultimately show ?thesis by (intro exI [where x = "?ws1(addr := put_task ?key task2 (?ws1 addr))"] exI [where x = task2]) simp
qed

definition two_upstreams :: RainStormTask where
  "two_upstreams = newTask (sample_args\<lparr>NumUpstream := 2\<rparr>) {}"

lemma end_mark_counted_twice_witness:
  "\<exists>ws' task'. SendTupleWithRetry [(ReplyLost, [good_push]), (Delivered, [good_push])] ''w1''
        \<lparr>DestStageID = 1, DestTaskID = 0, Tuples = [eosTuple]\<rparr>
        ((\<lambda>_. empty_worker)(''w1'' := put_task (getTaskKey 1 0) two_upstreams empty_worker), log_cluster)
      = ((ws', log_cluster), True) \<and>
    task_at (ws' ''w1'') (getTaskKey 1 0) = Some task' \<and> \<not> stdinOpen task'"
proof -
  let ?ws = "(\<lambda>_. empty_worker)(''w1'' := put_task (getTaskKey 1 0) two_upstreams empty_worker)"
  have at: "task_at (?ws ''w1'') (getTaskKey 1 0) = Some two_upstreams" by simp
  have new: "\<not> taskLocked two_upstreams" "NumUpstreams two_upstreams = EOSCount two_upstreams + 2"
    "\<not> IsEOS (sample_tuple ''0-0-1'' ''x'')" "MessageID (sample_tuple ''0-0-1'' ''x'') \<notin> ProcessedIDs two_upstreams"
    by (simp_all add: two_upstreams_def newTask_def sample_args_def sample_tuple_def)
  from end_mark_counted_twice [where ws = ?ws and addr = "''w1''", OF at new] show ?thesis by blast
qed

end
