(* ===== verification/HyDFS.thy ===== *)
theory HyDFS
  imports Samples
begin

text \<open>
  The properties of the replicated file system as a whole: placement, durability of
  acknowledged writes, merges, re-replication, and the ways in which files are lost or stuck.
  The witnesses run on a ring of sample members.
\<close>

section \<open>Placement\<close>

text \<open>
  C18. When \<^verbatim>\<open>GetReplica\<close> answers, on a ring whose members have different RPC addresses, it
  names exactly three different replicas; none is the leader's address; the first one is the
  successor of the file on the ring, or the least node when no node is at or after the file;
  and the answer does not depend on the order in which the members are listed when their
  hashes differ.
\<close>

theorem placement_correct:
  assumes "GetReplica (Members ms) f = Inr rs" and "ring_valid (GetRingInfo ms)"
  shows "length rs = 3 \<and> distinct (map NodeAddr rs) \<and> set rs \<subseteq> set (GetRingInfo ms)
    \<and> leaderAddr \<notin> set (map NodeAddr rs)
    \<and> ((HashFunc f \<le> NodeID (hd rs) \<and>
         (\<forall>n\<in>set (GetRingInfo ms). HashFunc f \<le> NodeID n \<longrightarrow> NodeID (hd rs) \<le> NodeID n))
      \<or> ((\<forall>n\<in>set (GetRingInfo ms). NodeID n < HashFunc f) \<and>
         (\<forall>n\<in>set (GetRingInfo ms). NodeID (hd rs) \<le> NodeID n)))
    \<and> (distinct (map NodeID (GetRingInfo ms)) \<longrightarrow>
         (\<forall>ms'. mset ms' = mset ms \<longrightarrow> GetReplica (Members ms') f = Inr rs))"
proof -
  let ?ns = "sort_ring (GetRingInfo ms)"
  have pl: "place_replicas ms f = Inr rs" using assms(1) by (simp add: GetReplica_def)
  note sub = place_replicas_replicas(2) [OF pl]
  have len: "length rs = 3 \<and> distinct (map NodeAddr rs)"
    using place_replicas_primary [OF pl assms(2)] by auto
  have "?ns \<noteq> []" using place_replicas_Inr(1) [OF pl] by (auto simp: ReplicaNum_def)
  moreover have "hd rs = ?ns ! startIndexFrom 0 (HashFunc f) ?ns"
    using place_replicas_Inr(2) [OF pl] GetSuccessor_rotate [of ?ns ReplicaNum "HashFunc f"]
      place_replicas_Inr(1) [OF pl] \<open>?ns \<noteq> []\<close> startIndexFrom_lt [of ?ns "HashFunc f"]
    by (auto simp: hd_rotate_conv_nth ReplicaNum_def hd_take)
  moreover have "sorted (map NodeID ?ns)" by (simp add: sort_ring_def)
  ultimately have succ: "(HashFunc f \<le> NodeID (hd rs) \<and>
         (\<forall>n\<in>set (GetRingInfo ms). HashFunc f \<le> NodeID n \<longrightarrow> NodeID (hd rs) \<le> NodeID n))
      \<or> ((\<forall>n\<in>set (GetRingInfo ms). NodeID n < HashFunc f) \<and>
         (\<forall>n\<in>set (GetRingInfo ms). NodeID (hd rs) \<le> NodeID n))"
    using startIndexFrom_sorted [of ?ns "hd rs" "HashFunc f"] by simp
  have "leaderAddr \<notin> set (map NodeAddr rs)" using sub GetRingInfo_not_leader by fastforce
  moreover have "\<forall>ms'. mset ms' = mset ms \<longrightarrow> GetReplica (Members ms') f = Inr rs"
    if "distinct (map NodeID (GetRingInfo ms))"
  proof (intro allI impI)
    fix ms' :: "member list"
    assume "mset ms' = mset ms"
    from place_replicas_any_order [OF this [symmetric] that]
    show "GetReplica (Members ms') f = Inr rs" using pl by (simp add: GetReplica_def)
  qed
  ultimately show ?thesis using len sub succ by blast
qed

theorem placement_correct_witness:
  "length sample_replicas = 3 \<and> leaderAddr \<notin> set (map NodeAddr sample_replicas)
   \<and> GetReplica (Members (rev sample_members)) ''f'' = Inr sample_replicas"
proof -
  have "distinct (map NodeID (GetRingInfo sample_members))" by code_simp
  then show ?thesis
    using placement_correct [OF sample_replicas [unfolded sample_got_def] sample_ring] by simp
qed

text \<open>
  C20. Consistent hashing: when some nodes leave the ring, the replicas of a file that stay are
  the first replicas afterwards, in the same order; only the places of the lost ones are filled
  with other nodes.
\<close>

theorem survivors_stay_first:
  assumes "GetReplica (Members ms) f = Inr rs" and "GetReplica (Members ms') f = Inr rs'"
    and "GetRingInfo ms' = filter keep (GetRingInfo ms)"
  shows "\<exists>fresh. rs' = filter keep rs @ fresh \<and> length fresh = length (filter (\<lambda>n. \<not> keep n) rs)"
proof -
  have pl: "place_replicas ms f = Inr rs" "place_replicas ms' f = Inr rs'"
    using assms by (simp_all add: GetReplica_def)
  obtain fresh where fresh: "rs' = filter keep rs @ fresh"
    using placement_survivors_prefix [OF pl(1) assms(3) pl(2)] by blast
  then have "length (filter keep rs) + length fresh = length (filter keep rs) + length (filter (\<lambda>n. \<not> keep n) rs)"
    using place_replicas_replicas(1) [OF pl(1)] place_replicas_replicas(1) [OF pl(2)]
      sum_length_filter_compl [of keep rs] by simp
  with fresh show ?thesis by auto
qed

theorem survivors_stay_first_witness:
  "\<exists>fresh. [\<lparr>NodeID = 3826002220, NodeAddr = ''h1:9082''\<rparr>, \<lparr>NodeID = 3859557458, NodeAddr = ''h3:9082''\<rparr>,
      \<lparr>NodeID = 3893112696, NodeAddr = ''h4:9082''\<rparr>]
      = filter (\<lambda>n. NodeAddr n \<noteq> ''h2:9082'') sample_replicas @ fresh \<and> length fresh = 1"
proof -
  let ?m = "sample_member ''m'' ''h4:1''"
  let ?all = "sample_members @ [?m]"
  let ?less = "filter (\<lambda>m. ID m \<noteq> ''b'') ?all"
  have "GetReplica (Members ?all) ''f'' = Inr sample_replicas"
    "GetReplica (Members ?less) ''f'' = Inr [\<lparr>NodeID = 3826002220, NodeAddr = ''h1:9082''\<rparr>,
       \<lparr>NodeID = 3859557458, NodeAddr = ''h3:9082''\<rparr>, \<lparr>NodeID = 3893112696, NodeAddr = ''h4:9082''\<rparr>]"
    "GetRingInfo ?less = filter (\<lambda>n. NodeAddr n \<noteq> ''h2:9082'') (GetRingInfo ?all)"
    by code_simp+
  from survivors_stay_first [OF this] show ?thesis by (simp add: sample_replicas_def)
qed

section \<open>Durability\<close>



text \<open>A sequence of client appends to one file, and the data of those that were acknowledged.\<close>

fun append_all :: "fetched \<Rightarrow> (wenv \<times> string \<times> string) list \<Rightarrow> string \<Rightarrow> cluster \<Rightarrow> cluster \<times> string list" where
  "append_all got [] f c = (c, [])"
| "append_all got ((env, opID, d) # ws) f c =
     (case CallHyDFSWrite env got f d AppendMethod opID c of (c1, r) \<Rightarrow>
        (case append_all got ws f c1 of (c2, ds) \<Rightarrow> (c2, if r = Reply () then d # ds else ds)))"

fun in_order :: "string list \<Rightarrow> string \<Rightarrow> bool" where
  "in_order [] x \<longleftrightarrow> True"
| "in_order (d # ds) x \<longleftrightarrow> (\<exists>a b. x = a @ d @ b \<and> in_order ds b)"

lemma append_all_contract:
  "append_all got ws f c = hydfs.appends got (map (\<lambda>(env, opID, d). ((env, opID), d)) ws) f c"
  by (induction ws arbitrary: c) (auto split: prod.split)

lemma in_order_embeds: "in_order ds x = append_store.embeds ds x"
  by (induction ds arbitrary: x) (simp_all add: append_store.embeds.simps [OF hydfs.append_store_axioms])



section \<open>The operation log of a node\<close>

text \<open>The writes of a list of operations on one node: a create, then appends.\<close>

definition write_args :: "string \<Rightarrow> OperationLogEntry \<Rightarrow> WriteFileArgs" where
  "write_args f e = \<lparr>HyDFSFileName = f, LocalFile = Data e, NonPrimary = [], OperationID = OpID e\<rparr>"

definition write_history :: "string \<Rightarrow> OperationLogEntry \<Rightarrow> OperationLogEntry list \<Rightarrow> hnode \<Rightarrow> hnode" where
  "write_history f e es h =
     foldl (\<lambda>h e. fst (append_local goodDisk (write_args f e) h)) (fst (create_local goodDisk (write_args f e) h)) es"



section \<open>Merges\<close>



text \<open>
  C33. What a second merge does. After a merge every replica holds one compacted entry. The next
  merge keeps its data when the entry fits the log scanner's token limit; when it does not
  (64 KiB of data are enough), the log reads as empty, the merge still reports success and
  leaves every replica with an empty file.
\<close>

theorem second_merge:
  assumes "GetReplica got f = Inr rs" and "distinct (map NodeAddr rs)" and "self \<in> set (map NodeAddr rs)"
    and "valid_schedule (length rs) sched"
    and "\<forall>a\<in>set (map NodeAddr rs). holds_ops (c a) f [e] \<and> \<not> is_locked (c a) f"
    and "sha (Data e) = sha [] \<longrightarrow> Data e = []"
  shows "\<exists>c'. MergeFile sha goodMerge self got opID sched f c = (c', Reply okReply) \<and>
    (small e \<longrightarrow> (\<forall>r\<in>set rs. file_at (c' (NodeAddr r)) f = Some (Data e))) \<and>
    (maxTokenSize \<le> length (Data e) \<longrightarrow> (\<forall>r\<in>set rs. file_at (c' (NodeAddr r)) f = Some []))"
proof -
  have "valid_schedule (length (map NodeAddr rs)) sched" using assms(4) by simp
  then obtain c' where "MergeFile sha goodMerge self got opID sched f c = (c', Reply okReply)"
    "\<forall>a\<in>set (map NodeAddr rs). file_at (c' a) f = Some (if small e then Data e else [])"
    using merge_of_merged [OF assms(1) refl assms(2,3) _ assms(5)] assms(6) by blast
  then show ?thesis using big_not_small [of e] by auto
qed

theorem second_merge_witness:
  "\<exists>c'. MergeFile id goodMerge ''h1:9082'' sample_got ''m2'' [Poll 1, Poll 0, Collect 1, Poll 2, Collect 2, Collect 0]
      ''f'' (\<lambda>_. node_with [big_op]) = (c', Reply okReply) \<and>
    (\<forall>r\<in>set sample_replicas. file_at (c' (NodeAddr r)) ''f'' = Some [])"
proof -
  have sched: "valid_schedule (length sample_replicas) [Poll 1, Poll 0, Collect 1, Poll 2, Collect 2, Collect 0]"
    and dist: "distinct (map NodeAddr sample_replicas)" "''h1:9082'' \<in> set (map NodeAddr sample_replicas)"
    using sample_schedule by (simp_all add: sample_addrs)
  have at: "\<forall>a\<in>set (map NodeAddr sample_replicas). holds_ops ((\<lambda>_. node_with [big_op]) a) ''f'' [big_op]
      \<and> \<not> is_locked ((\<lambda>_. node_with [big_op]) a) ''f''"
    by (simp add: node_with_holds)
  have "maxTokenSize \<le> length (Data big_op)" by (simp add: big_op_def)
  then show ?thesis
    using second_merge [where sha = id and opID = "''m2''", OF sample_replicas dist sched at] by auto
qed

text \<open>
  C34. A merge can empty a file that other replicas still have. The polling goroutines share one
  error variable. If a replica is unreachable and its failure is the last poll result noted
  before the replies are collected, the primary ignores every log it has, its own included,
  pushes an empty file to itself and to every replica it reaches, and reports success.
\<close>

theorem merge_shared_error_empties:
  assumes "GetReplica got f = Inr rs" and "distinct (map NodeAddr rs)" and "self \<in> set (map NodeAddr rs)"
    and "\<forall>a\<in>set (map NodeAddr rs). \<not> is_locked (c a) f"
    and "mset (is @ [j]) = mset [0..<length rs]"
    and "NodeAddr (rs ! j) \<noteq> self" and "pollNet env (NodeAddr (rs ! j)) = Unreachable"
    and "\<forall>a\<in>set (map NodeAddr rs). pushDisk env a = goodDisk \<and> pushNet env a \<in> {Delivered, Unreachable}"
    and "\<forall>a\<in>set (map NodeAddr rs). \<forall>x. file_at (c a) f = Some x \<longrightarrow> sha x = sha [] \<longrightarrow> x = []"
  shows "\<exists>c'. MergeFile sha env self got opID (map Poll (is @ [j]) @ map Collect ks) f c = (c', Reply okReply) \<and>
    (\<forall>a\<in>set (map NodeAddr rs). a = self \<or> pushNet env a = Delivered \<longrightarrow> file_at (c' a) f = Some [])"
proof -
  have "j < length rs" using mset_eq_setD [OF assms(5)] by auto
  then show ?thesis
    using merge_stale_error [OF assms(1) refl assms(2,3,4), of "is" j env sha opID ks] assms(5-9) by simp
qed

theorem merge_shared_error_empties_witness:
  "\<exists>c'. MergeFile id \<lparr>pollNet = (\<lambda>a. if a = ''h2:9082'' then Unreachable else Delivered),
        pushNet = (\<lambda>a. if a = ''h2:9082'' then Unreachable else Delivered), pushDisk = (\<lambda>_. goodDisk)\<rparr>
      ''h1:9082'' sample_got ''m'' [Poll 0, Poll 1, Poll 2, Collect 0, Collect 1, Collect 2] ''f'' diverged
      = (c', Reply okReply) \<and>
    file_at (c' ''h1:9082'') ''f'' = Some [] \<and> file_at (c' ''h3:9082'') ''f'' = Some []"
proof -
  let ?net = "\<lambda>a. if a = ''h2:9082'' then Unreachable else Delivered"
  let ?env = "\<lparr>pollNet = ?net, pushNet = ?net, pushDisk = (\<lambda>_. goodDisk)\<rparr>"
  have dist: "distinct (map NodeAddr sample_replicas)" "''h1:9082'' \<in> set (map NodeAddr sample_replicas)"
    by (simp_all add: sample_addrs)
  have free: "\<forall>a\<in>set (map NodeAddr sample_replicas). \<not> is_locked (diverged a) ''f''"
    by (simp add: diverged_def node_with_holds)
  have order: "mset ([0, 1] @ [2]) = mset [0..<length sample_replicas]"
    by (simp add: sample_addrs numeral_3_eq_3 numeral_2_eq_2)
  have lost: "NodeAddr (sample_replicas ! 2) \<noteq> ''h1:9082''" "pollNet ?env (NodeAddr (sample_replicas ! 2)) = Unreachable"
    by (simp_all add: sample_replicas_def)
  have push: "\<forall>a\<in>set (map NodeAddr sample_replicas). pushDisk ?env a = goodDisk \<and> pushNet ?env a \<in> {Delivered, Unreachable}"
    by simp
  have coll: "\<forall>a\<in>set (map NodeAddr sample_replicas). \<forall>x. file_at (diverged a) ''f'' = Some x \<longrightarrow> id x = id [] \<longrightarrow> x = []"
    by simp
  obtain c' where "MergeFile id ?env ''h1:9082'' sample_got ''m'' (map Poll ([0, 1] @ [2]) @ map Collect [0, 1, 2]) ''f'' diverged
      = (c', Reply okReply)"
    and "\<forall>a\<in>set (map NodeAddr sample_replicas). a = ''h1:9082'' \<or> pushNet ?env a = Delivered \<longrightarrow> file_at (c' a) ''f'' = Some []"
    using merge_shared_error_empties [where opID = "''m''" and ks = "[0, 1, 2]",
        OF sample_replicas dist free order lost push coll] by blast
  then show ?thesis by (auto simp: sample_addrs)
qed

section \<open>Appends through any replica, and re-replication\<close>

text \<open>
  \<^verbatim>\<open>TriggerAppend\<close> may send its append through any of the three replicas, not only the
  first: when it reports success, every replica of the file has the bytes at its end.
\<close>

lemma triggered_append_on_all_replicas:
  assumes "TriggerAppend env (Members ms) primaryIndex opID (Some d) f c = Some (c', Reply okReply)"
    and "ring_valid (GetRingInfo ms)" and "primaryIndex < ReplicaNum"
  shows "\<exists>rs. GetReplica (Members ms) f = Inr rs \<and> card (set (map NodeAddr rs)) = 3 \<and>
    (\<forall>a\<in>set (map NodeAddr rs). \<exists>x. file_at (c a) f = Some x \<and> file_at (c' a) f = Some (x @ d))"
proof -
  obtain rs where rs: "GetReplica (Members ms) f = Inr rs"
    using assms(1) by (auto simp: TriggerAppend_def okReply_def failReply_def split: sum.splits)
  then have pl: "place_replicas ms f = Inr rs" by (simp add: GetReplica_def)
  have dist: "distinct (map NodeAddr rs)" using place_replicas_primary [OF pl assms(2)] by blast
  have len: "length rs = ReplicaNum" by (rule place_replicas_replicas(1) [OF pl])
  then have "card (set (map NodeAddr rs)) = 3"
    using dist by (metis ReplicaNum_def distinct_card length_map)
  then show ?thesis
    using rs TriggerAppend_ack [OF assms(1) rs dist len assms(3)] by fastforce
qed

lemma triggered_append_on_all_replicas_witness:
  "\<exists>c'. TriggerAppend goodEnv sample_got 2 ''o3'' (Some ''?'') ''f'' created_cluster = Some (c', Reply okReply) \<and>
    (\<exists>rs. GetReplica sample_got ''f'' = Inr rs \<and> card (set (map NodeAddr rs)) = 3 \<and>
      (\<forall>a\<in>set (map NodeAddr rs). \<exists>x. file_at (created_cluster a) ''f'' = Some x \<and> file_at (c' a) ''f'' = Some (x @ ''?'')))"
proof -
  have "map_option snd (TriggerAppend goodEnv sample_got 2 ''o3'' (Some ''?'') ''f'' created_cluster) = Some (Reply okReply)"
    by code_simp
  then obtain c' where c': "TriggerAppend goodEnv sample_got 2 ''o3'' (Some ''?'') ''f'' created_cluster = Some (c', Reply okReply)"
    by auto
  have "2 < ReplicaNum" by (simp add: ReplicaNum_def)
  from triggered_append_on_all_replicas [OF c' [unfolded sample_got_def] sample_ring this] c' show ?thesis
    unfolding sample_got_def by blast
qed

text \<open>
  \<^verbatim>\<open>Rereplicate\<close> restores replicas: after it, every replica it can reach and write to has
  the primary's data, whether the digest call failed, found no file, or found another content.
\<close>

lemma rereplicate_restores:
  assumes "\<not> is_locked (c self) f" and "file_at (c self) f = Some d" and "log_at (c self) f = Some l"
    and "distinct (self # map NodeAddr nonPrimary)"
    and "\<forall>a\<in>set (map NodeAddr nonPrimary). fixNet env a = Delivered \<and> fixDisk env a = goodDisk \<and> \<not> is_locked (c a) f"
    and "\<forall>a\<in>set (map NodeAddr nonPrimary). \<forall>x. file_at (c a) f = Some x \<longrightarrow> sha x = sha d \<longrightarrow> x = d"
  shows "\<exists>c'. Rereplicate sha env self f nonPrimary c = (c', Reply ()) \<and>
    (\<forall>a\<in>set (map NodeAddr nonPrimary). file_at (c' a) f = Some d)"
  using Rereplicate_copies [OF assms(1-3) _ _ assms(5,6)] assms(4) by simp

lemma rereplicate_restores_witness:
  "\<exists>c'. Rereplicate id \<lparr>checkNet = (\<lambda>a. if a = ''h2:9082'' then Unreachable else Delivered), fixNet = (\<lambda>_. Delivered),
        fixDisk = (\<lambda>_. goodDisk)\<rparr> ''h1:9082'' ''f'' (tl sample_replicas) (empty_cluster(''h1:9082'' := node_with [opA]))
      = (c', Reply ()) \<and>
    (\<forall>a\<in>set (map NodeAddr (tl sample_replicas)). file_at (c' a) ''f'' = Some ''hi'')"
proof -
  let ?c = "empty_cluster(''h1:9082'' := node_with [opA])"
  let ?env = "\<lparr>checkNet = (\<lambda>a. if a = ''h2:9082'' then Unreachable else Delivered), fixNet = (\<lambda>_. Delivered),
        fixDisk = (\<lambda>_. goodDisk)\<rparr>"
  have primary: "\<not> is_locked (?c ''h1:9082'') ''f''" "file_at (?c ''h1:9082'') ''f'' = Some ''hi''"
    "log_at (?c ''h1:9082'') ''f'' = Some (log_text [opA])"
    using node_with_holds [of "[opA]"] by (simp_all add: holds_ops_def opA_def)
  have dist: "distinct (''h1:9082'' # map NodeAddr (tl sample_replicas))" by (simp add: sample_replicas_def)
  have able: "\<forall>a\<in>set (map NodeAddr (tl sample_replicas)). fixNet ?env a = Delivered \<and> fixDisk ?env a = goodDisk \<and> \<not> is_locked (?c a) ''f''"
    by (simp add: sample_replicas_def empty_cluster_def empty_hnode_def is_locked_def)
  have coll: "\<forall>a\<in>set (map NodeAddr (tl sample_replicas)). \<forall>x. file_at (?c a) ''f'' = Some x \<longrightarrow> id x = id ''hi'' \<longrightarrow> x = ''hi''"
    by simp
  show ?thesis by (rule rereplicate_restores [where sha = id, OF primary dist able coll])
qed

section \<open>Ways to lose or block a file\<close>

text \<open>
  Appending to a file a node does not have blocks its name for ever: the handler replies
  that the file is not found, but keeps the file's mutex, and from then on every handler that
  wants the file on this node (create, append, download, digest, reconcile, log poll) blocks.
\<close>

lemma append_to_missing_file_blocks:
  assumes "\<not> is_locked h (HyDFSFileName args)" and "log_at h (HyDFSFileName args) = None"
    and "h' = fst (append_local d args h)" and "HyDFSFileName later = HyDFSFileName args"
    and "recName rec = HyDFSFileName args"
  shows "snd (append_local d args h) = Reply (failReply ''Error: File not found.'')
    \<and> snd (create_local d' later h') = Blocked \<and> snd (append_local d' later h') = Blocked
    \<and> snd (GetFile r (HyDFSFileName args) h') = Blocked \<and> snd (CheckFile sha (HyDFSFileName args) h') = Blocked
    \<and> snd (ReconcileFile sha d' rec h') = Blocked \<and> snd (GetOperationLog (HyDFSFileName args) h') = Blocked"
proof -
  have "is_locked h' (HyDFSFileName args)"
    using append_missing_leaks(2) [OF assms(1,2)] assms(3) by simp
  from locked_blocks_all [OF this] show ?thesis
    using append_missing_leaks(1) [OF assms(1,2)] assms(4,5) by simp
qed

definition sample_write :: WriteFileArgs where
  "sample_write = \<lparr>HyDFSFileName = ''f'', LocalFile = ''hi'', NonPrimary = [''h3:9082'', ''h2:9082''], OperationID = ''o1''\<rparr>"

lemma append_to_missing_file_blocks_witness:
  "snd (append_local goodDisk sample_write empty_hnode) = Reply (failReply ''Error: File not found.'')
   \<and> snd (create_local goodDisk sample_write (fst (append_local goodDisk sample_write empty_hnode))) = Blocked"
proof -
  have "\<not> is_locked empty_hnode (HyDFSFileName sample_write)" "log_at empty_hnode (HyDFSFileName sample_write) = None"
    by (simp_all add: empty_hnode_def is_locked_def log_at_def)
  from append_to_missing_file_blocks [OF this refl refl, where rec = "\<lparr>recName = HyDFSFileName sample_write,
      FinalDataFile = [], FinalLogEntries = [], FinalDataHash = []\<rparr>"]
  show ?thesis by simp
qed

text \<open>
  A create whose replication fails ruins the name on the primary: the data file is removed
  but the log entry stays, so no copy is served, every later create is refused because the file
  exists, and a later append fails and leaves the mutex of the file locked.
\<close>

lemma failed_create_ruins_name:
  assumes "CreateFile env self args c = (c', Reply s)" and "\<not> success s"
    and "acked (snd (create_local (eDisk env) args (c self)))" and "distinct (self # NonPrimary args)"
    and "HyDFSFileName later = HyDFSFileName args"
  shows "snd (GetFile True (HyDFSFileName args) (c' self)) = Reply (failReply ''Error: File not found.'', [])
    \<and> snd (create_local d later (c' self)) = Reply (failReply ''Error: File already exists.'')
    \<and> snd (append_local d later (c' self)) = Error ''open''
    \<and> is_locked (fst (append_local d later (c' self))) (HyDFSFileName args)"
proof -
  note left = failed_create_leaves_log [OF assms(1-4)]
  then have "snd (GetFile True (HyDFSFileName args) (c' self)) = Reply (failReply ''Error: File not found.'', [])"
    by (simp add: GetFile_def with_lock_free)
  moreover have "file_at (c' self) (HyDFSFileName later) = None" "log_at (c' self) (HyDFSFileName later) \<noteq> None"
    "\<not> is_locked (c' self) (HyDFSFileName later)"
    using left assms(5) by simp_all
  ultimately show ?thesis using half_file_handlers assms(5) by metis
qed

lemma failed_create_ruins_name_witness:
  "let c' = fst (CreateFile (goodEnv\<lparr>fNet := (\<lambda>a. if a = ''h2:9082'' then Unreachable else Delivered)\<rparr>) ''h1:9082''
       sample_write empty_cluster)
   in snd (create_local goodDisk sample_write (c' ''h1:9082'')) = Reply (failReply ''Error: File already exists.'')
    \<and> is_locked (fst (append_local goodDisk sample_write (c' ''h1:9082''))) ''f''"
proof -
  let ?env = "goodEnv\<lparr>fNet := (\<lambda>a. if a = ''h2:9082'' then Unreachable else Delivered)\<rparr>"
  let ?run = "CreateFile ?env ''h1:9082'' sample_write empty_cluster"
  have "snd ?run = Reply (failReply ''Failed to replicate all non primary'')" by code_simp
  then have run: "?run = (fst ?run, Reply (failReply ''Failed to replicate all non primary''))" by (metis prod.collapse)
  have first: "acked (snd (create_local (eDisk ?env) sample_write (empty_cluster ''h1:9082'')))" by code_simp
  have dist: "distinct (''h1:9082'' # NonPrimary sample_write)" by (simp add: sample_write_def)
  have name: "HyDFSFileName sample_write = ''f''" by (simp add: sample_write_def)
  show ?thesis
    using failed_create_ruins_name [OF run success_replies(2) first dist refl, of goodDisk]
    unfolding name Let_def by blast
qed

text \<open>
  Files are lost to joins without any failure. The replica check deletes the copies of
  nodes that are no longer replicas, and starts a merge only on a primary that already has the
  file. If the primary of the file in each of a series of membership lists starts without a
  copy, then no check ever starts a merge for the file, and after the checks a node still has
  it only if it is a replica under every list. When no node is, all copies are gone. (\<^verbatim>\<open>Start\<close> does
  not launch the routine at this commit; this is what it does when it is switched on.)
\<close>

lemma joins_lose_file:
  assumes "\<forall>ms\<in>set mss. \<exists>p rest. GetReplica (Members ms) f = Inr (p # rest) \<and> file_at (c (NodeAddr p)) f = None"
  shows "file_at (CheckReplicaRoutine mss c a) f =
      (if \<forall>ms\<in>set mss. \<forall>rs. GetReplica (Members ms) f = Inr rs \<longrightarrow> a \<in> set (map NodeAddr rs)
       then file_at (c a) f else None)
    \<and> (\<forall>pre ms post h merges. mss = pre @ ms # post \<longrightarrow>
         checkReplica a ms (CheckReplicaRoutine pre c a) = Some (h, merges) \<longrightarrow> f \<notin> set merges)"
  using assms
proof (induction mss arbitrary: c)
  case Nil
  then show ?case by (simp add: CheckReplicaRoutine_def)
next
  case (Cons ms mss)
  obtain p rest where p: "GetReplica (Members ms) f = Inr (p # rest)" "file_at (c (NodeAddr p)) f = None"
    using Cons.prems by auto
  then have pl: "place_replicas ms f = Inr (p # rest)" by (simp add: GetReplica_def)
  have tick: "file_at (check_tick ms c b) f = (if b \<in> set (map NodeAddr (p # rest)) then file_at (c b) f else None)" for b
    using checkReplica_placed [OF pl, of b "c b"] by (auto simp: check_tick_def)
  have "\<forall>ms\<in>set mss. \<exists>q rest. GetReplica (Members ms) f = Inr (q # rest) \<and> file_at (check_tick ms0 c (NodeAddr q)) f = None"
    if "ms0 = ms" for ms0
    using Cons.prems tick that by fastforce
  note IH = Cons.IH [OF this [OF refl]]
  have run: "CheckReplicaRoutine (m # pre) c = CheckReplicaRoutine pre (check_tick m c)" for m pre
    by (simp add: CheckReplicaRoutine_def)
  have none: "f \<notin> set merges"
    if split: "ms # mss = pre @ ms1 # post"
      and chk: "checkReplica a ms1 (CheckReplicaRoutine pre c a) = Some (h, merges)" for pre ms1 post h merges
  proof (cases pre)
    case Nil
    then have "checkReplica a ms (c a) = Some (h, merges)" using split chk by (simp add: CheckReplicaRoutine_def)
    then show ?thesis using checkReplica_placed [OF pl, of a "c a"] p(2) by auto
  next
    case (Cons m pre')
    then have "mss = pre' @ ms1 # post"
      and "checkReplica a ms1 (CheckReplicaRoutine pre' (check_tick ms c) a) = Some (h, merges)"
      using split chk by (simp_all add: run)
    then show ?thesis using IH by blast
  qed
  have "file_at (CheckReplicaRoutine (ms # mss) c a) f =
      (if \<forall>ms'\<in>set mss. \<forall>rs. GetReplica (Members ms') f = Inr rs \<longrightarrow> a \<in> set (map NodeAddr rs)
       then file_at (check_tick ms c a) f else None)"
    using IH by (simp add: run)
  then show ?case using tick [of a] p(1) none by (auto split: if_splits)
qed

text \<open>Three nodes join one after the other and take over the file of \<open>h7\<close>, \<open>h8\<close> and \<open>h9\<close>.\<close>

definition old_members :: "member list" where
  "old_members = [sample_member ''m'' ''h7:1'', sample_member ''l'' ''h8:1'', sample_member ''o'' ''h9:1'']"

definition join_lists :: "member list list" where
  "join_lists = [sample_member ''b'' ''h2:1'' # old_members,
     [sample_member ''c'' ''h3:1'', sample_member ''b'' ''h2:1''] @ old_members,
     [sample_member ''a'' ''h1:1'', sample_member ''c'' ''h3:1'', sample_member ''b'' ''h2:1''] @ old_members]"

definition old_cluster :: cluster where
  "old_cluster = fst (CallHyDFSWrite goodEnv (Members old_members) ''f'' ''hi'' CreateMethod ''o1'' empty_cluster)"

lemma joins_lose_file_witness:
  "file_at (old_cluster ''h7:9082'') ''f'' = Some ''hi'' \<and>
   file_at (CheckReplicaRoutine join_lists old_cluster ''h7:9082'') ''f'' = None \<and>
   file_at (CheckReplicaRoutine join_lists old_cluster ''h1:9082'') ''f'' = None"
proof -
  have place: "\<forall>ms\<in>set join_lists. (case GetReplica (Members ms) ''f'' of
      Inr (p # rest) \<Rightarrow> file_at (old_cluster (NodeAddr p)) ''f'' = None | _ \<Rightarrow> False)" by code_simp
  have "\<forall>ms\<in>set join_lists. \<exists>p rest. GetReplica (Members ms) ''f'' = Inr (p # rest)
      \<and> file_at (old_cluster (NodeAddr p)) ''f'' = None"
  proof
    fix ms assume "ms \<in> set join_lists"
    from bspec [OF place this]
    show "\<exists>p rest. GetReplica (Members ms) ''f'' = Inr (p # rest) \<and> file_at (old_cluster (NodeAddr p)) ''f'' = None"
      by (cases "GetReplica (Members ms) ''f''"; cases "projr (GetReplica (Members ms) ''f'')") auto
  qed
  note lost = joins_lose_file [OF this]
  have last: "\<forall>rs. GetReplica (Members (last join_lists)) ''f'' = Inr rs \<longrightarrow> ''h7:9082'' \<notin> set (map NodeAddr rs)"
  proof -
    have "GetReplica (Members (last join_lists)) ''f'' = Inr sample_replicas" by code_simp
    then show ?thesis by (simp add: sample_replicas_def)
  qed
  have "last join_lists \<in> set join_lists" by (simp add: join_lists_def)
  moreover have "GetReplica (Members (last join_lists)) ''f'' = Inr sample_replicas" by code_simp
  ultimately have "file_at (CheckReplicaRoutine join_lists old_cluster ''h7:9082'') ''f'' = None"
    using lost [of "''h7:9082''"] last by (auto split: if_splits)
  moreover have "file_at (old_cluster ''h7:9082'') ''f'' = Some ''hi''" "file_at (old_cluster ''h1:9082'') ''f'' = None"
    by code_simp+
  ultimately show ?thesis using lost [of "''h1:9082''"] by auto
qed

end
