(* ===== verification/Availability.thy ===== *)
theory Availability
  imports HyDFS
begin

text \<open>
  When calls on a file return. A file that every replica holds, with its log and with a free mutex,
  stays that way under every later create, append, download and merge, whatever the network loses and
  however short the writes fall; so none of these calls hangs. The locale \<open>returning_service\<close> is this
  contract, interpreted on the operations of HyDFS.
\<close>

section \<open>Services whose calls return\<close>

fun run_all :: "('op \<Rightarrow> 's \<Rightarrow> 's \<times> 'r outcome) \<Rightarrow> 'op list \<Rightarrow> 's \<Rightarrow> 's \<times> 'r outcome list" where
  "run_all run [] s = (s, [])"
| "run_all run (op # ops) s =
     (case run op s of (s1, r) \<Rightarrow> (case run_all run ops s1 of (s2, rs) \<Rightarrow> (s2, r # rs)))"

locale returning_service =
  fixes run :: "'op \<Rightarrow> 's \<Rightarrow> 's \<times> 'r outcome" and able :: "'op \<Rightarrow> bool" and ready :: "'s \<Rightarrow> bool"
  assumes returns: "able op \<Longrightarrow> ready s \<Longrightarrow> snd (run op s) \<noteq> Blocked"
    and stays_ready: "able op \<Longrightarrow> ready s \<Longrightarrow> ready (fst (run op s))"
begin

lemma all_return:
  "ready s \<Longrightarrow> \<forall>op\<in>set ops. able op \<Longrightarrow> Blocked \<notin> set (snd (run_all run ops s)) \<and> ready (fst (run_all run ops s))"
proof (induction ops arbitrary: s)
  case (Cons op ops)
  obtain s1 r where op: "run op s = (s1, r)" by fastforce
  have "r \<noteq> Blocked" "ready s1" using returns [of op s] stays_ready [of op s] Cons.prems op by simp_all
  then show ?case using Cons.IH [of s1] Cons.prems op by (auto split: prod.split)
qed simp

end

section \<open>One node\<close>

definition usable :: "string \<Rightarrow> hnode \<Rightarrow> bool" where
  "usable f h \<longleftrightarrow> file_at h f \<noteq> None \<and> log_at h f \<noteq> None \<and> \<not> is_locked h f"

definition good_run :: "string \<Rightarrow> hnode \<times> 'r outcome \<Rightarrow> bool" where
  "good_run f hr \<longleftrightarrow> usable f (fst hr) \<and> snd hr \<noteq> Blocked"

lemma good_through: "usable f h \<Longrightarrow> good_run f run \<Longrightarrow> good_run f (through n h run)"
  by (auto simp: good_run_def through_def split: net.split outcome.split)

lemma append_good:
  assumes "usable (HyDFSFileName args) h" and "dOpenFile d"
  shows "good_run (HyDFSFileName args) (append_local d args h)"
  using assms
  by (auto simp: good_run_def usable_def append_local_def with_lock_free Let_def append_file_def append_log_def)

lemma create_good:
  assumes "usable (HyDFSFileName args) h"
  shows "good_run (HyDFSFileName args) (create_local d args h)" and "\<not> acked (snd (create_local d args h))"
  using assms
  by (auto simp: good_run_def usable_def create_local_def with_lock_free Let_def acked_def)

lemma get_good: "usable f h \<Longrightarrow> good_run f (GetFile b f h)"
  by (auto simp: good_run_def usable_def GetFile_def with_lock_free split: option.split)

lemma log_good: "usable f h \<Longrightarrow> good_run f (GetOperationLog f h)"
  by (auto simp: good_run_def usable_def GetOperationLog_def with_lock_free split: option.split)

lemma local_reconcile_usable: "usable (recName args) h \<Longrightarrow> usable (recName args) (fst (localReconcileFile sha d args h))"
  by (auto simp: usable_def localReconcileFile_def Let_def write_file_def write_log_def)

lemma reconcile_good:
  assumes "usable (recName args) h"
  shows "good_run (recName args) (ReconcileFile sha d args h)"
proof -
  have free: "usable (recName args) (getFileMetadata (recName args) h)" using assms by (simp add: usable_def)
  show ?thesis
    using local_reconcile_usable [OF free, of sha d] assms
    by (auto simp: good_run_def ReconcileFile_def usable_def with_lock_free split: prod.split)
qed

section \<open>The replicas of a file\<close>

definition available :: "string \<Rightarrow> string list \<Rightarrow> cluster \<Rightarrow> bool" where
  "available f addrs c \<longleftrightarrow> (\<forall>a\<in>set addrs. usable f (c a))"

definition opens :: "wenv \<Rightarrow> bool" where
  "opens env \<longleftrightarrow> dOpenFile (eDisk env) \<and> (\<forall>a. dOpenFile (fDisk env a))"

lemma available_upd: "available f addrs c \<Longrightarrow> usable f h \<Longrightarrow> available f addrs (c(a := h))"
  by (simp add: available_def)

lemma fan_good:
  assumes "opens env" and "usable (HyDFSFileName args) h" and "method \<in> {CreateMethod, AppendMethod}"
  shows "good_run (HyDFSFileName args) (fan_call env method args a h)"
proof -
  let ?args = "args\<lparr>NonPrimary := []\<rparr>"
  have "good_run (HyDFSFileName ?args) (serve_local method (fDisk env a) ?args h)"
    using append_good [of ?args h "fDisk env a"] create_good(1) [of ?args h "fDisk env a"] assms
    by (auto simp: serve_local_def opens_def)
  then show ?thesis using good_through [OF assms(2)] by (simp add: fan_call_def)
qed

lemma fan_fold_good:
  assumes "opens env" and "available (HyDFSFileName args) addrs c" and "set targets \<subseteq> set addrs"
    and "method \<in> {CreateMethod, AppendMethod}" and "foldl (fan_step env method args) (c, n, False) targets = (c', n', hangs)"
  shows "available (HyDFSFileName args) addrs c' \<and> \<not> hangs"
  using assms
proof (induction targets arbitrary: c n)
  case (Cons a targets)
  have "usable (HyDFSFileName args) (c a)" using Cons.prems(2,3) by (simp add: available_def)
  note call = fan_good [OF Cons.prems(1) this Cons.prems(4), of a, unfolded good_run_def]
  have upd: "available (HyDFSFileName args) addrs (c(a := fst (fan_call env method args a (c a))))"
    using available_upd [OF Cons.prems(2)] call by blast
  have rest: "set targets \<subseteq> set addrs" using Cons.prems(3) by simp
  have "foldl (fan_step env method args) (c(a := fst (fan_call env method args a (c a))),
      if acked (snd (fan_call env method args a (c a))) then Suc n else n, False) targets = (c', n', hangs)"
    using Cons.prems(5) call by (simp only: foldl_Cons fan_step_eq simp_thms)
  then show ?case by (rule Cons.IH [OF Cons.prems(1) upd rest Cons.prems(4)])
qed simp

lemma serve_write_good:
  assumes "opens env" and "available (HyDFSFileName args) addrs c"
    and "self \<in> set addrs" "set (NonPrimary args) \<subseteq> set addrs"
  shows "available (HyDFSFileName args) addrs (fst (serve_write method env self args c)) \<and>
    snd (serve_write method env self args c) \<noteq> Blocked"
proof -
  let ?f = "HyDFSFileName args"
  have usable: "usable ?f (c self)" using assms(2,3) by (simp add: available_def)
  obtain h0 r0 where run0: "create_local (eDisk env) args (c self) = (h0, r0)" by fastforce
  then have "usable ?f h0" "r0 \<noteq> Blocked" "\<not> acked r0"
    using create_good [OF usable, of "eDisk env"] by (simp_all add: good_run_def)
  then have create: "available ?f addrs (fst (CreateFile env self args c)) \<and> snd (CreateFile env self args c) \<noteq> Blocked"
    using available_upd [OF assms(2)] run0 by (simp add: CreateFile_def Let_def)
  have local: "good_run ?f (append_local (eDisk env) args (c self))"
    using append_good [OF usable] assms(1) by (simp add: opens_def)
  obtain h r where run: "append_local (eDisk env) args (c self) = (h, r)" by fastforce
  have c1: "available ?f addrs (c(self := h))" "r \<noteq> Blocked"
    using available_upd [OF assms(2), of h] local run by (simp_all add: good_run_def)
  obtain c2 n hangs where fold: "foldl (fan_step env AppendMethod args) (c(self := h), 0, False) (NonPrimary args) = (c2, n, hangs)"
    by (metis prod_cases3)
  have "available ?f addrs c2 \<and> \<not> hangs" by (rule fan_fold_good [OF assms(1) c1(1) assms(4) _ fold]) simp
  then have "available ?f addrs (fst (AppendFile env self args c)) \<and> snd (AppendFile env self args c) \<noteq> Blocked"
    using run c1 fold by (auto simp: AppendFile_def primaryWrite_def Let_def)
  then show ?thesis using create assms(2) by (auto simp: serve_write_def)
qed

lemma write_returns:
  assumes "opens env" and "GetReplica got f = Inr rs" and "available f (map NodeAddr rs) c"
  shows "available f (map NodeAddr rs) (fst (CallHyDFSWrite env got f d method opID c)) \<and>
    snd (CallHyDFSWrite env got f d method opID c) \<noteq> Blocked"
proof (cases rs)
  case Nil
  then show ?thesis using assms by (simp add: CallHyDFSWrite_def available_def)
next
  case (Cons p rest)
  let ?args = "\<lparr>HyDFSFileName = f, LocalFile = d, NonPrimary = map NodeAddr rest, OperationID = opID\<rparr>"
  have "available f (map NodeAddr rs) (fst (serve_write method env (NodeAddr p) ?args c)) \<and>
    snd (serve_write method env (NodeAddr p) ?args c) \<noteq> Blocked"
    using serve_write_good [OF assms(1), of ?args "map NodeAddr rs" c "NodeAddr p"] assms(3) Cons by auto
  then show ?thesis
    using assms Cons
    by (cases "eNet env") (auto simp: CallHyDFSWrite_def Let_def through_def split: prod.split outcome.split)
qed

lemma fetch_from_good:
  assumes "available f addrs c" and "a \<in> set addrs"
  shows "available f addrs (fst (fetch_from nets a f c)) \<and> snd (fetch_from nets a f c) \<noteq> Blocked"
proof -
  have "usable f (c a)" using assms by (simp add: available_def)
  then have "good_run f (through (nets a) (c a) (GetFile True f (c a)))" by (intro good_through get_good)
  then show ?thesis
    using available_upd [OF assms(1)] by (auto simp: fetch_from_def good_run_def split: prod.split)
qed

lemma fetch_any_returns:
  assumes "available f addrs c" and "set (map NodeAddr rs) \<subseteq> set addrs"
  shows "available f addrs (fst (fetch_any nets f rs c)) \<and> snd (fetch_any nets f rs c) \<noteq> Blocked"
  using assms
proof (induction rs arbitrary: c)
  case (Cons r rs)
  obtain c' o' where f: "fetch_from nets (NodeAddr r) f c = (c', o')" by fastforce
  have "available f addrs c'" "o' \<noteq> Blocked"
    using fetch_from_good [OF Cons.prems(1), of "NodeAddr r" nets] Cons.prems(2) f by simp_all
  then show ?case using Cons.IH [of c'] Cons.prems(2) f by (auto split: outcome.split)
qed simp

lemma poll_good:
  assumes "available f addrs (pNodes st)" and "\<not> pHangs st" and "goroutine ev < length addrs"
  shows "available f addrs (pNodes (merge_event env self f addrs st ev)) \<and> \<not> pHangs (merge_event env self f addrs st ev)"
proof (cases ev)
  case (Poll i)
  let ?a = "addrs ! i"
  have "usable f (pNodes st ?a)" using assms(1,3) Poll by (simp add: available_def)
  then have "good_run f (through (pollNet env ?a) (pNodes st ?a) (GetOperationLog f (pNodes st ?a)))"
    by (intro good_through log_good)
  then show ?thesis
    using assms available_upd [OF assms(1)] Poll
    by (auto simp: merge_event_def poll_step_def Let_def good_run_def split: prod.split outcome.split)
next
  case (Collect i)
  then show ?thesis
    using assms by (auto simp: merge_event_def collect_step_def split: option.split)
qed

lemma poll_logs_good:
  assumes "available f addrs (pNodes st)" and "\<not> pHangs st" and "\<forall>ev\<in>set sched. goroutine ev < length addrs"
  shows "available f addrs (pNodes (foldl (merge_event env self f addrs) st sched)) \<and>
    \<not> pHangs (foldl (merge_event env self f addrs) st sched)"
  using assms
proof (induction sched arbitrary: st)
  case (Cons ev sched)
  then show ?case using poll_good [OF Cons.prems(1,2), of ev env self] by simp
qed simp

lemma push_good:
  assumes "available (recName args) addrs c" and "a \<in> set addrs"
  shows "available (recName args) addrs (c(a := fst (reconcile_at sha env self args a (c a)))) \<and>
    \<not> snd (reconcile_at sha env self args a (c a))"
proof -
  have a: "usable (recName args) (c a)" using assms by (simp add: available_def)
  then have "good_run (recName args) (through (pushNet env a) (c a) (ReconcileFile sha (pushDisk env a) args (c a)))"
    by (intro good_through reconcile_good)
  then show ?thesis
    using available_upd [OF assms(1)] local_reconcile_usable [OF a]
    by (auto simp: reconcile_at_def good_run_def split: prod.split)
qed

lemma push_fold_good:
  assumes "available (recName args) addrs c" and "set targets \<subseteq> set addrs"
    and "foldl (push_step sha env self args) (c, False) targets = (c', hangs)"
  shows "available (recName args) addrs c' \<and> \<not> hangs"
  using assms
proof (induction targets arbitrary: c)
  case (Cons a targets)
  have a: "a \<in> set addrs" "set targets \<subseteq> set addrs" using Cons.prems(2) by simp_all
  note one = push_good [OF Cons.prems(1) a(1), of sha env self]
  have "foldl (push_step sha env self args) (c(a := fst (reconcile_at sha env self args a (c a))), False) targets = (c', hangs)"
    using Cons.prems(3) one by (simp only: foldl_Cons push_step_at simp_thms)
  then show ?case by (rule Cons.IH [OF conjunct1 [OF one] a(2)])
qed simp

lemma merge_returns:
  assumes "GetReplica got f = Inr rs" and "available f (map NodeAddr rs) c" and "self \<in> set (map NodeAddr rs)"
    and "valid_schedule (length rs) sched"
  shows "available f (map NodeAddr rs) (fst (MergeFile sha env self got opID sched f c)) \<and>
    snd (MergeFile sha env self got opID sched f c) \<noteq> Blocked"
proof -
  let ?addrs = "map NodeAddr rs" and ?c0 = "c(self := getFileMetadata f (c self))"
  have self: "usable f (c self)" using assms(2,3) unfolding available_def by blast
  then have c0: "available f ?addrs ?c0" by (intro available_upd [OF assms(2)]) (simp add: usable_def)
  have events: "\<forall>ev\<in>set sched. goroutine ev < length ?addrs" using assms(4) by (simp add: valid_schedule_def)
  define st where "st = poll_logs env self f ?addrs sched ?c0"
  have "available f ?addrs (pNodes (start_poll ?c0))" "\<not> pHangs (start_poll ?c0)" using c0 by (simp_all add: start_poll_def)
  from poll_logs_good [OF this events]
  have st: "available f ?addrs (pNodes st)" "\<not> pHangs st" by (simp_all add: st_def poll_logs_def)
  define args where "args = compact sha f opID (sort_ops (allOps st))"
  obtain c2 hangs where fold: "foldl (push_step sha env self args) (pNodes st, False) ?addrs = (c2, hangs)" by fastforce
  have rec: "recName args = f" by (simp add: args_def)
  have "available f ?addrs c2 \<and> \<not> hangs"
    using push_fold_good [where args = args and addrs = ?addrs, OF _ subset_refl fold] st(1) rec by simp
  moreover have "\<not> is_locked (?c0 self) f" using self by (simp add: usable_def)
  ultimately have "MergeFile sha env self got opID sched f c = (c2, Reply okReply)"
    using assms(1) st(2) fold by (simp add: MergeFile_def Let_def st_def args_def)
  then show ?thesis using \<open>available f ?addrs c2 \<and> \<not> hangs\<close> by simp
qed

section \<open>Any sequence of calls\<close>

datatype file_op =
    Write string wenv string string
  | Download "string \<Rightarrow> net"
  | MergeAt string menv "poll_event list" string

definition forget :: "'r outcome \<Rightarrow> unit outcome" where
  "forget r = (case r of Blocked \<Rightarrow> Blocked | Error e \<Rightarrow> Error e | Reply _ \<Rightarrow> Reply ())"

lemma forget_Blocked [simp]: "forget r = Blocked \<longleftrightarrow> r = Blocked"
  by (cases r) (simp_all add: forget_def)

definition run_op :: "(string \<Rightarrow> string) \<Rightarrow> fetched \<Rightarrow> string \<Rightarrow> file_op \<Rightarrow> cluster \<Rightarrow> cluster \<times> unit outcome" where
  "run_op sha got f op c =
     (case op of
        Write kind env d opID \<Rightarrow> CallHyDFSWrite env got f d kind opID c
      | Download nets \<Rightarrow>
          (case GetReplica got f of
             Inl e \<Rightarrow> (c, Error e)
           | Inr rs \<Rightarrow> (case fetch_any nets f rs c of (c', r) \<Rightarrow> (c', forget r)))
      | MergeAt self env sched opID \<Rightarrow>
          (case MergeFile sha env self got opID sched f c of (c', r) \<Rightarrow> (c', forget r)))"

definition op_able :: "NodeInfo list \<Rightarrow> file_op \<Rightarrow> bool" where
  "op_able rs op =
     (case op of
        Write kind env d opID \<Rightarrow> opens env
      | Download nets \<Rightarrow> True
      | MergeAt self env sched opID \<Rightarrow> self \<in> set (map NodeAddr rs) \<and> valid_schedule (length rs) sched)"

definition file_ready :: "fetched \<Rightarrow> string \<Rightarrow> NodeInfo list \<Rightarrow> cluster \<Rightarrow> bool" where
  "file_ready got f rs c \<longleftrightarrow> GetReplica got f = Inr rs \<and> available f (map NodeAddr rs) c"

interpretation files: returning_service "run_op sha got f" "op_able rs" "file_ready got f rs" for sha got f rs
proof unfold_locales
  fix op c
  assume op: "op_able rs op" and "file_ready got f rs c"
  then have rs: "GetReplica got f = Inr rs" "available f (map NodeAddr rs) c" by (simp_all add: file_ready_def)
  have "available f (map NodeAddr rs) (fst (run_op sha got f op c)) \<and> snd (run_op sha got f op c) \<noteq> Blocked"
  proof (cases op)
    case (Write kind env d opID)
    then show ?thesis using write_returns [OF _ rs] op by (simp add: run_op_def op_able_def)
  next
    case (Download nets)
    then show ?thesis
      using fetch_any_returns [OF rs(2) subset_refl, of nets] rs(1) by (auto simp: run_op_def split: prod.split)
  next
    case (MergeAt self env sched opID)
    then show ?thesis
      using merge_returns [OF rs, of self sched sha env opID] op by (auto simp: run_op_def op_able_def split: prod.split)
  qed
  then show "snd (run_op sha got f op c) \<noteq> Blocked" "file_ready got f rs (fst (run_op sha got f op c))"
    using rs(1) by (simp_all add: file_ready_def)
qed

section \<open>After an acknowledged create\<close>

lemma fan_create_locks: "is_locked (fst (fan_call env CreateMethod args a h)) g = is_locked h g"
  by (auto simp: fan_call_def serve_local_def through_def create_keeps_locks split: net.split)

lemma fan_fold_create_locks:
  "is_locked (fst (foldl (fan_step env CreateMethod args) st addrs) a) g = is_locked (fst st a) g"
proof (induction addrs arbitrary: st)
  case (Cons b addrs)
  obtain c n x where "st = (c, n, x)" by (cases st)
  then show ?case using Cons [of "fan_step env CreateMethod args st b"] by (simp add: fan_step_eq fan_create_locks)
qed simp

lemma CreateFile_locks: "is_locked (fst (CreateFile env self args c) a) g = is_locked (c a) g"
proof -
  obtain h r where loc: "create_local (eDisk env) args (c self) = (h, r)" by fastforce
  then have h: "is_locked h g = is_locked (c self) g" using create_keeps_locks [of "eDisk env" args "c self" g] by simp
  obtain c2 r2 where pw: "primaryWrite env CreateMethod args (c(self := h)) = (c2, r2)" by fastforce
  have "c2 = fst (foldl (fan_step env CreateMethod args) (c(self := h), 0, False) (NonPrimary args))"
    using pw by (simp add: primaryWrite_def case_prod_beta)
  then have "is_locked (c2 b) g = is_locked ((c(self := h)) b) g" for b
    using fan_fold_create_locks [of env args "(c(self := h), 0, False)" "NonPrimary args" b g] by simp
  then show ?thesis using h by (auto simp: CreateFile_def loc pw Let_def split: outcome.split)
qed

lemma CreateFile_ack_free:
  assumes "CreateFile env self args c = (c', r)" and "acked r"
    and "distinct (self # NonPrimary args)" and "a \<in> set (self # NonPrimary args)"
  shows "\<not> is_locked (c a) (HyDFSFileName args)"
proof
  assume locked: "is_locked (c a) (HyDFSFileName args)"
  obtain h r1 where loc: "create_local (eDisk env) args (c self) = (h, r1)" by fastforce
  have ack1: "acked r1" using assms(1,2) loc by (auto simp: CreateFile_def Let_def split: if_splits)
  show False
  proof (cases "a = self")
    case True
    then have "r1 = Blocked" using locked loc by (auto simp: create_local_def Let_def with_lock_blocked)
    then show False using ack1 by (simp add: acked_def)
  next
    case False
    then have a: "a \<in> set (NonPrimary args)" "NonPrimary args \<noteq> []" using assms(4) by auto
    obtain c2 r2 where pw: "primaryWrite env CreateMethod args (c(self := h)) = (c2, r2)" by fastforce
    have "acked r2"
      using assms(1,2) loc ack1 a(2) pw
      by (auto simp: CreateFile_def Let_def acked_def split: outcome.splits if_splits)
    then have all: "\<forall>x\<in>set (NonPrimary args). acked (snd (fan_call env CreateMethod args x ((c(self := h)) x)))"
      using primaryWrite_ack(1) [OF _ pw] assms(3) by simp
    have "acked (snd (fan_call env CreateMethod args a (c a)))" using bspec [OF all a(1)] False by simp
    moreover have "snd (create_local (fDisk env a) (args\<lparr>NonPrimary := []\<rparr>) (c a)) = Blocked"
      using locked by (simp add: create_local_def Let_def with_lock_blocked)
    ultimately show False
      by (auto simp: fan_call_def serve_local_def through_def acked_def split: net.splits outcome.splits)
  qed
qed

lemma created_ready:
  assumes "CallHyDFSWrite env got f data CreateMethod opID c = (c', Reply ())"
    and "GetReplica got f = Inr rs" and "distinct (map NodeAddr rs)"
  shows "file_ready got f rs c'"
  unfolding file_ready_def available_def usable_def
proof (intro conjI ballI assms(2))
  fix a assume "a \<in> set (map NodeAddr rs)"
  then obtain n where n: "n \<in> set rs" "a = NodeAddr n" by auto
  show "file_at (c' a) f \<noteq> None" "log_at (c' a) f \<noteq> None"
    using acknowledged_create_on_all_replicas(2,3) [OF assms n(1)] n(2) by simp_all
  obtain p rest s where rs: "rs = p # rest" "success s" and run: "serve_write CreateMethod env (NodeAddr p)
      \<lparr>HyDFSFileName = f, LocalFile = data, NonPrimary = map NodeAddr rest, OperationID = opID\<rparr> c = (c', Reply s)"
    using CallHyDFSWrite_ack [OF assms(1)] assms(2) by auto
  then have create: "CreateFile env (NodeAddr p)
      \<lparr>HyDFSFileName = f, LocalFile = data, NonPrimary = map NodeAddr rest, OperationID = opID\<rparr> c = (c', Reply s)"
    by (simp add: serve_write_def)
  have "\<not> is_locked (c a) f"
    using CreateFile_ack_free [OF create, of a] rs assms(3) n by (auto simp: acked_def)
  then show "\<not> is_locked (c' a) f"
    using CreateFile_locks [of env "NodeAddr p" _ c a f] create by (metis fst_conv)
qed

text \<open>
  C4. A file whose creation was acknowledged can be used for ever. Whatever creates, appends, downloads
  and merges of it follow, in any order, with any loss of calls and replies and any short write,
  every one of them returns, provided the replicas can open their copies; and the file stays in that
  state on all its replicas.
\<close>

theorem file_calls_return:
  assumes "CallHyDFSWrite env got f data CreateMethod opID c = (c', Reply ())"
    and "GetReplica got f = Inr rs" and "distinct (map NodeAddr rs)" and "\<forall>op\<in>set ops. op_able rs op"
    and "run_all (run_op sha got f) ops c' = (c'', results)"
  shows "Blocked \<notin> set results \<and>
    (\<forall>a\<in>set (map NodeAddr rs). file_at (c'' a) f \<noteq> None \<and> log_at (c'' a) f \<noteq> None \<and> \<not> is_locked (c'' a) f)"
  using files.all_return [OF created_ready [OF assms(1-3)] assms(4), of sha] assms(5)
  by (simp add: file_ready_def available_def usable_def)

theorem file_calls_return_witness:
  "\<exists>c results. run_all (run_op (\<lambda>x. x) sample_got ''f'')
      [Write AppendMethod (goodEnv\<lparr>eNet := ReplyLost\<rparr>) ''x'' ''o2'', Download (\<lambda>_. Delivered),
       MergeAt ''h1:9082'' goodMerge [Poll 0, Collect 0, Poll 1, Poll 2, Collect 2, Collect 1] ''m''] created_cluster
     = (c, results) \<and> Blocked \<notin> set results"
proof -
  let ?ops = "[Write AppendMethod (goodEnv\<lparr>eNet := ReplyLost\<rparr>) ''x'' ''o2'', Download (\<lambda>_. Delivered),
       MergeAt ''h1:9082'' goodMerge [Poll 0, Collect 0, Poll 1, Poll 2, Collect 2, Collect 1] ''m'']"
  have addrs: "distinct (map NodeAddr sample_replicas)" using sample_addrs by simp
  have sched: "valid_schedule 3 [Poll 0, Collect 0, Poll 1, Poll 2, Collect 2, Collect 1]"
    by (auto simp: valid_schedule_def less_Suc_eq numeral_3_eq_3)
  have able: "\<forall>op\<in>set ?ops. op_able sample_replicas op"
    using sample_addrs sched by (simp add: op_able_def opens_def sample_replicas_def numeral_3_eq_3)
  obtain c results where run: "run_all (run_op (\<lambda>x. x) sample_got ''f'') ?ops created_cluster = (c, results)" by fastforce
  from file_calls_return [OF sample_create sample_replicas addrs able run] run show ?thesis by blast
qed

section \<open>One missing copy\<close>

lemma log_keeps_locks: "is_locked (fst (GetOperationLog f h)) g = is_locked h g"
  by (simp add: GetOperationLog_def with_lock_def Let_def)

lemma poll_keeps_lock:
  "is_locked (pNodes (merge_event env self f addrs st ev) b) f = is_locked (pNodes st b) f"
proof (cases ev)
  case (Poll i)
  let ?a = "addrs ! i"
  have "is_locked (fst (through (pollNet env ?a) (pNodes st ?a) (GetOperationLog f (pNodes st ?a)))) f
      = is_locked (pNodes st ?a) f"
    by (simp add: through_def log_keeps_locks split: net.split)
  then show ?thesis
    using Poll by (auto simp: merge_event_def poll_step_def Let_def split: prod.split outcome.split)
qed (auto simp: merge_event_def collect_step_def split: option.split)

lemma poll_keeps_hang: "pHangs st \<Longrightarrow> pHangs (merge_event env self f addrs st ev)"
  by (cases ev) (auto simp: merge_event_def poll_step_def collect_step_def Let_def
      split: prod.split outcome.split option.split)

lemma fold_keeps_hang: "pHangs st \<Longrightarrow> pHangs (foldl (merge_event env self f addrs) st sched)"
  by (induction sched arbitrary: st) (simp_all add: poll_keeps_hang)

lemma poll_locked_hangs:
  assumes "Poll i \<in> set sched" and "addrs ! i \<noteq> self" and "pollNet env (addrs ! i) \<noteq> Unreachable"
    and "is_locked (pNodes st (addrs ! i)) f"
  shows "pHangs (foldl (merge_event env self f addrs) st sched)"
  using assms
proof (induction sched arbitrary: st)
  case (Cons ev sched)
  show ?case
  proof (cases "ev = Poll i")
    case True
    let ?h = "pNodes st (addrs ! i)"
    have "GetOperationLog f ?h = (getFileMetadata f ?h, Blocked)"
      using Cons.prems(4) by (simp add: GetOperationLog_def with_lock_blocked)
    then have "snd (through (pollNet env (addrs ! i)) ?h (GetOperationLog f ?h)) = Blocked"
      using Cons.prems(3) by (simp add: through_def split: net.split)
    then have "pHangs (merge_event env self f addrs st ev)"
      using Cons.prems(2) True by (auto simp: merge_event_def poll_step_def Let_def split: prod.split)
    then show ?thesis by (simp add: fold_keeps_hang)
  next
    case False
    then show ?thesis
      using Cons.IH [of "merge_event env self f addrs st ev"] Cons.prems poll_keeps_lock [of env self f addrs st ev] by simp
  qed
qed simp

lemma append_missing_copy:
  assumes "GetReplica got f = Inr (p # rest)" and "distinct (map NodeAddr (p # rest))"
    and "usable f (c (NodeAddr p))" and "eDisk env = goodDisk" "eNet env \<noteq> Unreachable"
    and "a \<in> set (map NodeAddr rest)" "log_at (c a) f = None" "\<not> is_locked (c a) f" "fNet env a \<noteq> Unreachable"
    and "CallHyDFSWrite env got f d AppendMethod opID c = (c1, r)"
  shows "r \<noteq> Reply ()" and "is_locked (c1 a) f" and "\<not> is_locked (c1 (NodeAddr p)) f"
proof -
  let ?p = "NodeAddr p"
  let ?args = "\<lparr>HyDFSFileName = f, LocalFile = d, NonPrimary = map NodeAddr rest, OperationID = opID\<rparr>"
  obtain h r1 where loc: "append_local (eDisk env) ?args (c ?p) = (h, r1)" by fastforce
  have h: "r1 = Reply okReply" "\<not> is_locked h f"
    using loc assms(3,4) by (auto simp: append_local_def usable_def with_lock_free Let_def append_file_def append_log_def)
  have ne: "map NodeAddr rest \<noteq> []" and dist: "distinct (map NodeAddr rest)" "?p \<notin> set (map NodeAddr rest)"
    using assms(2,6) by auto
  obtain c2 r2 where pw: "primaryWrite env AppendMethod ?args (c(?p := h)) = (c2, r2)" by fastforce
  have run: "AppendFile env ?p ?args c = (c2, r2)"
    using loc h(1) ne pw by (simp add: AppendFile_def Let_def acked_def)
  have a: "a \<noteq> ?p" using assms(6) dist(2) by blast
  note leak = append_missing_leaks [of "c a" "?args\<lparr>NonPrimary := []\<rparr>" "fDisk env a"]
  have call: "is_locked (fst (fan_call env AppendMethod ?args a (c a))) f"
    "\<not> acked (snd (fan_call env AppendMethod ?args a (c a)))"
    using leak assms(7-9)
    by (auto simp: fan_call_def serve_local_def through_def acked_def split: net.split outcome.split)
  have c2: "c2 = (\<lambda>b. if b \<in> set (map NodeAddr rest) then fst (fan_call env AppendMethod ?args b ((c(?p := h)) b)) else (c(?p := h)) b)"
    using primaryWrite_ack(2) [OF _ pw] dist(1) by simp
  have "\<not> acked r2"
    using primaryWrite_ack(1) [OF _ pw] dist(1) call(2) a assms(6) by (auto intro!: bexI [where x = a])
  then have "c1 = c2 \<and> r \<noteq> Reply ()"
    using assms(1,5,10) run
    by (auto simp: CallHyDFSWrite_def serve_write_def Let_def through_def acked_def
        split: net.splits outcome.splits if_splits)
  then show "r \<noteq> Reply ()" "is_locked (c1 a) f" "\<not> is_locked (c1 ?p) f"
    using c2 call(1) a assms(6) dist(2) h(2) by simp_all
qed

text \<open>
  C35. One missing copy takes the whole file down. If a replica does not have the file and an append
  reaches it, the append fails and leaves the mutex of the name locked there; the merge that is meant
  to repair the copy then polls that replica, never returns, and keeps the mutex of the primary: from
  then on every read of the primary and every append hangs.
\<close>

theorem missing_copy_spreads:
  assumes "GetReplica got f = Inr (p # rest)" and "distinct (map NodeAddr (p # rest))"
    and "usable f (c (NodeAddr p))" and "eDisk env = goodDisk" "eNet env \<noteq> Unreachable"
    and "a \<in> set (map NodeAddr rest)" "log_at (c a) f = None" "\<not> is_locked (c a) f" "fNet env a \<noteq> Unreachable"
    and "CallHyDFSWrite env got f d AppendMethod opID c = (c1, r)"
    and "valid_schedule (length (p # rest)) sched" and "pollNet menv a \<noteq> Unreachable"
    and "MergeFile sha menv (NodeAddr p) got mid sched f c1 = (c2, r2)"
  shows "r \<noteq> Reply () \<and> is_locked (c1 a) f \<and> r2 = Blocked \<and> is_locked (c2 (NodeAddr p)) f \<and>
    snd (GetFile True f (c2 (NodeAddr p))) = Blocked \<and>
    (eNet env2 \<noteq> Unreachable \<longrightarrow> snd (CallHyDFSWrite env2 got f d2 AppendMethod op2 c2) = Blocked)"
proof -
  let ?p = "NodeAddr p" and ?addrs = "map NodeAddr (p # rest)"
  note app = append_missing_copy [OF assms(1-10)]
  have "?p \<notin> set (map NodeAddr rest)" using assms(2) by simp
  then have a: "a \<noteq> ?p" using assms(6) by blast
  obtain i where i: "i < length ?addrs" "?addrs ! i = a" using assms(6) by (metis in_set_conv_nth list.set_intros(2) list.simps(9))
  let ?c0 = "c1(?p := getFileMetadata f (c1 ?p))"
  have "filter (\<lambda>ev. goroutine ev = i) sched = [Poll i, Collect i]" using assms(11) i(1) by (simp add: valid_schedule_def)
  then have "Poll i \<in> set sched" by (metis filter_is_subset list.set_intros(1) subsetD)
  then have hang: "pHangs (poll_logs menv ?p f ?addrs sched ?c0)"
    unfolding poll_logs_def
    by (rule poll_locked_hangs) (use i a assms(12) app(2) in \<open>simp_all add: start_poll_def\<close>)
  have merge: "r2 = Blocked \<and> is_locked (c2 ?p) f"
    using assms(1,13) hang app(3) by (auto simp: MergeFile_def Let_def)
  then have "snd (GetFile True f (c2 ?p)) = Blocked" by (simp add: GetFile_def with_lock_blocked)
  moreover have "snd (CallHyDFSWrite env2 got f d2 AppendMethod op2 c2) = Blocked" if "eNet env2 \<noteq> Unreachable"
    using assms(1) merge that
    by (auto simp: CallHyDFSWrite_def serve_write_def AppendFile_def append_local_def with_lock_blocked Let_def
        through_def acked_def split: net.split)
  ultimately show ?thesis using app merge by blast
qed

text \<open>The sample file, removed from its third replica.\<close>

definition torn_cluster :: cluster where
  "torn_cluster = created_cluster(''h2:9082'' := empty_hnode)"

theorem missing_copy_spreads_witness:
  "\<exists>c1 r c2. CallHyDFSWrite goodEnv sample_got ''f'' ''x'' AppendMethod ''o2'' torn_cluster = (c1, r) \<and> r \<noteq> Reply () \<and>
    MergeFile (\<lambda>x. x) goodMerge ''h1:9082'' sample_got ''m''
      [Poll 0, Collect 0, Poll 1, Poll 2, Collect 2, Collect 1] ''f'' c1 = (c2, Blocked) \<and>
    snd (GetFile True ''f'' (c2 ''h1:9082'')) = Blocked"
proof -
  let ?p = "\<lparr>NodeID = 3826002220, NodeAddr = ''h1:9082''\<rparr>" and ?sched = "[Poll 0, Collect 0, Poll 1, Poll 2, Collect 2, Collect 1]"
  let ?rest = "[\<lparr>NodeID = 3859557458, NodeAddr = ''h3:9082''\<rparr>, \<lparr>NodeID = 3876335077, NodeAddr = ''h2:9082''\<rparr>]"
  have rs: "GetReplica sample_got ''f'' = Inr (?p # ?rest)" using sample_replicas by (simp add: sample_replicas_def)
  have d: "distinct (map NodeAddr (?p # ?rest))" by simp
  have "file_ready sample_got ''f'' sample_replicas created_cluster"
    using created_ready [OF sample_create sample_replicas] sample_addrs by simp
  then have "usable ''f'' (created_cluster ''h1:9082'')"
    by (simp add: file_ready_def available_def sample_replicas_def)
  then have u: "usable ''f'' (torn_cluster (NodeAddr ?p))" by (simp add: torn_cluster_def)
  have a: "''h2:9082'' \<in> set (map NodeAddr ?rest)" "log_at (torn_cluster ''h2:9082'') ''f'' = None"
    "\<not> is_locked (torn_cluster ''h2:9082'') ''f''"
    by (simp_all add: torn_cluster_def empty_hnode_def log_at_def is_locked_def)
  have sched: "valid_schedule (length (?p # ?rest)) ?sched"
    by (auto simp: valid_schedule_def less_Suc_eq numeral_3_eq_3)
  obtain c1 r where app: "CallHyDFSWrite goodEnv sample_got ''f'' ''x'' AppendMethod ''o2'' torn_cluster = (c1, r)" by fastforce
  obtain c2 r2 where merge: "MergeFile (\<lambda>x. x) goodMerge (NodeAddr ?p) sample_got ''m'' ?sched ''f'' c1 = (c2, r2)" by fastforce
  from missing_copy_spreads [OF rs d u _ _ a _ app sched _ merge] app merge show ?thesis by simp
qed

end
