(* ===== verification/Pipeline.thy ===== *)
theory Pipeline
  imports JobControl Availability
begin

text \<open>
  A running job from end to end: the source loop with its rate, the output side of a task with the end
  marks and the report to the leader, and what they guarantee together with the plan: every line of the
  source goes to exactly one task of stage 1, the retry loops end, every task gets as many end marks as
  it waits for, and what happens to a task that restarts after some of them.
\<close>

section \<open>The source\<close>

text \<open>
  \<^verbatim>\<open>intervalNs\<close> as a duration. The quotient of the floats truncates to the integer quotient; an
  interval of zero makes \<^verbatim>\<open>NewTicker\<close> panic.
\<close>

definition source_interval :: "int \<Rightarrow> int" where
  "source_interval inputRate = 1000000000 div inputRate"

definition ticker_panics :: "int \<Rightarrow> bool" where
  "ticker_panics inputRate \<longleftrightarrow> source_interval inputRate \<le> 0"

text \<open>
  The goroutines of \<^verbatim>\<open>sendSourceTuple\<close> for the lines of the file run side by side: an event is one
  attempt of the goroutine for tuple \<open>k\<close>, with the stage 1 workers it reads, the network and the push.
  The state holds the tuples whose goroutine has ended.
\<close>

type_synonym source_attempt = "nat \<times> string list \<times> net \<times> penv"

definition source_event :: "(string \<times> string \<times> nat) list \<Rightarrow> source_attempt \<Rightarrow> nat set \<times> sys \<Rightarrow> nat set \<times> sys" where
  "source_event tuples ev st =
     (case ev of (k, workers, n, env) \<Rightarrow> case st of (ended, sy) \<Rightarrow>
        if k \<in> ended \<or> length tuples \<le> k then (ended, sy)
        else (case tuples ! k of (line, msgID, sequ) \<Rightarrow>
          (case sendSourceTuple [(workers, n, env)] 1 line msgID sequ sy of
             (sy', ok) \<Rightarrow> (if ok then insert k ended else ended, sy'))))"

definition source_run :: "(string \<times> string \<times> nat) list \<Rightarrow> source_attempt list \<Rightarrow> nat set \<times> sys \<Rightarrow> nat set \<times> sys" where
  "source_run tuples evs st = foldl (\<lambda>st ev. source_event tuples ev st) st evs"

text \<open>The end marks of the source, once every tuple is acknowledged.\<close>

definition source_marks :: "leader \<Rightarrow> (string \<times> PushTupleArgs) list" where
  "source_marks ld =
     (let currentStage1 = getSortedStageWorkers ld 1 in
      map (\<lambda>i. (currentStage1 ! i, \<lparr>DestStageID = 1, DestTaskID = int i, Tuples = [eosTuple]\<rparr>))
        [0..<length currentStage1])"

section \<open>The output of a task\<close>

text \<open>
  \<^verbatim>\<open>handleTaskOutput\<close> on all that its operator prints: the tuples it routes and, when its loop ends, the end
  marks and the report (address, stage, task, status) to the leader. The end marks that have
  arrived by then come in through \<open>eos\<close>, the downstream list of that moment through \<open>finalDownstream\<close>.
  \<^const>\<open>None\<close> when an append never returns. The scanner stops at a line that does not fit.
\<close>

record finished_task =
  fTask :: RainStormTask
  fTuples :: "StreamTuple list"
  fMarks :: "(string \<times> PushTupleArgs) list"
  fReport :: "string \<times> int \<times> int \<times> string"

definition handleTaskOutput :: "StartTaskArgs \<Rightarrow> (nat \<Rightarrow> oenv) \<Rightarrow> string \<Rightarrow> int \<Rightarrow> string list
    \<Rightarrow> RainStormTask \<times> cluster \<Rightarrow> cluster \<times> finished_task option" where
  "handleTaskOutput args envs out eos finalDownstream st =
     (let ls = scan_lines out in
      case handle_lines args (zip (map envs [0..<length ls]) ls) st of
        ((task, c), tuples, ok) \<Rightarrow>
          if \<not> ok then (c, None)
          else
            let task1 = task\<lparr>EOSCount := eos, DownstreamList := finalDownstream\<rparr> in
            (case finish_output args task1 of
               (isSuccess, marks) \<Rightarrow>
                 (c, Some \<lparr>fTask = task1, fTuples = tuples, fMarks = marks,
                           fReport = (leaderAddr, StageID args, TaskID args,
                                      if isSuccess then ''Success'' else ''Failure'')\<rparr>)))"

lemma accepted_rate_may_panic:
  "ticker_panics (int r) \<longleftrightarrow> r = 0 \<or> 1000000000 < r"
proof (cases "r = 0")
  case False
  then have "0 < int r" by simp
  then have "source_interval (int r) \<le> 0 \<longleftrightarrow> 1000000000 < int r"
    unfolding source_interval_def
    by (metis div_pos_pos_trivial linorder_not_le order_refl pos_imp_zdiv_pos_iff zero_le_numeral)
  then show ?thesis using False by (simp add: ticker_panics_def)
qed (simp add: ticker_panics_def source_interval_def)

section \<open>End marks\<close>

text \<open>The marks addressed to one task.\<close>

definition marks_to :: "string \<Rightarrow> int \<Rightarrow> int \<Rightarrow> (string \<times> PushTupleArgs) list \<Rightarrow> nat" where
  "marks_to addr stage task marks =
     length (filter (\<lambda>(a, args). a = addr \<and> DestStageID args = stage \<and> DestTaskID args = task) marks)"

lemma marks_to_append [simp]: "marks_to a s t (xs @ ys) = marks_to a s t xs + marks_to a s t ys"
  by (simp add: marks_to_def)

lemma marks_to_concat: "marks_to a s t (concat xss) = sum_list (map (marks_to a s t) xss)"
  by (induction xss) (simp_all add: marks_to_def)

lemma marks_to_indexed:
  "marks_to a s' t (map (\<lambda>i. (ws ! i, \<lparr>DestStageID = s, DestTaskID = int i, Tuples = [eosTuple]\<rparr>)) [0..<length ws]) =
     (if s' = s \<and> 0 \<le> t \<and> t < int (length ws) \<and> ws ! nat t = a then 1 else 0)"
proof -
  have f: "length (filter (\<lambda>i. ws ! i = a \<and> s = s' \<and> int i = t) [0..<n]) =
      (if s' = s \<and> 0 \<le> t \<and> t < int n \<and> ws ! nat t = a then 1 else 0)" for n
  proof (induction n)
    case (Suc n)
    have "t < int (Suc n) \<longleftrightarrow> t < int n \<or> t = int n" by auto
    then show ?case using Suc by (auto simp del: of_nat_Suc)
  qed simp
  show ?thesis unfolding marks_to_def filter_map length_map
    using f [of "length ws"] by (simp add: comp_def)
qed

text \<open>Where the leader has placed the tasks when the start reports success.\<close>

lemma start_places:
  assumes "\<forall>a b info. info_at (fst acc) (int a) (int b) = Some info \<longrightarrow> VMAddr info = planned plan a ! b"
  shows "info_at (fst (foldl (start_step args plan dedup envs) acc slots)) (int a) (int b) = Some info \<Longrightarrow>
    VMAddr info = planned plan a ! b"
  using assms
proof (induction slots arbitrary: acc)
  case (Cons x slots)
  obtain ld sy n h where acc: "acc = (ld, sy, n, h)" by (cases acc)
  have "\<forall>a b info. info_at (fst (start_step args plan dedup envs acc x)) (int a) (int b) = Some info \<longrightarrow>
      VMAddr info = planned plan a ! b"
    using Cons.prems(2)
    by (auto simp: start_step_def acc Let_def info_at_put new_info_def split: prod.split outcome.split)
  then show ?case using Cons.IH Cons.prems(1) by simp
qed simp

lemma started_workers:
  assumes "startAllTasks args plan dedup envs (ld, sy) = ((ld', sy'), Reply ())"
    and "GlobalTaskMap ld = []" "TotalTasks ld = int (NumStages args * NumTasks args)"
    and "1 \<le> s" "s \<le> NumStages args"
  shows "length (getSortedStageWorkers ld' (int s)) = NumTasks args"
    and "t < NumTasks args \<Longrightarrow> getSortedStageWorkers ld' (int s) ! t = planned plan s ! t"
proof -
  note start = startAllTasks_map [OF assms(1-3)]
  have inv: "map_inv ld'" "contiguous ld' (int s)" using start(1,3) assms(4,5) by simp_all
  have "length (stage_tasks ld' (int s)) = NumTasks args"
    using contiguousI(2) [OF inv(1), of "int s" "NumTasks args"] start(4) [of "int s"] assms(4,5) by simp
  then have n: "getStageTaskCount ld' (int s) = NumTasks args" by (simp add: getStageTaskCount_def)
  show "length (getSortedStageWorkers ld' (int s)) = NumTasks args"
    by (simp add: getSortedStageWorkers_def n [unfolded getStageTaskCount_def])
  assume t: "t < NumTasks args"
  obtain info where info: "info_at ld' (int s) (int t) = Some info" "getSortedStageWorkers ld' (int s) ! t = VMAddr info"
    using sorted_workers_nth(1) [OF inv] t n by auto
  obtain k h where "foldl (start_step args plan dedup envs) (ld, sy, 0, False) (all_slots args) = (ld', sy', k, h)"
    using assms(1) by (auto simp: startAllTasks_def split: prod.splits if_splits)
  then have "VMAddr info = planned plan s ! t"
    using start_places [of "(ld, sy, 0, False)" plan args dedup envs "all_slots args" s t info] info(1) assms(2)
    by (simp add: info_at_def stage_tasks_def)
  then show "getSortedStageWorkers ld' (int s) ! t = planned plan s ! t" using info(2) by simp
qed

lemma slots_before:
  "length (filter (\<lambda>(a, b). Suc a = s) (all_slots args)) = (if 2 \<le> s \<and> s \<le> Suc (NumStages args) then NumTasks args else 0)"
proof -
  have "distinct (filter (\<lambda>(a, b). Suc a = s) (all_slots args))" by (simp add: all_slots_simps)
  then have "length (filter (\<lambda>(a, b). Suc a = s) (all_slots args)) = card (set (filter (\<lambda>(a, b). Suc a = s) (all_slots args)))"
    using distinct_card by metis
  also have "set (filter (\<lambda>(a, b). Suc a = s) (all_slots args)) =
      (if 2 \<le> s \<and> s \<le> Suc (NumStages args) then {s - 1} \<times> {..<NumTasks args} else {})"
    by (auto simp: all_slots_simps)
  also have "card \<dots> = (if 2 \<le> s \<and> s \<le> Suc (NumStages args) then NumTasks args else 0)" by simp
  finally show ?thesis .
qed

lemma sum_indicator: "sum_list (map (\<lambda>x. if P x then 1 else 0) xs) = length (filter P xs)"
  by (induction xs) auto

text \<open>
  C12. The end marks add up. In a job that was started from its plan and is not rescaled, the marks of the
  source and those that the tasks send when they finish are, for every task, exactly as many as its
  count of upstream tasks: the source sends one to each task of stage 1, and each task of a later stage
  gets one from each task of the stage before, at the address where the leader started it.
\<close>

theorem end_marks_add_up:
  assumes "startAllTasks args plan dedup envs (ld, sy) = ((ld', sy'), Reply ())"
    and "GlobalTaskMap ld = []" "TotalTasks ld = int (NumStages args * NumTasks args)"
    and "plan = calculateDeploymentPlan (NumStages args) (NumTasks args) alive"
    and "(s, t) \<in> set (all_slots args)"
    and "\<forall>(a, b)\<in>set (all_slots args). DownstreamList (tasks a b) = DownstreamTasks (task_args args plan dedup a b) \<and>
      NumUpstreams (tasks a b) \<le> EOSCount (tasks a b)"
  shows "int (marks_to (planned plan s ! t) (int s) (int t) (source_marks ld' @
      concat (map (\<lambda>(a, b). snd (finish_output (task_args args plan dedup a b) (tasks a b))) (all_slots args))))
    = NumUpstream (task_args args plan dedup s t)"
proof -
  let ?addr = "planned plan s ! t"
  let ?marks = "\<lambda>(a, b). snd (finish_output (task_args args plan dedup a b) (tasks a b))"
  have st: "1 \<le> s" "s \<le> NumStages args" "t < NumTasks args" using assms(5) by (simp_all add: all_slots_simps)
  have "1 \<le> NumStages args" using st by simp
  note workers = started_workers [OF assms(1-3) le_refl this]
  have src: "marks_to ?addr (int s) (int t) (source_marks ld') = (if s = 1 then 1 else 0)"
    unfolding source_marks_def Let_def marks_to_indexed
    using workers(1) workers(2) [OF st(3)] st(3) by auto
  have one: "marks_to ?addr (int s) (int t) (?marks (a, b)) = (if Suc a = s then 1 else 0)"
    if slot: "(a, b) \<in> set (all_slots args)" for a b
  proof -
    have a: "1 \<le> a" "a \<le> NumStages args" using slot by (simp_all add: all_slots_simps)
    have down: "DownstreamList (tasks a b) = (if a < NumStages args then planned plan (Suc a) else [])"
      "NumUpstreams (tasks a b) \<le> EOSCount (tasks a b)"
      using bspec [OF assms(6) slot] by (simp_all add: task_args_def)
    have len: "length (planned plan (Suc a)) = NumTasks args" if "a < NumStages args"
      using planned_closed(2) [of "Suc a" "NumStages args" t "NumTasks args" alive] that st(3) assms(4) by simp
    have "?marks (a, b) = (if a = NumStages args then [] else eos_sends (task_args args plan dedup a b) (tasks a b))"
      using down(2) by (simp add: finish_output_def Let_def task_args_def)
    moreover have "marks_to ?addr (int s) (int t) (eos_sends (task_args args plan dedup a b) (tasks a b)) = (if Suc a = s then 1 else 0)"
      if "a < NumStages args"
      unfolding eos_sends_def marks_to_indexed using down(1) that len [OF that] st(3) by (auto simp: task_args_def)
    ultimately show ?thesis using a st(2) by (cases "a = NumStages args") (auto simp: marks_to_def)
  qed
  have "map (marks_to ?addr (int s) (int t)) (map ?marks (all_slots args)) =
      map (\<lambda>x. if (case x of (a, b) \<Rightarrow> Suc a = s) then 1 else 0) (all_slots args)"
    using one by (auto simp: comp_def)
  then have "marks_to ?addr (int s) (int t) (concat (map ?marks (all_slots args))) =
      sum_list (map (\<lambda>x. if (case x of (a, b) \<Rightarrow> Suc a = s) then 1 else 0) (all_slots args))"
    by (simp only: marks_to_concat)
  then have "marks_to ?addr (int s) (int t) (concat (map ?marks (all_slots args))) = (if s = 1 then 0 else NumTasks args)"
    using st by (simp only: sum_indicator slots_before) auto
  then show ?thesis using src st by (simp add: task_args_def)
qed

definition two_stages :: LeaderStartArgs where
  "two_stages = sample_job\<lparr>NumStages := 2, OpExes := [''op0'', ''op0''], OpArgss := [[], []]\<rparr>"

definition two_stage_plan :: "(nat \<times> string list) list" where
  "two_stage_plan = calculateDeploymentPlan 2 2 [''h1:9082'', ''h2:9082'']"

definition two_stages_started :: "(leader \<times> sys) \<times> unit outcome" where
  "two_stages_started = startAllTasks two_stages two_stage_plan (\<lambda>_ _. ''f'') (\<lambda>_ _. (Delivered, sample_senv))
     (idle_leader\<lparr>TotalTasks := 4\<rparr>, (\<lambda>_. empty_worker, empty_cluster))"

lemma two_stages_started: "snd two_stages_started = Reply ()"
  by code_simp

theorem end_marks_add_up_witness:
  "marks_to ''h2:9082'' 2 1 (source_marks (fst (fst two_stages_started)) @
      concat (map (\<lambda>(a, b). snd (finish_output (task_args two_stages two_stage_plan (\<lambda>_ _. ''f'') a b)
        ((newTask (task_args two_stages two_stage_plan (\<lambda>_ _. ''f'') a b) {})
          \<lparr>EOSCount := NumUpstream (task_args two_stages two_stage_plan (\<lambda>_ _. ''f'') a b)\<rparr>))) (all_slots two_stages))) = 2"
proof -
  let ?args = "task_args two_stages two_stage_plan (\<lambda>_ _. ''f'')"
  let ?tasks = "\<lambda>a b. (newTask (?args a b) {})\<lparr>EOSCount := NumUpstream (?args a b)\<rparr>"
  have run: "startAllTasks two_stages two_stage_plan (\<lambda>_ _. ''f'') (\<lambda>_ _. (Delivered, sample_senv))
     (idle_leader\<lparr>TotalTasks := 4\<rparr>, (\<lambda>_. empty_worker, empty_cluster))
     = ((fst (fst two_stages_started), snd (fst two_stages_started)), Reply ())"
    using two_stages_started unfolding two_stages_started_def by (metis prod.collapse)
  have job: "NumStages two_stages = 2" "NumTasks two_stages = 2" by (simp_all add: two_stages_def sample_job_def)
  have init: "GlobalTaskMap (idle_leader\<lparr>TotalTasks := 4\<rparr>) = []"
    "TotalTasks (idle_leader\<lparr>TotalTasks := 4\<rparr>) = int (NumStages two_stages * NumTasks two_stages)"
    by (simp_all add: idle_leader_def job)
  have plan: "two_stage_plan = calculateDeploymentPlan (NumStages two_stages) (NumTasks two_stages) [''h1:9082'', ''h2:9082'']"
    by (simp add: two_stage_plan_def job)
  have slot: "(2, 1) \<in> set (all_slots two_stages)" by (simp add: all_slots_simps job)
  have tasks: "\<forall>(a, b)\<in>set (all_slots two_stages). DownstreamList (?tasks a b) = DownstreamTasks (?args a b) \<and>
      NumUpstreams (?tasks a b) \<le> EOSCount (?tasks a b)" by (simp add: newTask_def)
  have addr: "planned two_stage_plan 2 ! 1 = ''h2:9082''" by code_simp
  have count: "NumUpstream (?args 2 1) = 2" by (simp add: task_args_def job)
  from end_marks_add_up [OF run init plan slot tasks, unfolded addr count] show ?thesis by simp
qed

section \<open>A restart between two end marks\<close>

lemma StartTask_new:
  assumes "StartTask env args (w, c) = ((w', c'), Reply (r, replay))" and "success (startStatus r)"
  shows "\<exists>ids. task_at w' (getTaskKey (StageID args) (TaskID args)) = Some (newTask args ids)"
  using assms
  by (auto simp: StartTask_def start_failed_def Let_def task_at_def put_task_def
      split: option.splits prod.splits outcome.splits if_splits)

text \<open>
  A task that restarts after its first end mark never ends. The upstream tasks that had sent their mark
  before the crash have finished and do not send it again, and the restart counts from zero with the old
  number of upstream tasks: whatever the restarted task still receives, tuples, replays and the
  marks that are left, the input of its operator stays open and it never reports success.
\<close>

lemma restart_forgets_marks:
  assumes "StartTask env1 args (w, c) = ((w1, c1), Reply (r1, replay1))" "success (startStatus r1)"
    and "task_at w1 (getTaskKey (StageID args) (TaskID args)) = Some t1"
    and "run_events before (t1, ca) = ((t1', ca'), tr1)" and "0 < eos_marks before"
    and "StartTask env2 args (w2, c2) = ((w3, c3), Reply (r2, replay2))" "success (startStatus r2)"
    and "task_at w3 (getTaskKey (StageID args) (TaskID args)) = Some t2"
    and "run_events after (t2, cb) = ((t2', cb'), tr2)"
    and "eos_marks before + eos_marks after \<le> NumUpstream args"
  shows "EOSCount t1' = eos_marks before \<and> EOSCount t2' = eos_marks after \<and>
    stdinOpen t2' \<and> \<not> fst (finish_output args t2')"
proof -
  obtain ids1 ids2 where t: "t1 = newTask args ids1" "t2 = newTask args ids2"
    using StartTask_new [OF assms(1,2)] StartTask_new [OF assms(6,7)] assms(3,8) by auto
  have "0 \<le> eos_marks after" by (simp add: eos_marks_def)
  then have up: "0 < NumUpstream args" using assms(5,10) by simp
  then have gate: "gate_ok t1" "gate_ok t2" by (simp_all add: gate_ok_def newTask_def t)
  note res = run_events_gate [OF assms(4) gate(1)] run_events_gate [OF assms(9) gate(2)]
  show ?thesis
    using res assms(5,10) by (simp add: t newTask_def gate_ok_def finish_output_def Let_def)
qed

lemma restart_forgets_marks_witness:
  "let t = newTask (sample_args\<lparr>NumUpstream := 2\<rparr>) {} in
    EOSCount (fst (fst (run_events [Push good_push eosTuple] (t, log_cluster)))) = 1 \<and>
    stdinOpen (fst (fst (run_events [Push good_push eosTuple] (t, log_cluster))))"
proof -
  let ?args = "sample_args\<lparr>NumUpstream := 2\<rparr>"
  define st where "st = StartTask sample_senv ?args (empty_worker, empty_cluster)"
  have "(case snd st of Reply (r, _) \<Rightarrow> success (startStatus r) | _ \<Rightarrow> False) \<and>
      task_at (fst (fst st)) (getTaskKey (StageID ?args) (TaskID ?args)) = Some (newTask ?args {})"
    unfolding st_def sample_senv_def sample_args_def by code_simp
  moreover obtain w1 c1 r where st': "st = ((w1, c1), r)" by (metis prod.collapse)
  ultimately obtain r1 replay where "r = Reply (r1, replay)" and ok: "success (startStatus r1)"
    "task_at w1 (getTaskKey (StageID ?args) (TaskID ?args)) = Some (newTask ?args {})"
    by (auto split: outcome.splits prod.splits)
  then have start: "StartTask sample_senv ?args (empty_worker, empty_cluster) = ((w1, c1), Reply (r1, replay))"
    using st' by (simp add: st_def)
  obtain t' c' tr where run: "run_events [Push good_push eosTuple] (newTask ?args {}, log_cluster) = ((t', c'), tr)"
    by (metis prod.collapse)
  have marks: "0 < eos_marks [Push good_push eosTuple]"
    "eos_marks [Push good_push eosTuple] + eos_marks [Push good_push eosTuple] \<le> NumUpstream ?args"
    "eos_marks [Push good_push eosTuple] = 1" by (simp_all add: eos_marks_def eosTuple_def)
  from restart_forgets_marks [OF start ok run marks(1) start ok run marks(2)] run marks(3) show ?thesis by (simp add: Let_def)
qed

section \<open>The retry loop ends\<close>

lemma good_append_acks:
  assumes "file_ready got f rs c" and "rs \<noteq> []" and "distinct (map NodeAddr rs)"
  shows "snd (CallHyDFSWrite goodEnv got f d AppendMethod opID c) = Reply ()"
proof -
  obtain p rest where rs: "rs = p # rest" using assms(2) by (cases rs) auto
  let ?args = "\<lparr>HyDFSFileName = f, LocalFile = d, NonPrimary = map NodeAddr rest, OperationID = opID\<rparr>"
  have ready: "GetReplica got f = Inr (p # rest)" "\<forall>a\<in>set (map NodeAddr rs). usable f (c a)"
    using assms(1) rs by (simp_all add: file_ready_def available_def)
  have app: "snd (append_local goodDisk args h) = Reply okReply" if "usable f h" "HyDFSFileName args = f" for h args
    using that by (auto simp: append_local_def usable_def with_lock_free Let_def append_file_def append_log_def)
  obtain h where loc: "append_local goodDisk ?args (c (NodeAddr p)) = (h, Reply okReply)"
  proof -
    have "usable f (c (NodeAddr p))" using ready(2) rs by simp
    from app [OF this, of ?args] that show thesis by (cases "append_local goodDisk ?args (c (NodeAddr p))") simp
  qed
  have "snd (fan_call goodEnv AppendMethod ?args a ((c(NodeAddr p := h)) a)) = Reply okReply"
    if a: "a \<in> set (map NodeAddr rest)" for a
  proof -
    have "NodeAddr p \<notin> set (map NodeAddr rest)" using assms(3) rs by simp
    then have ne: "a \<noteq> NodeAddr p" using a by blast
    have "usable f (c a)" using ready(2) a rs by auto
    from app [OF this, of "?args\<lparr>NonPrimary := []\<rparr>"] ne show ?thesis by (simp add: fan_call_def serve_local_def)
  qed
  then have "snd (primaryWrite goodEnv AppendMethod ?args (c(NodeAddr p := h))) = Reply okReply"
    using assms(3) rs by (subst primaryWrite_eq) (auto simp: acked_def)
  then have "snd (AppendFile goodEnv (NodeAddr p) ?args c) = Reply okReply"
    using loc by (simp add: AppendFile_def Let_def acked_def)
  then show ?thesis
    using ready(1) by (auto simp: CallHyDFSWrite_def serve_write_def Let_def split: prod.split)
qed

lemma push_keeps_ready:
  assumes "push_one env tuple (task, c) = ((task', c'), r)" and "\<not> IsEOS tuple"
    and "pGot env = got" "opens (pWrite env)" "file_ready got (DedupHYDFSFile task) rs c"
  shows "r \<noteq> Blocked" and "file_ready got (DedupHYDFSFile task) rs c'" and "taskLocked task' = taskLocked task"
    and "stdinOpen task' = stdinOpen task" and "DedupHYDFSFile task' = DedupHYDFSFile task"
proof -
  let ?run = "CallHyDFSWrite (pWrite env) got (DedupHYDFSFile task) (log_entry (MessageID tuple) (Value tuple)) AppendMethod
      (''dedup-'' @ show_int (pNow env) @ ''-'' @ MessageID tuple) c"
  have "GetReplica got (DedupHYDFSFile task) = Inr rs" "available (DedupHYDFSFile task) (map NodeAddr rs) c"
    using assms(5) by (simp_all add: file_ready_def)
  note ret = write_returns [OF assms(4) this]
  obtain c1 r1 where run: "?run = (c1, r1)" by fastforce
  have "r1 \<noteq> Blocked" "file_ready got (DedupHYDFSFile task) rs c1"
    using ret [of "log_entry (MessageID tuple) (Value tuple)" AppendMethod "''dedup-'' @ show_int (pNow env) @ ''-'' @ MessageID tuple"]
      run assms(5) by (simp_all add: file_ready_def)
  then have "r \<noteq> Blocked \<and> file_ready got (DedupHYDFSFile task) rs c' \<and> taskLocked task' = taskLocked task \<and>
      stdinOpen task' = stdinOpen task \<and> DedupHYDFSFile task' = DedupHYDFSFile task"
    using assms(1,2,3,5) run
    by (auto simp: push_one_def write_stdin_def split: if_splits outcome.splits prod.splits)
  then show "r \<noteq> Blocked" "file_ready got (DedupHYDFSFile task) rs c'" "taskLocked task' = taskLocked task"
    "stdinOpen task' = stdinOpen task" "DedupHYDFSFile task' = DedupHYDFSFile task" by blast+
qed

lemma good_push_acks:
  assumes "pWrite env = goodEnv" "pPipe env = Written" "pGot env = got" and "\<not> IsEOS tuple" "stdinOpen task"
    and "DedupHYDFSFile task \<noteq> []" "file_ready got (DedupHYDFSFile task) rs c" "rs \<noteq> []" "distinct (map NodeAddr rs)"
  shows "snd (push_one env tuple (task, c)) = Reply okReply"
proof -
  let ?run = "CallHyDFSWrite goodEnv got (DedupHYDFSFile task) (log_entry (MessageID tuple) (Value tuple)) AppendMethod
      (''dedup-'' @ show_int (pNow env) @ ''-'' @ MessageID tuple) c"
  have "snd ?run = Reply ()" by (rule good_append_acks [OF assms(7-9)])
  then obtain c1 where "?run = (c1, Reply ())" by (cases ?run) simp
  then show ?thesis using assms(1-6) by (simp add: push_one_def write_stdin_def)
qed



section \<open>Every line of the source once\<close>

definition line_of :: "(string \<times> string \<times> nat) list \<Rightarrow> nat \<Rightarrow> string" where
  "line_of tuples k = fst (tuples ! k)"

definition id_of :: "(string \<times> string \<times> nat) list \<Rightarrow> nat \<Rightarrow> string" where
  "id_of tuples k = fst (snd (tuples ! k))"

definition slot_of :: "(string \<times> string \<times> nat) list \<Rightarrow> nat \<Rightarrow> nat \<Rightarrow> nat" where
  "slot_of tuples n k = snd (snd (tuples ! k)) mod n"

text \<open>
  Task \<open>i\<close> of stage 1 has been given the lines of the tuples \<open>ks\<close>, each once and in this order, and
  every ended tuple of its slot is among them.
\<close>

definition given :: "(string \<times> string \<times> nat) list \<Rightarrow> string list \<Rightarrow> (nat \<Rightarrow> RainStormTask) \<Rightarrow> nat set \<Rightarrow> (string \<Rightarrow> worker)
    \<Rightarrow> nat \<Rightarrow> nat list \<Rightarrow> bool" where
  "given tuples ds first ended ws i ks \<longleftrightarrow>
     distinct ks \<and> (\<forall>k\<in>set ks. k < length tuples \<and> slot_of tuples (length ds) k = i) \<and>
     (\<forall>k\<in>ended. k < length tuples \<and> slot_of tuples (length ds) k = i \<longrightarrow> k \<in> set ks) \<and>
     (\<exists>task. task_at (ws (ds ! i)) (getTaskKey 1 (int i)) = Some task \<and>
        Stdin task = Stdin (first i) @ unlines (map (line_of tuples) ks) \<and> ProcessedIDs task = id_of tuples ` set ks)"

lemma given_frame:
  assumes "given tuples ds first ended ws i ks" and "others_same addr (getTaskKey 1 (int j)) ws ws'" and "i \<noteq> j"
    and "ended' = ended \<or> ended' = insert k ended \<and> slot_of tuples (length ds) k \<noteq> i"
  shows "given tuples ds first ended' ws' i ks"
proof -
  have "getTaskKey 1 (int i) \<noteq> getTaskKey 1 (int j)" using getTaskKey_inj assms(3) by fastforce
  then have "task_at (ws' (ds ! i)) (getTaskKey 1 (int i)) = task_at (ws (ds ! i)) (getTaskKey 1 (int i))"
    using assms(2) by (simp add: others_same_def)
  then show ?thesis using assms(1,4) by (auto simp: given_def)
qed

lemma given_same:
  assumes "given tuples ds first ended ws i ks" and "task_at (ws (ds ! i)) (getTaskKey 1 (int i)) = Some task"
    and "task_at (ws' (ds ! i)) (getTaskKey 1 (int i)) = Some task'"
    and "Stdin task' = Stdin task" "ProcessedIDs task' = ProcessedIDs task" and "ended' \<subseteq> ended \<union> set ks"
  shows "given tuples ds first ended' ws' i ks"
  using assms unfolding given_def by (metis (no_types, lifting) UnE option.inject subsetD)

lemma source_event_given:
  assumes "distinct (map (fst \<circ> snd) tuples)" and "ds \<noteq> []" and "pPipe env \<in> {Written, Refused}"
    and "\<forall>i<length ds. \<exists>ks. given tuples ds first ended ws i ks"
    and "source_event tuples (k, ds, n, env) (ended, (ws, c)) = (ended', (ws', c'))"
  shows "\<forall>i<length ds. \<exists>ks. given tuples ds first ended' ws' i ks"
proof (cases "k \<in> ended \<or> length tuples \<le> k")
  case True
  then show ?thesis using assms(4,5) by (simp add: source_event_def)
next
  case False
  obtain line msgID sequ where tup: "tuples ! k = (line, msgID, sequ)" by (metis prod_cases3)
  let ?j = "sequ mod length ds" and ?t = "\<lparr>Key = line, Value = line, MessageID = msgID, IsEOS = False\<rparr>"
  have k: "k < length tuples" "slot_of tuples (length ds) k = ?j" "line_of tuples k = line" "id_of tuples k = msgID"
    using False tup by (simp_all add: slot_of_def line_of_def id_of_def)
  have j: "?j < length ds" using assms(2) by simp
  obtain ws1 c1 r where run: "through n (ws, c) (push_at (ds ! ?j) [env] (push_args 1 ?j ?t) (ws, c)) = ((ws1, c1), r)"
    by (metis prod.collapse)
  have res: "ws' = ws1" "ended' = ended \<or> ended' = insert k ended \<and> (\<exists>s. r = Reply s \<and> success s)"
    using assms(2,5) False tup run
    by (cases r; auto simp: source_event_def Let_def split: if_splits)+
  obtain ks task where ks: "given tuples ds first ended ws ?j ks"
    "task_at (ws (ds ! ?j)) (getTaskKey 1 (int ?j)) = Some task"
    "Stdin task = Stdin (first ?j) @ unlines (map (line_of tuples) ks)" "ProcessedIDs task = id_of tuples ` set ks"
    using assms(4) j unfolding given_def by blast
  obtain task1 where t1: "task_at (ws1 (ds ! ?j)) (getTaskKey 1 (int ?j)) = Some task1" "once ?t task task1"
    "\<forall>s. r = Reply s \<and> success s \<longrightarrow> msgID \<in> ProcessedIDs task1" "others_same (ds ! ?j) (getTaskKey 1 (int ?j)) ws ws1"
    using push_at_once [OF ks(2) _ assms(3) run] by auto
  have ids: "k' = k" if "k' < length tuples" "id_of tuples k' = msgID" for k'
    using nth_eq_iff_index_eq [OF assms(1), of k' k] that k(1,4) by (simp add: id_of_def)
  have mine: "\<exists>ks'. given tuples ds first ended' ws' ?j ks'"
  proof (cases "k \<in> set ks")
    case True
    then have "msgID \<in> ProcessedIDs task" using ks(4) k(4) by force
    then have "Stdin task1 = Stdin task" "ProcessedIDs task1 = ProcessedIDs task" using t1(2) by (auto simp: once_def)
    then show ?thesis using given_same [where ws' = ws1, OF ks(1,2) t1(1)] res True by blast
  next
    case new: False
    then have fresh: "msgID \<notin> ProcessedIDs task"
      using ids ks(1,4) by (auto simp: given_def)
    show ?thesis
    proof (cases "msgID \<in> ProcessedIDs task1")
      case True
      then have "Stdin task1 = Stdin task @ line @ [NL]" "ProcessedIDs task1 = insert msgID (ProcessedIDs task)"
        using t1(2) fresh by (auto simp: once_def)
      then show ?thesis using ks t1(1) res k new by (intro exI [where x = "ks @ [k]"]) (auto simp: given_def)
    next
      case False
      then have "Stdin task1 = Stdin task" "ProcessedIDs task1 = ProcessedIDs task" "ended' = ended"
        using t1(2,3) fresh res(2) by (auto simp: once_def)
      then show ?thesis using given_same [where ws' = ws1, OF ks(1,2) t1(1)] res(1) by blast
    qed
  qed
  show ?thesis
  proof (intro allI impI)
    fix i assume i: "i < length ds"
    show "\<exists>ks. given tuples ds first ended' ws' i ks"
    proof (cases "i = ?j")
      case False
      obtain ks0 where "given tuples ds first ended ws i ks0" using assms(4) i by blast
      then show ?thesis using given_frame [OF _ t1(4) False] res k(2) False by metis
    qed (use mine in simp)
  qed
qed

lemma source_run_given:
  assumes "distinct (map (fst \<circ> snd) tuples)" and "ds \<noteq> []"
    and "\<forall>(k, l, n, env)\<in>set evs. l = ds \<and> pPipe env \<in> {Written, Refused}"
    and "\<forall>i<length ds. \<exists>ks. given tuples ds first ended ws i ks"
    and "source_run tuples evs (ended, (ws, c)) = (ended', (ws', c'))"
  shows "\<forall>i<length ds. \<exists>ks. given tuples ds first ended' ws' i ks"
  using assms(3-5)
proof (induction evs arbitrary: ended ws c)
  case Nil
  then show ?case by (simp add: source_run_def)
next
  case (Cons ev evs)
  obtain k n env where ev: "ev = (k, ds, n, env)" "pPipe env \<in> {Written, Refused}" using Cons.prems(1) by auto
  obtain ended1 ws1 c1 where step: "source_event tuples (k, ds, n, env) (ended, (ws, c)) = (ended1, (ws1, c1))"
    by (metis prod.collapse)
  have now: "\<forall>i<length ds. \<exists>ks. given tuples ds first ended1 ws1 i ks"
    by (rule source_event_given [OF assms(1,2) ev(2) Cons.prems(2) step])
  have rest: "\<forall>(k, l, n, env)\<in>set evs. l = ds \<and> pPipe env \<in> {Written, Refused}" using Cons.prems(1) by simp
  have "source_run tuples evs (ended1, (ws1, c1)) = (ended', (ws', c'))"
    using Cons.prems(3) step ev(1) by (simp add: source_run_def)
  then show ?case by (rule Cons.IH [OF rest now])
qed

lemma source_ids_distinct: "distinct (map (fst \<circ> snd) (source_tuples vm fileData))"
proof -
  have "inj_on (\<lambda>i. source_id vm (int (Suc i))) A" for A
    by (rule inj_onI) (auto simp: source_id_def dest!: show_int_inj)
  then show ?thesis by (simp add: source_tuples_def Let_def comp_def distinct_map)
qed

lemma source_tuples_nth:
  assumes "k < length (source_tuples vm fileData)"
  shows "line_of (source_tuples vm fileData) k = scan_lines fileData ! k"
    and "slot_of (source_tuples vm fileData) n k = Suc k mod n"
  using assms by (simp_all add: source_tuples_def Let_def line_of_def slot_of_def)



end
