(* ===== verification/Rates.thy ===== *)
theory Rates
  imports JobControl
begin

text \<open>
  From tuples to scaling decisions: the routine \<^verbatim>\<open>monitorTaskRate\<close> beside the pushes of a task, its
  reports at the leader in whatever order they arrive, and what \<^verbatim>\<open>monitorAutoscale\<close> makes of them.
  Every tuple that a task takes is counted in exactly one report, and a decision is characterised
  by the loads of the stages.
\<close>

section \<open>Counting\<close>

text \<open>A push, a tick of the one-second ticker, the end of the task (\<^verbatim>\<open>task.Done\<close> is closed).\<close>

datatype task_event = Pushed penv StreamTuple | OneSecond | Ended

text \<open>\<^verbatim>\<open>monitorTaskRate\<close> runs as long as the flag holds; the list is what it reports.\<close>

fun monitored_run :: "bool \<Rightarrow> task_event list \<Rightarrow> RainStormTask \<times> cluster
    \<Rightarrow> (RainStormTask \<times> cluster) \<times> int list" where
  "monitored_run on [] st = (st, [])"
| "monitored_run on (Pushed env tuple # es) st = monitored_run on es (fst (push_one env tuple st))"
| "monitored_run on (OneSecond # es) (task, c) =
     (if on then
        (case take_rate task of (task1, n) \<Rightarrow>
          (case monitored_run on es (task1, c) of (st', counts) \<Rightarrow> (st', n # counts)))
      else monitored_run on es (task, c))"
| "monitored_run on (Ended # es) st = monitored_run False es st"

lemma push_one_counts:
  assumes "push_one env tuple (task, c) = ((task1, c1), r)"
  shows "(ProcessedIDs task1 = ProcessedIDs task \<and> Counter task1 = Counter task) \<or>
    (\<exists>i. i \<notin> ProcessedIDs task \<and> ProcessedIDs task1 = insert i (ProcessedIDs task) \<and> Counter task1 = Counter task + 1)"
  using assms
  by (auto simp: push_one_def Let_def write_stdin_def split: if_splits prod.splits outcome.splits)

lemma card_new:
  assumes "finite (C - insert i A)" and "i \<notin> A" and "insert i A \<subseteq> C"
  shows "A \<subseteq> C \<and> finite (C - A) \<and> card (C - A) = Suc (card (C - insert i A))"
proof -
  have "C - A = insert i (C - insert i A)" using assms(2,3) by blast
  moreover have "card (insert i (C - insert i A)) = Suc (card (C - insert i A))"
    using assms(1) by (intro card_insert_disjoint) simp_all
  ultimately show ?thesis using assms by (metis finite_insert insert_subset)
qed

lemma monitored_run_counts:
  assumes "monitored_run on es (task, c) = ((task', c'), counts)"
  shows "ProcessedIDs task \<subseteq> ProcessedIDs task' \<and> finite (ProcessedIDs task' - ProcessedIDs task)
    \<and> sum_list counts + Counter task' = Counter task + int (card (ProcessedIDs task' - ProcessedIDs task))"
  using assms
proof (induction es arbitrary: on task c counts)
  case (Cons e es)
  show ?case
  proof (cases e)
    case (Pushed env tuple)
    obtain task1 c1 r where push: "push_one env tuple (task, c) = ((task1, c1), r)" by (metis prod.collapse)
    have IH: "ProcessedIDs task1 \<subseteq> ProcessedIDs task'" "finite (ProcessedIDs task' - ProcessedIDs task1)"
      "sum_list counts + Counter task' = Counter task1 + int (card (ProcessedIDs task' - ProcessedIDs task1))"
      using Cons.IH [of on task1 c1 counts] Cons.prems Pushed push by simp_all
    from push_one_counts [OF push] show ?thesis
    proof (elim disjE exE conjE)
      fix i
      assume new: "i \<notin> ProcessedIDs task" "ProcessedIDs task1 = insert i (ProcessedIDs task)" "Counter task1 = Counter task + 1"
      with card_new [of "ProcessedIDs task'" i "ProcessedIDs task"] IH show ?thesis by simp
    qed (use IH in simp)
  next
    case OneSecond
    show ?thesis
    proof (cases on)
      case True
      then obtain counts' where counts: "counts = Counter task # counts'"
        "monitored_run on es (task\<lparr>Counter := 0\<rparr>, c) = ((task', c'), counts')"
        using Cons.prems OneSecond by (auto simp: take_rate_def split: prod.splits)
      from Cons.IH [OF counts(2)] counts(1) show ?thesis by auto
    next
      case False
      with Cons.IH [of on task c counts] Cons.prems OneSecond show ?thesis by simp
    qed
  next
    case Ended
    with Cons.IH [of False task c counts] Cons.prems show ?thesis by simp
  qed
qed simp

text \<open>
  C25. Every tuple is counted in exactly one report. Over any run of pushes, seconds and the end of
  the task, the reported rates and what is still in the counter add up to the number of
  identifiers that the task has newly processed: duplicates, failed pushes and end marks are
  not counted, and no count is lost or reported twice.
\<close>

theorem rates_add_up:
  assumes "monitored_run True es (task, c) = ((task', c'), counts)" and "Counter task = 0"
  shows "sum_list counts + Counter task' = int (card (ProcessedIDs task' - ProcessedIDs task))"
  using monitored_run_counts [OF assms(1)] assms(2) by simp

theorem rates_add_up_witness:
  "case monitored_run True [Pushed lost_push (sample_tuple ''1-0-1'' ''x''), Pushed good_push (sample_tuple ''1-0-2'' ''y''),
      OneSecond, Pushed good_push (sample_tuple ''1-0-2'' ''y''), Pushed good_push (sample_tuple ''1-0-1'' ''x''), OneSecond, Ended, OneSecond]
      (sample_task, log_cluster) of ((task, _), counts) \<Rightarrow>
    counts = [1, 1] \<and> sum_list counts + Counter task = int (card (ProcessedIDs task - ProcessedIDs sample_task))"
proof -
  let ?es = "[Pushed lost_push (sample_tuple ''1-0-1'' ''x''), Pushed good_push (sample_tuple ''1-0-2'' ''y''),
      OneSecond, Pushed good_push (sample_tuple ''1-0-2'' ''y''), Pushed good_push (sample_tuple ''1-0-1'' ''x''), OneSecond, Ended, OneSecond]"
  obtain task c counts where run: "monitored_run True ?es (sample_task, log_cluster) = ((task, c), counts)"
    by (metis prod.collapse)
  have "Counter sample_task = 0" by code_simp
  from rates_add_up [OF run this]
  have "sum_list counts + Counter task = int (card (ProcessedIDs task - ProcessedIDs sample_task))" .
  moreover have "snd (monitored_run True ?es (sample_task, log_cluster)) = [1, 1]" by code_simp
  ultimately show ?thesis using run by simp
qed

section \<open>Reports at the leader\<close>

text \<open>The calls that carry the counts, and the leader when they arrive in any order or not at all.\<close>

definition rate_calls :: "int \<Rightarrow> int \<Rightarrow> int list \<Rightarrow> (string \<times> int \<times> int \<times> int) list" where
  "rate_calls stageID taskID counts = map (\<lambda>n. (leaderAddr, stageID, taskID, n)) counts"

fun deliver_rates :: "(net \<times> string \<times> int \<times> int \<times> int) list \<Rightarrow> leader \<Rightarrow> leader" where
  "deliver_rates [] ld = ld"
| "deliver_rates ((n, _, stage, task, rate) # calls) ld =
     deliver_rates calls (if n = Unreachable then ld else UpdateRate stage task rate ld)"

lemma UpdateRate_tasks: "info_at (UpdateRate s t r ld) = info_at ld"
  by (simp add: UpdateRate_def info_at_def stage_tasks_def fun_eq_iff)

lemma deliver_rates_tasks: "info_at (deliver_rates calls ld) = info_at ld"
  by (induction calls ld rule: deliver_rates.induct) (simp_all add: UpdateRate_tasks)

lemma deliver_rates_append: "deliver_rates (as @ bs) ld = deliver_rates bs (deliver_rates as ld)"
  by (induction as ld rule: deliver_rates.induct) simp_all

text \<open>The leader decides by the report that arrived last; reports of unknown tasks change nothing.\<close>

lemma last_report_counts:
  assumes "info_at ld stage task \<noteq> None" and "n \<noteq> Unreachable"
  shows "map_of (stage_rates (deliver_rates (calls @ [(n, addr, stage, task, rate)]) ld) stage) task = Some rate"
proof -
  have "info_at (deliver_rates calls ld) stage task \<noteq> None" using assms(1) by (simp add: deliver_rates_tasks)
  then show ?thesis
    using assms(2) by (auto simp: deliver_rates_append UpdateRate_def stage_rates_def)
qed

lemma zombie_report_ignored:
  "info_at ld stage task = None \<Longrightarrow> deliver_rates [(n, addr, stage, task, rate)] ld = ld"
  by (simp add: UpdateRate_def)

section \<open>Decisions\<close>

text \<open>
  The average rate of a stage against the watermarks, and what a decision says of all stages: the
  first stage that is out of its range is scaled, unless it is the last task of an idle stage.
\<close>

definition over_rate :: "leader \<Rightarrow> nat \<Rightarrow> bool" where
  "over_rate ld stage \<longleftrightarrow>
     (let rates = map snd (stage_rates ld (int stage))
      in rates \<noteq> [] \<and> sum_list rates > AutoHW ld * int (length rates))"

definition under_rate :: "leader \<Rightarrow> nat \<Rightarrow> bool" where
  "under_rate ld stage \<longleftrightarrow>
     (let rates = map snd (stage_rates ld (int stage))
      in rates \<noteq> [] \<and> sum_list rates < AutoLW ld * int (length rates) \<and> getStageTaskCount ld (int stage) > 1)"

definition choice :: "leader \<Rightarrow> nat \<Rightarrow> scale_action option" where
  "choice ld stage =
     (if over_rate ld stage then Some (ScaleUp stage) else if under_rate ld stage then Some (ScaleDown stage) else None)"

lemma decision_step:
  "scale_decision ld (stage # rest) = (case choice ld stage of None \<Rightarrow> scale_decision ld rest | Some a \<Rightarrow> Some a)"
  by (simp add: choice_def over_rate_def under_rate_def Let_def)

lemma scale_decision_first:
  "scale_decision ld stages = Some a \<longleftrightarrow>
     (\<exists>before stage after. stages = before @ stage # after \<and> choice ld stage = Some a \<and> (\<forall>s\<in>set before. choice ld s = None))"
proof (induction stages)
  case (Cons stage rest)
  show ?case
  proof (cases "choice ld stage")
    case None
    then have "scale_decision ld (stage # rest) = Some a \<longleftrightarrow> scale_decision ld rest = Some a"
      by (simp add: decision_step del: scale_decision.simps)
    moreover have "(\<exists>before s after. stage # rest = before @ s # after \<and> choice ld s = Some a \<and> (\<forall>s\<in>set before. choice ld s = None))
        \<longleftrightarrow> (\<exists>before s after. rest = before @ s # after \<and> choice ld s = Some a \<and> (\<forall>s\<in>set before. choice ld s = None))"
      (is "?L = ?R")
    proof
      assume ?L
      then obtain before s after where "stage # rest = before @ s # after" "choice ld s = Some a" "\<forall>s\<in>set before. choice ld s = None"
        by blast
      with None show ?R by (cases before) auto
    next
      assume ?R
      then obtain before s after where "rest = before @ s # after" "choice ld s = Some a" "\<forall>s\<in>set before. choice ld s = None"
        by blast
      with None have "stage # rest = (stage # before) @ s # after \<and> choice ld s = Some a \<and> (\<forall>s\<in>set (stage # before). choice ld s = None)"
        by simp
      then show ?L by blast
    qed
    ultimately show ?thesis using Cons.IH by blast
  next
    case (Some b)
    then have "scale_decision ld (stage # rest) = Some b"
      by (simp add: decision_step del: scale_decision.simps)
    with Some show ?thesis by (fastforce simp: Cons_eq_append_conv simp del: scale_decision.simps)
  qed
qed simp

lemma upt_parts:
  "[a..<b] = xs @ s # ys \<longleftrightarrow> a \<le> s \<and> s < b \<and> xs = [a..<s] \<and> ys = [Suc s..<b]" for a b :: nat
proof
  assume eq: "[a..<b] = xs @ s # ys"
  then have len: "length xs < b - a" by (metis add_Suc_right length_Cons length_append length_upt less_add_Suc1)
  have "s = a + length xs" using eq len nth_upt [of a "length xs" b] by (simp add: nth_append)
  moreover have "xs = [a..<a + length xs]" using eq len take_upt [of a "length xs" b] by simp
  moreover have "ys = [Suc (a + length xs)..<b]" using eq drop_upt [of "Suc (length xs)" a b] by simp
  ultimately show "a \<le> s \<and> s < b \<and> xs = [a..<s] \<and> ys = [Suc s..<b]" using len by simp
next
  assume s: "a \<le> s \<and> s < b \<and> xs = [a..<s] \<and> ys = [Suc s..<b]"
  then have "[a..<b] = [a..<s] @ [s..<b]" using upt_add_eq_append [of a s "b - s"] by simp
  with s show "[a..<b] = xs @ s # ys" by (simp add: upt_conv_Cons)
qed

text \<open>
  C26. The autoscaler scales the first stage that is out of its range, and only after the cooldown. A
  tick decides to scale a stage up exactly when the cooldown is over, the average rate
  reported for the stage is above the high watermark, and every earlier stage is neither overloaded
  nor idle with a task to spare; and down under the corresponding condition for the low watermark.
\<close>

theorem autoscaler_decides:
  "(monitor_tick now numStages ld = Some (ScaleUp stage) \<longleftrightarrow>
      ScaleCooldown ld \<le> now \<and> stage \<in> {1..numStages} \<and> over_rate ld stage
      \<and> (\<forall>s\<in>{1..<stage}. \<not> over_rate ld s \<and> \<not> under_rate ld s))
    \<and> (monitor_tick now numStages ld = Some (ScaleDown stage) \<longleftrightarrow>
      ScaleCooldown ld \<le> now \<and> stage \<in> {1..numStages} \<and> under_rate ld stage \<and> \<not> over_rate ld stage
      \<and> (\<forall>s\<in>{1..<stage}. \<not> over_rate ld s \<and> \<not> under_rate ld s))"
proof -
  have none: "choice ld s = None \<longleftrightarrow> \<not> over_rate ld s \<and> \<not> under_rate ld s" for s
    by (simp add: choice_def)
  have first: "scale_decision ld [1..<Suc numStages] = Some a \<longleftrightarrow>
      (\<exists>s. s \<in> {1..numStages} \<and> choice ld s = Some a \<and> (\<forall>t\<in>{1..<s}. choice ld t = None))" for a
  proof -
    have "[1..<Suc numStages] = before @ s # after \<longleftrightarrow>
        s \<in> {1..numStages} \<and> before = [1..<s] \<and> after = [Suc s..<Suc numStages]" for before s after
      unfolding upt_parts by auto
    then show ?thesis unfolding scale_decision_first by auto
  qed
  have "choice ld s = Some (ScaleUp stage) \<longleftrightarrow> s = stage \<and> over_rate ld stage"
    "choice ld s = Some (ScaleDown stage) \<longleftrightarrow> s = stage \<and> under_rate ld stage \<and> \<not> over_rate ld stage" for s
    by (auto simp: choice_def)
  with first none show ?thesis by (auto simp: monitor_tick_def simp del: upt_Suc)
qed

theorem autoscaler_decides_witness:
  "ScaleCooldown sample_idle \<le> 0 \<and> under_rate sample_idle 1 \<and> \<not> over_rate sample_idle 1"
  using autoscaler_decides [of 0 "NumStages sample_job" sample_idle 1] sample_decision by blast

section \<open>The loop\<close>

text \<open>
  \<^verbatim>\<open>monitorAutoscale\<close>: ticks, each with what happens around a scaling, until the stop channel is closed.
  The kill that a scale-down leaves behind runs on its own later (\<^const>\<open>run_kill\<close>).
\<close>

datatype autoscale_event = Tick aenv "member list" "string \<Rightarrow> net" | Stop

fun monitorAutoscale :: "LeaderStartArgs \<Rightarrow> autoscale_event list \<Rightarrow> leader \<times> sys \<Rightarrow> leader \<times> sys" where
  "monitorAutoscale args [] st = st"
| "monitorAutoscale args (Stop # es) st = st"
| "monitorAutoscale args (Tick env ms nets # es) (ld, sy) =
     (case monitor_tick (aNow env) (NumStages args) ld of
        None \<Rightarrow> monitorAutoscale args es (ld, sy)
      | Some (ScaleUp stage) \<Rightarrow>
          (case scaleUp env ms args stage (ld, sy) of
             (st', Blocked) \<Rightarrow> st'
           | (st', _) \<Rightarrow> monitorAutoscale args es st')
      | Some (ScaleDown stage) \<Rightarrow> monitorAutoscale args es (fst (scaleDown (aNow env) nets stage (ld, sy))))"

text \<open>Whatever the autoscaler does are steps of the leader, so the task map stays sound.\<close>

lemma autoscale_steps: "(leader_step args)\<^sup>*\<^sup>* (ld, sy) (monitorAutoscale args es (ld, sy))"
proof (induction args es "(ld, sy)" arbitrary: ld sy rule: monitorAutoscale.induct)
  case (3 args env ms nets es ld sy)
  show ?case
  proof (cases "monitor_tick (aNow env) (NumStages args) ld")
    case None
    with 3(1) show ?thesis by simp
  next
    case (Some act)
    show ?thesis
    proof (cases act)
      case (ScaleUp stage)
      obtain ld' sy' r where up: "scaleUp env ms args stage (ld, sy) = ((ld', sy'), r)" by (metis prod.collapse)
      have "leader_step args (ld, sy) (ld', sy')" using Up [OF _ up] Some ScaleUp by simp
      moreover have "(leader_step args)\<^sup>*\<^sup>* (ld', sy') (monitorAutoscale args es (ld', sy'))" if "r \<noteq> Blocked"
        using 3(2,3) [OF Some ScaleUp] up that by (cases r) auto
      ultimately show ?thesis
        using Some ScaleUp up by (cases r) (simp_all add: converse_rtranclp_into_rtranclp r_into_rtranclp)
    next
      case (ScaleDown stage)
      obtain ld' sy' p where down: "scaleDown (aNow env) nets stage (ld, sy) = ((ld', sy'), p)" by (metis prod.collapse)
      have "leader_step args (ld, sy) (ld', sy')" using Down [OF _ down] Some ScaleDown by simp
      with 3(4) [OF Some ScaleDown] show ?thesis
        using Some ScaleDown down by (simp add: converse_rtranclp_into_rtranclp)
    qed
  qed
qed simp_all

lemma autoscale_keeps_map:
  assumes "leader_inv (NumStages args) ld"
  shows "leader_inv (NumStages args) (fst (monitorAutoscale args es (ld, sy)))"
proof -
  have "leader_inv (NumStages args) (fst st')" if "(leader_step args)\<^sup>*\<^sup>* (ld, sy) st'" for st'
    using that by induction (use assms leader_step_inv in auto)
  then show ?thesis using autoscale_steps by blast
qed

end
