(* ===== verification/Loggers.thy ===== *)
theory Loggers
  imports GoStrings
begin

text \<open>
  The two logging packages: \<^verbatim>\<open>streamlog\<close>, one file per task start and per job of the leader, and
  \<^verbatim>\<open>vmlog\<close>, the log of the node. A logger of Go's package \<^verbatim>\<open>log\<close> writes its prefix, the date and time (an
  argument, with the space that follows it), the message, and a newline when the message ends
  without one. The file system is a map from paths to contents.
\<close>

type_synonym files = "string \<Rightarrow> string option"

definition log_output :: "string \<Rightarrow> string \<Rightarrow> string \<Rightarrow> string" where
  "log_output pre stamp msg = pre @ stamp @ msg @ (if msg = [] \<or> last msg \<noteq> NL then [NL] else [])"

definition append_to :: "string \<Rightarrow> string \<Rightarrow> files \<Rightarrow> files" where
  "append_to path txt fs = (case fs path of None \<Rightarrow> fs | Some old \<Rightarrow> fs(path \<mapsto> old @ txt))"

section \<open>The loggers of tasks and of the leader\<close>

datatype stream_logger =
  InfoLogger | OutputLogger | DuplicateLogger | RateLogger | ErrorLogger | JobLogger
| TaskLogger | AutoScaleLogger | FailLogger | ReplayLogger | DedupLogger

fun stream_prefix :: "stream_logger \<Rightarrow> string" where
  "stream_prefix InfoLogger = ''[INFO] ''"
| "stream_prefix OutputLogger = ''[OUTPUT] ''"
| "stream_prefix DuplicateLogger = ''[DUPLICATE] ''"
| "stream_prefix RateLogger = ''[RATE] ''"
| "stream_prefix ErrorLogger = ''[ERROR] ''"
| "stream_prefix JobLogger = ''[JOB] ''"
| "stream_prefix TaskLogger = ''[Task] ''"
| "stream_prefix AutoScaleLogger = ''[AutoScale] ''"
| "stream_prefix FailLogger = ''[Fail] ''"
| "stream_prefix ReplayLogger = ''[REPLAY] ''"
| "stream_prefix DedupLogger = ''[DedupLog] ''"

record StreamLoggers =
  LogFile :: string
  isOpen :: bool

definition stream_log_name :: "int \<Rightarrow> int \<Rightarrow> string \<Rightarrow> string \<Rightarrow> string" where
  "stream_log_name stageID taskID pre timestamp =
     ''slog/'' @
     (if pre \<noteq> [] then pre @ ''_'' @ timestamp @ ''.log''
      else ''rs_Stage'' @ show_int stageID @ ''_Task'' @ show_int taskID @ ''_'' @ timestamp @ ''.log'')"

text \<open>Opened for appending: a file that is already there keeps its lines.\<close>

definition NewStreamLogger ::
  "bool \<Rightarrow> string \<Rightarrow> int \<Rightarrow> int \<Rightarrow> string \<Rightarrow> files \<Rightarrow> files \<times> StreamLoggers option" where
  "NewStreamLogger opens timestamp stageID taskID pre fs =
     (let filename = stream_log_name stageID taskID pre timestamp in
      if \<not> opens then (fs, None)
      else (fs(filename \<mapsto> (case fs filename of None \<Rightarrow> [] | Some old \<Rightarrow> old)),
            Some \<lparr>LogFile = filename, isOpen = True\<rparr>))"

definition Close :: "StreamLoggers \<Rightarrow> StreamLoggers" where
  "Close sl = sl\<lparr>isOpen := False\<rparr>"

text \<open>The error of a write to a closed file is ignored by the package.\<close>

definition stream_print :: "StreamLoggers \<Rightarrow> stream_logger \<Rightarrow> string \<Rightarrow> string \<Rightarrow> files \<Rightarrow> files" where
  "stream_print sl lg stamp msg fs =
     (if isOpen sl then append_to (LogFile sl) (log_output (stream_prefix lg) stamp msg) fs else fs)"

section \<open>The log of the node\<close>

datatype vm_logger =
  VMJoin | VMSuspected | VMFailed | VMRefuted | VMDeleted | VMHeartBeat | VMReceived | VMInfo
| VMIncar | VMAppend | VMCreate | VMGet

fun vm_prefix :: "vm_logger \<Rightarrow> string" where
  "vm_prefix VMJoin = ''[JOIN]''"
| "vm_prefix VMSuspected = ''[Suspected]''"
| "vm_prefix VMFailed = ''[Failed]''"
| "vm_prefix VMRefuted = ''[Refuted]''"
| "vm_prefix VMDeleted = ''[Deleted]''"
| "vm_prefix VMHeartBeat = ''[HeartBeat]''"
| "vm_prefix VMReceived = ''[Received]''"
| "vm_prefix VMInfo = ''[Info]''"
| "vm_prefix VMIncar = ''[Incar]''"
| "vm_prefix VMAppend = ''[Append]''"
| "vm_prefix VMCreate = ''[Create]''"
| "vm_prefix VMGet = ''[Get]''"

text \<open>\<^verbatim>\<open>NewVMLog\<close> truncates; without the file \<^verbatim>\<open>log.Fatalf\<close> ends the process (\<^const>\<open>None\<close>).\<close>

definition NewVMLog :: "bool \<Rightarrow> string \<Rightarrow> files \<Rightarrow> (files \<times> string) option" where
  "NewVMLog opens path fs = (if opens then Some (fs(path \<mapsto> []), path) else None)"

text \<open>Before \<^verbatim>\<open>NewVMLog\<close> the loggers are nil pointers, and a print panics (\<^const>\<open>None\<close>).\<close>

definition vm_print :: "string option \<Rightarrow> vm_logger \<Rightarrow> string \<Rightarrow> string \<Rightarrow> files \<Rightarrow> files option" where
  "vm_print logPath lg stamp msg fs =
     map_option (\<lambda>path. append_to path (log_output (vm_prefix lg) stamp msg) fs) logPath"

section \<open>Names and lines\<close>

lemma digits_until:
  assumes "show_int a @ CHR ''_'' # r = show_int b @ CHR ''_'' # s"
  shows "a = b \<and> r = s"
proof -
  have free: "\<forall>c\<in>set (show_int i). c \<noteq> CHR ''_''" for i
    using show_int_no [of "CHR ''_''" i] by auto
  have "takeWhile (\<lambda>c. c \<noteq> CHR ''_'') (show_int i @ CHR ''_'' # u) = show_int i"
    "dropWhile (\<lambda>c. c \<noteq> CHR ''_'') (show_int i @ CHR ''_'' # u) = CHR ''_'' # u" for i u
    using free [of i] by (simp_all add: takeWhile_append2 dropWhile_append2)
  with assms show ?thesis by (metis list.inject show_int_inj)
qed

text \<open>No two tasks share a log, whatever the clock says, and no task shares the leader's.\<close>

lemma stream_logs_apart:
  "stream_log_name s t [] stamp = stream_log_name s' t' [] stamp' \<Longrightarrow> s = s' \<and> t = t' \<and> stamp = stamp'"
  by (auto simp: stream_log_name_def dest!: digits_until)

lemma leader_log_apart:
  "stream_log_name s t [] stamp \<noteq> stream_log_name s' t' ''rs_leader'' stamp'"
  by (simp add: stream_log_name_def)

text \<open>The kind of a line can be read off its beginning.\<close>

lemma stream_kind: "stream_prefix a @ r = stream_prefix b @ s \<Longrightarrow> a = b"
  by (cases a; cases b; simp)

lemma vm_kind: "vm_prefix a @ r = vm_prefix b @ s \<Longrightarrow> a = b"
  by (cases a; cases b; simp)

text \<open>
  Prints of any loggers in any order: a file holds what it held and then exactly the lines that open
  loggers on it printed, in their order, also when two starts of a task in one second share the file.
\<close>

fun print_all :: "(StreamLoggers \<times> stream_logger \<times> string \<times> string) list \<Rightarrow> files \<Rightarrow> files" where
  "print_all [] fs = fs"
| "print_all ((sl, lg, stamp, msg) # ps) fs = print_all ps (stream_print sl lg stamp msg fs)"

definition lines_for :: "string \<Rightarrow> (StreamLoggers \<times> stream_logger \<times> string \<times> string) list \<Rightarrow> string" where
  "lines_for path ps =
     concat (map (\<lambda>(sl, lg, stamp, msg). if isOpen sl \<and> LogFile sl = path
       then log_output (stream_prefix lg) stamp msg else []) ps)"

lemma print_all_file:
  "fs path = Some old \<Longrightarrow> print_all ps fs path = Some (old @ lines_for path ps)"
proof (induction ps arbitrary: fs old)
  case (Cons p ps)
  obtain sl lg stamp msg where p: "p = (sl, lg, stamp, msg)" by (metis prod_cases4)
  have "stream_print sl lg stamp msg fs path
      = Some (old @ (if isOpen sl \<and> LogFile sl = path then log_output (stream_prefix lg) stamp msg else []))"
    using Cons.prems by (auto simp: stream_print_def append_to_def split: option.split)
  from Cons.IH [where fs = "stream_print sl lg stamp msg fs", OF this] show ?case by (simp add: p lines_for_def)
qed (simp add: lines_for_def)

lemma opened_again_keeps_lines:
  assumes "NewStreamLogger True stamp s t [] fs = (fs1, Some a)"
    and "NewStreamLogger True stamp s t [] (print_all ps fs1) = (fs2, Some b)"
  shows "LogFile a = LogFile b \<and> fs2 (LogFile b) = Some (the (fs1 (LogFile a)) @ lines_for (LogFile a) ps)"
proof -
  let ?name = "stream_log_name s t [] stamp"
  have "fs1 ?name \<noteq> None" "LogFile a = ?name" "LogFile b = ?name"
    using assms by (auto simp: NewStreamLogger_def Let_def)
  moreover then obtain old where old: "fs1 ?name = Some old" by blast
  moreover have "fs2 ?name = print_all ps fs1 ?name"
    using assms(2) print_all_file [where fs = fs1, OF old] by (auto simp: NewStreamLogger_def Let_def)
  ultimately show ?thesis using print_all_file [where fs = fs1, OF old] by simp
qed

lemma nil_logger_panics: "vm_print None lg stamp msg fs = None"
  by (simp add: vm_print_def)

lemma vm_log_starts_empty:
  "NewVMLog True path fs = Some (fs1, p) \<Longrightarrow>
     vm_print (Some p) lg stamp msg fs1 = Some (fs1(path \<mapsto> log_output (vm_prefix lg) stamp msg))"
  by (auto simp: NewVMLog_def vm_print_def append_to_def)

end
