(* ===== verification/Client.thy ===== *)
theory Client
  imports Merge Leader
begin

text \<open>
  The command line client (\<^verbatim>\<open>demo/demo.go\<close>): file commands, the arguments of a RainStorm job, the
  address of \<^verbatim>\<open>kill_task\<close> and the summary of a distributed \<^verbatim>\<open>grep\<close>. An index past the end of the
  arguments is a panic.
\<close>

section \<open>File commands\<close>

text \<open>
  \<^verbatim>\<open>ExecCreate\<close> and \<^verbatim>\<open>ExecAppend\<close>: the first replica is the primary, the next ones up to
  \<^const>\<open>ReplicaNum\<close> its targets. The result is true when the command reports completion.
\<close>

definition exec_write :: "string \<Rightarrow> wenv \<Rightarrow> fetched \<Rightarrow> string option \<Rightarrow> string \<Rightarrow> string \<Rightarrow> cluster \<Rightarrow> cluster \<times> bool" where
  "exec_write method env got localFile hyDFSFileName opID c =
     (case localFile of
        None \<Rightarrow> (c, False)
      | Some d \<Rightarrow>
          (case GetReplica got hyDFSFileName of
             Inl _ \<Rightarrow> (c, False)
           | Inr replicaInfo \<Rightarrow>
               let primary = replicaInfo ! 0;
                   args = \<lparr>HyDFSFileName = hyDFSFileName, LocalFile = d,
                           NonPrimary = map (\<lambda>i. NodeAddr (replicaInfo ! i)) [1..<ReplicaNum],
                           OperationID = opID\<rparr>
               in (case through (eNet env) c (serve_write method env (NodeAddr primary) args c) of
                     (c', Reply s) \<Rightarrow> (c', success s)
                   | (c', _) \<Rightarrow> (c', False))))"

definition ExecCreate :: "wenv \<Rightarrow> fetched \<Rightarrow> string option \<Rightarrow> string \<Rightarrow> string \<Rightarrow> cluster \<Rightarrow> cluster \<times> bool" where
  "ExecCreate = exec_write CreateMethod"

definition ExecAppend :: "wenv \<Rightarrow> fetched \<Rightarrow> string option \<Rightarrow> string \<Rightarrow> string \<Rightarrow> cluster \<Rightarrow> cluster \<times> bool" where
  "ExecAppend = exec_write AppendMethod"

text \<open>\<^verbatim>\<open>ExecGet\<close>: the bytes it writes to the local file, if it finds a replica that answers.\<close>

definition ExecGet :: "(string \<Rightarrow> net) \<Rightarrow> fetched \<Rightarrow> string \<Rightarrow> cluster \<Rightarrow> cluster \<times> string option outcome" where
  "ExecGet nets got hyDFSFileName c =
     (case GetReplica got hyDFSFileName of
        Inl _ \<Rightarrow> (c, Reply None)
      | Inr replicaInfo \<Rightarrow> fetch_any nets hyDFSFileName replicaInfo c)"

definition resolve_replica :: "string \<Rightarrow> string" where
  "resolve_replica replicaAddress =
     (case VMNameToIP replicaAddress of
        Some targetIP \<Rightarrow> targetIP @ '':'' @ RPCPort | None \<Rightarrow> replicaAddress)"

definition ExecGetFromReplica :: "(string \<Rightarrow> net) \<Rightarrow> string \<Rightarrow> string \<Rightarrow> cluster \<Rightarrow> cluster \<times> string option" where
  "ExecGetFromReplica nets replicaAddress hyDFSFileName c =
     (case fetch_from nets (resolve_replica replicaAddress) hyDFSFileName c of
        (c', Reply (s, d)) \<Rightarrow> (c', if success s then Some d else None)
      | (c', _) \<Rightarrow> (c', None))"

text \<open>The RPCs of \<^verbatim>\<open>ExecMultiAppend\<close>: address and local file of each; \<^const>\<open>None\<close> when the lists differ in length.\<close>

definition multi_append_calls :: "string \<Rightarrow> string \<Rightarrow> (string \<times> string) list option" where
  "multi_append_calls vmListStr fileListStr =
     (let vmNames = split_on CHR '','' vmListStr; localFiles = split_on CHR '','' fileListStr in
      if length vmNames \<noteq> length localFiles then None
      else Some (List.map_filter
        (\<lambda>(vm, f). map_option (\<lambda>ip. (ip @ '':'' @ RPCPort, f)) (VMNameToIP vm)) (zip vmNames localFiles)))"

definition ring_line :: "NodeInfo \<Rightarrow> string \<Rightarrow> string \<Rightarrow> string" where
  "ring_line n a b = ''RingID '' @ show_int (uint (NodeID n)) @ '' in '' @ a @ '' ('' @ b @ '')'' @ [NL]"

definition ExecLs :: "fetched \<Rightarrow> string \<Rightarrow> string" where
  "ExecLs got hyDFSFileName =
     ''hyDFSFileName '' @ hyDFSFileName @ '' FileID: '' @ show_int (uint (HashFunc hyDFSFileName)) @ [NL]
     @ (case GetReplica got hyDFSFileName of
          Inl e \<Rightarrow> e @ [NL]
        | Inr replicaInfo \<Rightarrow>
            ''Replicas-------------'' @ [NL]
            @ concat (map (\<lambda>i. let n = replicaInfo ! i in
                case GetVMName (NodeAddr n) of None \<Rightarrow> [] | Some vm \<Rightarrow> ring_line n vm (NodeAddr n))
                [0..<ReplicaNum]) @ [NL])"

definition ExecListMemIDs :: "member list \<Rightarrow> string" where
  "ExecListMemIDs currentMembers =
     concat (map (\<lambda>n. case GetVMName (NodeAddr n) of None \<Rightarrow> [] | Some vm \<Rightarrow> ring_line n (NodeAddr n) vm)
       (sort_ring (GetRingInfo currentMembers)))"

section \<open>Arguments of a job\<close>

datatype parsed = Panic | Exit string | Job LeaderStartArgs

definition ParseBool :: "string \<Rightarrow> bool option" where
  "ParseBool s =
     (if s \<in> {''1'', ''t'', ''T'', ''TRUE'', ''true'', ''True''} then Some True
      else if s \<in> {''0'', ''f'', ''F'', ''FALSE'', ''false'', ''False''} then Some False
      else None)"

definition positive :: "string \<Rightarrow> nat option" where
  "positive s = (case atoi s of Some i \<Rightarrow> if 0 < i then Some (nat i) else None | None \<Rightarrow> None)"

text \<open>The rates that follow when autoscaling is on; \<open>i\<close> is \<^verbatim>\<open>argIndex\<close> after the booleans.\<close>

definition parse_rates :: "string list \<Rightarrow> nat \<Rightarrow> (nat \<times> nat \<times> nat) + parsed" where
  "parse_rates args i =
     (if length args < i + 1 then Inr (Exit ''Error: input_rate must be provided when autoscale_enabled is true'')
      else (case positive (args ! i) of
        None \<Rightarrow> Inr (Exit ''Invalid input_rate'')
      | Some rate \<Rightarrow>
          if length args \<le> i + 1 then Inr Panic
          else (case positive (args ! (i + 1)) of
            None \<Rightarrow> Inr (Exit ''Invalid lw'')
          | Some lw \<Rightarrow>
              if length args \<le> i + 2 then Inr Panic
              else (case positive (args ! (i + 2)) of
                None \<Rightarrow> Inr (Exit ''Invalid hw'')
              | Some hw \<Rightarrow> Inl (rate, lw, hw)))))"

definition parse_rainstorm :: "string \<Rightarrow> string list \<Rightarrow> parsed" where
  "parse_rainstorm rsID args =
     (if length args < 10 then Exit ''usage''
      else (case positive (args ! 2) of
        None \<Rightarrow> Exit ''Invalid Nstages''
      | Some numStages \<Rightarrow>
          (case positive (args ! 3) of
             None \<Rightarrow> Exit ''Invalid Ntasks''
           | Some numTasks \<Rightarrow>
               let i = 4 + 2 * numStages in
               if length args < i + 3 then Panic
               else (case ParseBool (args ! (i + 2)) of
                 None \<Rightarrow> Exit ''Error: exactly_once must be a boolean''
               | Some exactlyOnce \<Rightarrow>
                   if length args < i + 4 then Panic
                   else (case ParseBool (args ! (i + 3)) of
                     None \<Rightarrow> Exit ''Error: autoscale_enabled must be a boolean''
                   | Some autoScale \<Rightarrow>
                       (case (if autoScale then parse_rates args (i + 4) else Inl (100, 0, 0)) of
                          Inr e \<Rightarrow> e
                        | Inl (rate, lw, hw) \<Rightarrow>
                            Job \<lparr>jobID = rsID, NumStages = numStages, NumTasks = numTasks,
                                 OpExes = map (\<lambda>k. args ! (4 + 2 * k)) [0..<numStages],
                                 OpArgss = map (\<lambda>k. args ! (5 + 2 * k)) [0..<numStages],
                                 SrcFile = args ! i, DestFile = args ! (i + 1),
                                 jobExactlyOnce = exactlyOnce, Autoscale = autoScale,
                                 InputRate = int rate, LW = int lw, HW = int hw\<rparr>))))))"

section \<open>Commands that make one call\<close>

text \<open>What the command prints about its call; \<open>NoAnswer\<close>: the call never returns.\<close>

datatype report = RpcError string | RpcFailed string | RpcDone | NoAnswer

definition printed_report :: "status outcome \<Rightarrow> report" where
  "printed_report r =
     (case r of
        Blocked \<Rightarrow> NoAnswer
      | Error e \<Rightarrow> RpcError e
      | Reply s \<Rightarrow> if success s then RpcDone else RpcFailed (errorMessage s))"

text \<open>\<^verbatim>\<open>ExecMerge\<close>; \<^const>\<open>None\<close> is the index panic on an empty replica list.\<close>

definition ExecMerge :: "(string \<Rightarrow> string) \<Rightarrow> net \<Rightarrow> menv \<Rightarrow> fetched \<Rightarrow> string \<Rightarrow> poll_event list \<Rightarrow> string
    \<Rightarrow> cluster \<Rightarrow> (cluster \<times> report) option" where
  "ExecMerge sha n env got opID sched hyDFSFileName c =
     (case GetReplica got hyDFSFileName of
        Inl e \<Rightarrow> Some (c, RpcError e)
      | Inr [] \<Rightarrow> None
      | Inr (primary # _) \<Rightarrow>
          (case through n c (MergeFile sha env (NodeAddr primary) got opID sched hyDFSFileName c) of
             (c', r) \<Rightarrow> Some (c', printed_report r)))"

text \<open>
  The goroutines of \<^verbatim>\<open>ExecMultiAppend\<close>, here in the order of the list: each target reads its own local file
  (\<open>read\<close>) and appends it through a random replica. A panic of the target is an error of the call.
\<close>

definition trigger_call :: "(string \<Rightarrow> net) \<Rightarrow> (string \<Rightarrow> wenv \<times> nat \<times> string) \<Rightarrow> (string \<Rightarrow> string \<Rightarrow> string option)
    \<Rightarrow> fetched \<Rightarrow> string \<Rightarrow> string \<times> string \<Rightarrow> cluster \<Rightarrow> cluster \<times> report" where
  "trigger_call nets envs read got f call c =
     (case call of (addr, localFile) \<Rightarrow> case envs addr of (env, k, opID) \<Rightarrow>
        (case through (nets addr) c
           (case TriggerAppend env got k opID (read addr localFile) f c of
              None \<Rightarrow> (c, Error ''panic: index out of range'') | Some run \<Rightarrow> run) of
           (c', r) \<Rightarrow> (c', printed_report r)))"

fun trigger_calls :: "(string \<Rightarrow> net) \<Rightarrow> (string \<Rightarrow> wenv \<times> nat \<times> string) \<Rightarrow> (string \<Rightarrow> string \<Rightarrow> string option)
    \<Rightarrow> fetched \<Rightarrow> string \<Rightarrow> (string \<times> string) list \<Rightarrow> cluster \<Rightarrow> cluster \<times> report list" where
  "trigger_calls nets envs read got f [] c = (c, [])"
| "trigger_calls nets envs read got f (call # calls) c =
     (case trigger_call nets envs read got f call c of
        (c1, r) \<Rightarrow> (case trigger_calls nets envs read got f calls c1 of (c2, rs) \<Rightarrow> (c2, r # rs)))"

definition ExecMultiAppend :: "(string \<Rightarrow> net) \<Rightarrow> (string \<Rightarrow> wenv \<times> nat \<times> string) \<Rightarrow> (string \<Rightarrow> string \<Rightarrow> string option)
    \<Rightarrow> fetched \<Rightarrow> string \<Rightarrow> string \<Rightarrow> string \<Rightarrow> cluster \<Rightarrow> cluster \<times> report list option" where
  "ExecMultiAppend nets envs read got hyDFSFileName vmListStr fileListStr c =
     (case multi_append_calls vmListStr fileListStr of
        None \<Rightarrow> (c, None)
      | Some calls \<Rightarrow>
          (case trigger_calls nets envs read got hyDFSFileName calls c of (c', rs) \<Rightarrow> (c', Some rs)))"

text \<open>The job to the leader, and \<^verbatim>\<open>kill_task\<close> to the worker of a task.\<close>

definition submit_job :: "net \<Rightarrow> jenv \<Rightarrow> member list \<Rightarrow> LeaderStartArgs \<Rightarrow> leader \<times> sys \<Rightarrow> (leader \<times> sys) \<times> report" where
  "submit_job n env ms jobArgs st =
     (case through n st (StartRainStorm env ms jobArgs st) of (st', r) \<Rightarrow> (st', printed_report r))"

definition list_tasks :: "net \<Rightarrow> leader \<Rightarrow> string" where
  "list_tasks n ld = (case n of Delivered \<Rightarrow> ListTasks ld | _ \<Rightarrow> [])"

definition kill_task :: "net \<Rightarrow> bool \<Rightarrow> int \<Rightarrow> worker \<Rightarrow> worker \<times> report" where
  "kill_task n killed pid w =
     (case through n w (case KillTask killed pid w of (w', s) \<Rightarrow> (w', Reply s)) of (w', r) \<Rightarrow> (w', printed_report r))"

text \<open>The command reports completion only for a call that ran and answered success.\<close>

lemma report_done: "printed_report r = RpcDone \<longleftrightarrow> (\<exists>s. r = Reply s \<and> success s)"
  by (auto simp: printed_report_def split: outcome.split)

lemma submit_done:
  "submit_job n env ms j st = (st', RpcDone) \<Longrightarrow> \<exists>s. StartRainStorm env ms j st = (st', Reply s) \<and> success s"
  by (auto simp: submit_job_def report_done through_Reply split: prod.splits)

section \<open>Killing a task and collecting a grep\<close>

definition kill_target :: "string \<Rightarrow> string" where
  "kill_target targetVMStr =
     (case VMNameToIP targetVMStr of
        Some ip \<Rightarrow> ip @ '':'' @ RPCPort
      | None \<Rightarrow> if contains '':'' targetVMStr then targetVMStr else targetVMStr @ '':'' @ RPCPort)"

definition grep_targets :: "member list \<Rightarrow> (string \<times> string) list" where
  "grep_targets ms =
     map (\<lambda>m. (ID m, hd (split_on CHR '':'' (Address m)) @ '':'' @ CommandPort))
       (filter (\<lambda>m. State m = Alive \<or> State m = Suspected) ms)"

definition line_count :: "bool \<Rightarrow> string \<Rightarrow> int" where
  "line_count cInArgs grepOutput =
     (if cInArgs then (case atoi (trim_space grepOutput) of Some n \<Rightarrow> n | None \<Rightarrow> 0)
      else int (length (split_on NL (trim_space grepOutput))))"

text \<open>The total printed at the end; \<open>outs\<close> are the answers that arrived.\<close>

definition grep_total :: "bool \<Rightarrow> string list \<Rightarrow> int" where
  "grep_total cInArgs outs = sum_list (map (line_count cInArgs) (filter (\<lambda>out. out \<noteq> []) outs))"

section \<open>Facts\<close>

text \<open>The file commands write to the same replicas as the stream layer.\<close>

lemma exec_write_same:
  assumes "GetReplica got f = Inr rs" and "length rs = ReplicaNum"
  shows "exec_write method env got (Some d) f opID c =
     (case CallHyDFSWrite env got f d method opID c of (c', r) \<Rightarrow> (c', r = Reply ()))"
proof -
  obtain p q r where rs: "rs = [p, q, r]"
    using assms(2) by (auto simp: ReplicaNum_def length_Suc_conv numeral_3_eq_3)
  have "map (\<lambda>i. NodeAddr (rs ! i)) [1..<ReplicaNum] = map NodeAddr [q, r]"
    by (simp add: ReplicaNum_def rs upt_rec)
  then show ?thesis using assms(1)
    by (auto simp: exec_write_def CallHyDFSWrite_def rs Let_def split: prod.splits outcome.splits)
qed

text \<open>
  The argument vector a user writes for a job, and its parsing; with autoscaling on, a missing
  watermark is not caught by the length check.
\<close>

definition job_args :: "string list \<Rightarrow> LeaderStartArgs \<Rightarrow> string list" where
  "job_args rates j =
     [''demo'', ''RainStorm'', show_int (int (NumStages j)), show_int (int (NumTasks j))]
     @ concat (map (\<lambda>(e, a). [e, a]) (zip (OpExes j) (OpArgss j)))
     @ [SrcFile j, DestFile j, if jobExactlyOnce j then ''true'' else ''false'',
        if Autoscale j then ''true'' else ''false''] @ rates"

lemma positive_show: "0 < n \<Longrightarrow> n < 2 ^ 63 \<Longrightarrow> positive (show_int (int n)) = Some n"
proof -
  assume n: "0 < n" "n < 2 ^ 63"
  then have "int n < 2 ^ 63" by (metis of_nat_less_iff of_nat_numeral of_nat_power)
  then have "atoi (show_int (int n)) = Some (int n)" by (intro atoi_show_int) simp_all
  then show ?thesis using n by (simp add: positive_def)
qed

lemma length_pairs: "length (concat (map (\<lambda>(e, a). [e, a]) ps)) = 2 * length ps"
  by (induction ps) auto

lemma nth_pairs:
  assumes "k < length ps"
  shows "(concat (map (\<lambda>(e, a). [e, a]) ps) @ r) ! (2 * k) = fst (ps ! k)"
    and "(concat (map (\<lambda>(e, a). [e, a]) ps) @ r) ! (Suc (2 * k)) = snd (ps ! k)"
proof -
  have "(concat (map (\<lambda>(e, a). [e, a]) ps) @ r) ! (2 * k) = fst (ps ! k) \<and>
      (concat (map (\<lambda>(e, a). [e, a]) ps) @ r) ! (Suc (2 * k)) = snd (ps ! k)"
    using assms
  proof (induction ps arbitrary: k)
    case (Cons p ps)
    then show ?case by (cases p; cases k) auto
  qed simp
  then show "(concat (map (\<lambda>(e, a). [e, a]) ps) @ r) ! (2 * k) = fst (ps ! k)"
    "(concat (map (\<lambda>(e, a). [e, a]) ps) @ r) ! (Suc (2 * k)) = snd (ps ! k)" by blast+
qed


definition job_ok :: "LeaderStartArgs \<Rightarrow> bool" where
  "job_ok j \<longleftrightarrow> 0 < NumStages j \<and> NumStages j < 2 ^ 63 \<and> 0 < NumTasks j \<and> NumTasks j < 2 ^ 63 \<and>
     length (OpExes j) = NumStages j \<and> length (OpArgss j) = NumStages j"

lemma job_args_nth:
  assumes "job_ok j"
  shows "length (job_args rates j) = 8 + 2 * NumStages j + length rates"
    and "job_args rates j ! 2 = show_int (int (NumStages j))"
    and "job_args rates j ! 3 = show_int (int (NumTasks j))"
    and "k < NumStages j \<Longrightarrow> job_args rates j ! (4 + 2 * k) = OpExes j ! k"
    and "k < NumStages j \<Longrightarrow> job_args rates j ! (5 + 2 * k) = OpArgss j ! k"
    and "job_args rates j ! (4 + 2 * NumStages j + m) =
      ([SrcFile j, DestFile j, if jobExactlyOnce j then ''true'' else ''false'',
        if Autoscale j then ''true'' else ''false''] @ rates) ! m"
proof -
  let ?ps = "zip (OpExes j) (OpArgss j)"
  let ?tail = "[SrcFile j, DestFile j, if jobExactlyOnce j then ''true'' else ''false'',
        if Autoscale j then ''true'' else ''false''] @ rates"
  let ?body = "concat (map (\<lambda>(e, a). [e, a]) ?ps)"
  have len: "length ?ps = NumStages j" using assms by (simp add: job_ok_def)
  have lb: "length ?body = 2 * NumStages j" using len by (simp add: length_pairs)
  have shape: "job_args rates j = [''demo'', ''RainStorm'', show_int (int (NumStages j)), show_int (int (NumTasks j))]
      @ (?body @ ?tail)" by (simp add: job_args_def)
  show "length (job_args rates j) = 8 + 2 * NumStages j + length rates" unfolding shape using lb by simp
  show "job_args rates j ! 2 = show_int (int (NumStages j))" "job_args rates j ! 3 = show_int (int (NumTasks j))"
    unfolding shape by simp_all
  have drop4: "job_args rates j ! (4 + x) = (?body @ ?tail) ! x" for x
    unfolding shape by (simp add: nth_append numeral_eq_Suc)
  show "job_args rates j ! (4 + 2 * k) = OpExes j ! k" if "k < NumStages j"
    using drop4 [of "2 * k"] nth_pairs(1) [of k ?ps ?tail] that len assms by (simp add: job_ok_def)
  show "job_args rates j ! (5 + 2 * k) = OpArgss j ! k" if "k < NumStages j"
  proof -
    have "job_args rates j ! (5 + 2 * k) = (?body @ ?tail) ! Suc (2 * k)"
      using drop4 [of "Suc (2 * k)"] by (simp add: add.commute)
    then show ?thesis using nth_pairs(2) [of k ?ps ?tail] that len assms by (simp add: job_ok_def)
  qed
  have "(?body @ ?tail) ! (2 * NumStages j + m) = ?tail ! m"
    using nth_append_length_plus [of ?body ?tail m] lb by simp
  then show "job_args rates j ! (4 + 2 * NumStages j + m) = ?tail ! m"
    using drop4 [of "2 * NumStages j + m"] by (simp add: add.assoc)
qed

lemma parse_prefix:
  assumes "job_ok j"
  shows "parse_rainstorm (jobID j) (job_args rates j) =
    (case (if Autoscale j then parse_rates (job_args rates j) (8 + 2 * NumStages j) else Inl (100, 0, 0)) of
       Inr e \<Rightarrow> e
     | Inl (rate, lw, hw) \<Rightarrow> Job (j\<lparr>InputRate := int rate, LW := int lw, HW := int hw\<rparr>))"
proof -
  note nth = job_args_nth [OF assms, where rates = rates]
  have n: "0 < NumStages j" using assms by (simp add: job_ok_def)
  have num: "positive (job_args rates j ! 2) = Some (NumStages j)" "positive (job_args rates j ! 3) = Some (NumTasks j)"
    using assms unfolding nth(2,3) by (simp_all add: positive_show job_ok_def)
  have tail: "job_args rates j ! (4 + 2 * NumStages j) = SrcFile j"
    "job_args rates j ! (4 + 2 * NumStages j + 1) = DestFile j"
    "ParseBool (job_args rates j ! (4 + 2 * NumStages j + 2)) = Some (jobExactlyOnce j)"
    "ParseBool (job_args rates j ! (4 + 2 * NumStages j + 3)) = Some (Autoscale j)"
    using nth(6) [where m = 0] nth(6) [where m = 1] nth(6) [where m = 2] nth(6) [where m = 3]
    by (simp_all add: ParseBool_def del: One_nat_def)
  have ops: "map (\<lambda>k. job_args rates j ! (4 + 2 * k)) [0..<NumStages j] = OpExes j"
    "map (\<lambda>k. job_args rates j ! (5 + 2 * k)) [0..<NumStages j] = OpArgss j"
    using assms by (auto simp: nth(4,5) job_ok_def intro!: nth_equalityI)
  have i: "4 + 2 * NumStages j + 4 = 8 + 2 * NumStages j" by simp
  have len: "\<not> length (job_args rates j) < 10" "\<not> length (job_args rates j) < 4 + 2 * NumStages j + 3"
    "\<not> length (job_args rates j) < 4 + 2 * NumStages j + 4"
    unfolding nth(1) using n by simp_all
  show ?thesis
    unfolding parse_rainstorm_def Let_def num option.case if_not_P [OF len(1)] if_not_P [OF len(2)]
      if_not_P [OF len(3)] tail ops i
    using len by (simp add: nth(1) split: sum.split prod.split)
qed

lemma parse_rates_all:
  assumes "job_ok j" and "0 < r" "r < 2 ^ 63" "0 < l" "l < 2 ^ 63" "0 < h" "h < 2 ^ 63"
  shows "parse_rates (job_args [show_int (int r), show_int (int l), show_int (int h)] j) (8 + 2 * NumStages j)
       = Inl (r, l, h)"
    and "parse_rates (job_args [show_int (int r)] j) (8 + 2 * NumStages j) = Inr Panic"
proof -
  have at: "job_args (show_int (int r) # rs) j ! (8 + 2 * NumStages j) = show_int (int r)" for rs
    using job_args_nth(6) [OF assms(1), where rates = "show_int (int r) # rs" and m = 4] by (simp add: add.commute)
  have at1: "job_args [a, b, c] j ! (8 + 2 * NumStages j + 1) = b"
    "job_args [a, b, c] j ! (8 + 2 * NumStages j + 2) = c" for a b c
    using job_args_nth(6) [OF assms(1), where rates = "[a, b, c]" and m = 5] job_args_nth(6) [OF assms(1), where rates = "[a, b, c]" and m = 6]
    by (simp_all add: add.commute add.left_commute numeral_eq_Suc)
  show "parse_rates (job_args [show_int (int r), show_int (int l), show_int (int h)] j) (8 + 2 * NumStages j) = Inl (r, l, h)"
    unfolding parse_rates_def at at1 using assms
    by (simp add: job_args_nth(1) positive_show)
  show "parse_rates (job_args [show_int (int r)] j) (8 + 2 * NumStages j) = Inr Panic"
    unfolding parse_rates_def at using assms by (simp add: job_args_nth(1) positive_show)
qed

text \<open>
  C39. The command line carries a job unchanged: the arguments a user writes for a job with
  autoscaling parse to that job, rates included; the same line with the rate but without the
  watermarks passes the length checks and ends in a panic instead of the usage message.
\<close>

theorem job_roundtrip:
  assumes "job_ok j" and "Autoscale j" and "0 < r" "r < 2 ^ 63" "0 < l" "l < 2 ^ 63" "0 < h" "h < 2 ^ 63"
  shows "parse_rainstorm (jobID j) (job_args [show_int (int r), show_int (int l), show_int (int h)] j)
       = Job (j\<lparr>InputRate := int r, LW := int l, HW := int h\<rparr>) \<and>
    parse_rainstorm (jobID j) (job_args [show_int (int r)] j) = Panic"
  unfolding parse_prefix [OF assms(1)] parse_rates_all [OF assms(1,3-8)] using assms(2) by simp

definition sample_submission :: LeaderStartArgs where
  "sample_submission = \<lparr>jobID = ''rs'', NumStages = 1, NumTasks = 2, OpExes = [''op0''], OpArgss = [''x y''],
     SrcFile = ''src'', DestFile = ''out'', jobExactlyOnce = True, Autoscale = True, InputRate = 0, LW = 0, HW = 0\<rparr>"

theorem job_roundtrip_witness:
  "parse_rainstorm ''rs'' (job_args [''100'', ''1'', ''5''] sample_submission)
     = Job (sample_submission\<lparr>InputRate := 100, LW := 1, HW := 5\<rparr>)"
proof -
  have ok: "job_ok sample_submission" "Autoscale sample_submission" "jobID sample_submission = ''rs''"
    by (simp_all add: job_ok_def sample_submission_def)
  have "show_int (int 100) = ''100''" "show_int (int 1) = ''1''" "show_int (int 5) = ''5''" by code_simp+
  then show ?thesis using job_roundtrip [OF ok(1,2), of 100 1 5] ok(3) by simp
qed

section \<open>What the parser accepts can be run\<close>

lemma positive_Some: "positive s = Some n \<Longrightarrow> 0 < n"
  by (auto simp: positive_def split: option.splits if_splits)

lemma parse_rates_Inl: "parse_rates args i = Inl (r, l, h) \<Longrightarrow> 0 < r \<and> 0 < l \<and> 0 < h"
  by (auto simp: parse_rates_def dest: positive_Some split: option.splits if_splits)

lemma parse_rates_no_job [simp]: "parse_rates args i \<noteq> Inr (Job j)"
  by (auto simp: parse_rates_def split: option.split)

lemma parsed_fields:
  assumes "parse_rainstorm rs args = Job j"
  shows "jobID j = rs" "0 < NumStages j" "0 < NumTasks j" "length (OpExes j) = NumStages j"
    "length (OpArgss j) = NumStages j" "0 < InputRate j" "Autoscale j \<Longrightarrow> 0 < LW j \<and> 0 < HW j"
    "4 + 2 * NumStages j + 3 < length args"
  using assms
  by (auto simp: parse_rainstorm_def Let_def dest!: positive_Some parse_rates_Inl
      split: if_splits option.splits sum.splits prod.splits)

lemma no_index_panic:
  assumes "length (OpExes j) = NumStages j" "length (OpArgss j) = NumStages j"
  shows "snd (startAllTasks j plan dedup envs st) \<noteq> Error ''panic: index out of range''"
  using assms by (auto simp: startAllTasks_def split: prod.split)



end
