(* ===== verification/MemberTable.thy ===== *)
theory MemberTable
  imports Addressing
begin

text \<open>
  The table behind \<^verbatim>\<open>MemberList\<close> in \<^verbatim>\<open>node/membership_crud.go\<close>. The Go map holds pointers, and
  the round-robin list shares them: a change made through the map is seen through the list,
  and a deleted member stays in the list until the next permutation. So the objects live in
  an explicit store (\<open>heap\<close>, with \<open>fresh\<close> the next unused address) and both the map and the
  list hold addresses. \<open>view\<close> forgets the store: what the map says of an ID.
\<close>

record MemberList =
  heap :: "nat \<Rightarrow> member"
  fresh :: nat
  memberlist :: "(string \<times> nat) list"
  roundRobinIndex :: nat
  roundRobinList :: "nat list"
  deleteNumber :: nat

definition nobody :: member where
  "nobody = \<lparr>ID = [], Address = [], HeartBeatCounter = 0, Incarnation = 0, State = [],
             LastUpdateTime = 0\<rparr>"

definition NewMemberList :: MemberList where
  "NewMemberList =
     \<lparr>heap = (\<lambda>_. nobody), fresh = 0, memberlist = [], roundRobinIndex = 0,
      roundRobinList = [], deleteNumber = 0\<rparr>"

type_synonym view = "string \<Rightarrow> member option"

definition view :: "MemberList \<Rightarrow> view" where
  "view ml k = map_option (heap ml) (map_of (memberlist ml) k)"

text \<open>The three ways the code touches the map.\<close>

definition modify :: "string \<Rightarrow> (member \<Rightarrow> member) \<Rightarrow> MemberList \<Rightarrow> MemberList" where
  "modify k f ml =
     (case map_of (memberlist ml) k of
        None \<Rightarrow> ml
      | Some p \<Rightarrow> ml\<lparr>heap := (heap ml)(p := f (heap ml p))\<rparr>)"

definition add_new :: "member \<Rightarrow> MemberList \<Rightarrow> MemberList" where
  "add_new m ml =
     ml\<lparr>heap := (heap ml)(fresh ml := m),
        memberlist := AList.update (ID m) (fresh ml) (memberlist ml),
        fresh := Suc (fresh ml)\<rparr>"

definition remove :: "string \<Rightarrow> MemberList \<Rightarrow> MemberList" where
  "remove k ml = ml\<lparr>memberlist := AList.delete k (memberlist ml)\<rparr>"

definition ml_inv :: "MemberList \<Rightarrow> bool" where
  "ml_inv ml \<longleftrightarrow>
     distinct (map fst (memberlist ml)) \<and> distinct (map snd (memberlist ml)) \<and>
     (\<forall>(k, p) \<in> set (memberlist ml). p < fresh ml \<and> ID (heap ml p) = k) \<and>
     (\<forall>p \<in> set (roundRobinList ml). p < fresh ml) \<and>
     roundRobinIndex ml \<le> length (roundRobinList ml)"

lemma ml_invD:
  assumes "ml_inv ml" and "map_of (memberlist ml) k = Some p"
  shows "p < fresh ml" and "ID (heap ml p) = k"
  using assms map_of_SomeD unfolding ml_inv_def by fast+

lemma ml_inv_inj:
  assumes "ml_inv ml" and "map_of (memberlist ml) k = Some p" and "map_of (memberlist ml) k' = Some p"
  shows "k = k'"
  using assms ml_invD(2) by metis

lemma ml_inv_new: "ml_inv NewMemberList"
  by (simp add: ml_inv_def NewMemberList_def)

lemma ml_inv_modify [keeps]:
  assumes inv: "ml_inv ml" and f: "\<And>m. ID (f m) = ID m"
  shows "ml_inv (modify k f ml)"
proof (cases "map_of (memberlist ml) k")
  case None
  with inv show ?thesis by (simp add: modify_def)
next
  case (Some p)
  with inv f show ?thesis by (auto simp: modify_def ml_inv_def)
qed

lemma view_modify:
  assumes "ml_inv ml"
  shows "view (modify k f ml) = (view ml)(k := map_option f (view ml k))"
proof (cases "map_of (memberlist ml) k")
  case None
  then show ?thesis by (auto simp: modify_def view_def)
next
  case (Some p)
  have "view (modify k f ml) j = ((view ml)(k := map_option f (view ml k))) j" for j
  proof (cases "map_of (memberlist ml) j = Some p")
    case True
    with assms Some have "j = k" by (auto dest: ml_inv_inj)
    with Some show ?thesis by (simp add: modify_def view_def)
  next
    case False
    with Some have "j \<noteq> k" by auto
    with Some False show ?thesis
      by (cases "map_of (memberlist ml) j") (auto simp: modify_def view_def)
  qed
  then show ?thesis by blast
qed

lemma distinct_snd_update:
  assumes "distinct (map snd al)" and "p \<notin> snd ` set al"
  shows "distinct (map snd (AList.update k p al))"
  using assms
proof (induction al)
  case (Cons x al)
  have "snd ` set (AList.update k p al) \<subseteq> insert p (snd ` set al)"
    by (induction al) auto
  with Cons show ?case by (cases x) (auto simp: image_iff)
qed simp

lemma ml_inv_add_new [keeps]:
  assumes inv: "ml_inv ml"
  shows "ml_inv (add_new m ml)"
proof -
  have lt: "p < fresh ml" if "(k, p) \<in> set (memberlist ml)" for k p
    using inv that by (auto simp: ml_inv_def)
  have new: "fresh ml \<notin> snd ` set (memberlist ml)" using lt by force
  have "set (AList.update (ID m) (fresh ml) (memberlist ml))
      \<subseteq> insert (ID m, fresh ml) {(k, p) \<in> set (memberlist ml). k \<noteq> ID m}"
    using inv distinct_update_fst [of "memberlist ml" "ID m" "fresh ml"]
    by (auto simp: ml_inv_def dest!: map_of_is_SomeI split: if_splits dest: map_of_SomeD)
  then have "\<forall>(k, p) \<in> set (AList.update (ID m) (fresh ml) (memberlist ml)).
      p < Suc (fresh ml) \<and> ID (((heap ml)(fresh ml := m)) p) = k"
    using inv lt by (fastforce simp: ml_inv_def)
  with inv new show ?thesis
    by (auto simp: ml_inv_def add_new_def distinct_update distinct_snd_update less_SucI)
qed

lemma view_add_new:
  assumes "ml_inv ml"
  shows "view (add_new m ml) = (view ml)(ID m \<mapsto> m)"
proof
  fix k
  show "view (add_new m ml) k = ((view ml)(ID m \<mapsto> m)) k"
    using ml_invD(1) [OF assms, of k]
    by (cases "map_of (memberlist ml) k") (auto simp: view_def add_new_def)
qed

lemma ml_inv_remove [keeps]:
  assumes "ml_inv ml"
  shows "ml_inv (remove k ml)"
proof -
  have "set (AList.delete k (memberlist ml)) \<subseteq> set (memberlist ml)"
    by (auto simp: AList.delete_eq)
  moreover have "distinct (map snd (AList.delete k (memberlist ml)))"
    using assms by (auto simp: ml_inv_def AList.delete_eq distinct_map inj_on_def)
  ultimately show ?thesis
    using assms by (auto simp: ml_inv_def remove_def distinct_delete)
qed

lemma view_remove: "view (remove k ml) = (view ml)(k := None)"
  by (auto simp: view_def remove_def)

lemma view_ID: "ml_inv ml \<Longrightarrow> view ml k = Some m \<Longrightarrow> ID m = k"
  by (auto simp: view_def dest: ml_invD(2))

section \<open>The table as an interface\<close>

text \<open>
  What the membership protocol needs of its table: looking up after an in-place change, an
  insertion and a removal, and an invariant that all three keep.
\<close>

locale member_table =
  fixes inv :: "'t \<Rightarrow> bool"
    and look :: "'t \<Rightarrow> string \<Rightarrow> member option"
    and upd :: "string \<Rightarrow> (member \<Rightarrow> member) \<Rightarrow> 't \<Rightarrow> 't"
    and ins :: "member \<Rightarrow> 't \<Rightarrow> 't"
    and del :: "string \<Rightarrow> 't \<Rightarrow> 't"
  assumes look_ID: "inv t \<Longrightarrow> look t k = Some m \<Longrightarrow> ID m = k"
    and look_upd: "inv t \<Longrightarrow> look (upd k f t) = (look t)(k := map_option f (look t k))"
    and look_ins: "inv t \<Longrightarrow> look (ins m t) = (look t)(ID m \<mapsto> m)"
    and look_del: "inv t \<Longrightarrow> look (del k t) = (look t)(k := None)"
    and inv_upd: "inv t \<Longrightarrow> (\<And>m. ID (f m) = ID m) \<Longrightarrow> inv (upd k f t)"
    and inv_ins: "inv t \<Longrightarrow> inv (ins m t)"
    and inv_del: "inv t \<Longrightarrow> inv (del k t)"
begin

lemma look_upd_same: "inv t \<Longrightarrow> look (upd k f t) k = map_option f (look t k)"
  by (simp add: look_upd)

lemma look_upd_other: "inv t \<Longrightarrow> j \<noteq> k \<Longrightarrow> look (upd k f t) j = look t j"
  by (simp add: look_upd)

text \<open>Removing a list of keys, as the clean-up loop does.\<close>

lemma inv_dels: "inv t \<Longrightarrow> inv (foldl (\<lambda>t k. del k t) t ks)"
  by (induction ks arbitrary: t) (auto simp: inv_del)

lemma look_dels:
  "inv t \<Longrightarrow> look (foldl (\<lambda>t k. del k t) t ks) = (\<lambda>k. if k \<in> set ks then None else look t k)"
proof (induction ks arbitrary: t)
  case (Cons k ks)
  then have "look (foldl (\<lambda>t k. del k t) (del k t) ks)
      = (\<lambda>j. if j \<in> set ks then None else look (del k t) j)"
    by (simp add: inv_del)
  with Cons.prems show ?case by (auto simp: look_del)
qed simp

text \<open>Changing every key of a list in turn, when the keys are different.\<close>

lemma inv_upds:
  "inv t \<Longrightarrow> (\<And>k m. ID (f k m) = ID m) \<Longrightarrow> inv (foldl (\<lambda>t k. upd k (f k) t) t ks)"
  by (induction ks arbitrary: t) (auto simp: inv_upd)

lemma look_upds:
  assumes "\<And>k m. ID (f k m) = ID m"
  shows "inv t \<Longrightarrow> distinct ks \<Longrightarrow>
    look (foldl (\<lambda>t k. upd k (f k) t) t ks)
      = (\<lambda>k. if k \<in> set ks then map_option (f k) (look t k) else look t k)"
proof (induction ks arbitrary: t)
  case (Cons k ks)
  then have "look (foldl (\<lambda>t k. upd k (f k) t) (upd k (f k) t) ks)
      = (\<lambda>j. if j \<in> set ks then map_option (f j) (look (upd k (f k) t) j)
             else look (upd k (f k) t) j)"
    using assms by (simp add: inv_upd)
  with Cons.prems show ?case by (auto simp: look_upd)
qed simp

end

interpretation table: member_table ml_inv view modify add_new remove
proof
  fix t :: MemberList and k m f
  assume t: "ml_inv t"
  show "view t k = Some m \<Longrightarrow> ID m = k" using t by (rule view_ID)
  show "view (modify k f t) = (view t)(k := map_option f (view t k))"
    using t by (rule view_modify)
  show "view (add_new m t) = (view t)(ID m \<mapsto> m)" using t by (rule view_add_new)
  show "view (remove k t) = (view t)(k := None)" by (rule view_remove)
  show "(\<And>m. ID (f m) = ID m) \<Longrightarrow> ml_inv (modify k f t)" using t by (rule ml_inv_modify)
  show "ml_inv (add_new m t)" using t by (rule ml_inv_add_new)
  show "ml_inv (remove k t)" using t by (rule ml_inv_remove)
qed

lemmas table_keeps = table.inv_upd table.inv_ins table.inv_del
lemmas table_looks = table.look_upd table.look_ins table.look_del

text \<open>What in-place changes, insertions and removals leave alone.\<close>

lemma modify_frame [frame]:
  "roundRobinList (modify k f ml) = roundRobinList ml"
  "roundRobinIndex (modify k f ml) = roundRobinIndex ml"
  "memberlist (modify k f ml) = memberlist ml"
  "fresh (modify k f ml) = fresh ml"
  "deleteNumber (modify k f ml) = deleteNumber ml"
  by (simp_all add: modify_def split: option.split)

lemma add_new_frame [frame]:
  "roundRobinList (add_new m ml) = roundRobinList ml"
  "roundRobinIndex (add_new m ml) = roundRobinIndex ml"
  by (simp_all add: add_new_def)

lemma remove_frame [frame]:
  "roundRobinList (remove k ml) = roundRobinList ml"
  "roundRobinIndex (remove k ml) = roundRobinIndex ml"
  "heap (remove k ml) = heap ml" "fresh (remove k ml) = fresh ml"
  by (simp_all add: remove_def)

end
