(* ===== verification/Membership.thy ===== *)
theory Membership
  imports MemberTable
begin

text \<open>
  The membership protocol: every operation of \<^verbatim>\<open>node/membership_crud.go\<close>. \<^verbatim>\<open>time.Now()\<close> is the
  argument \<open>now\<close> (one reading per call), \<^verbatim>\<open>rand.Shuffle\<close> is an argument that permutes a list.
  Logging is left out.
\<close>

section \<open>Operations\<close>

definition getSelfByID :: "string \<Rightarrow> MemberList \<Rightarrow> member option" where
  "getSelfByID nodeID ml = view ml nodeID"

definition getMemberList :: "MemberList \<Rightarrow> member list" where
  "getMemberList ml = map (\<lambda>(_, p). heap ml p) (memberlist ml)"

definition printMemberList :: "MemberList \<Rightarrow> string" where
  "printMemberList ml =
     ''------------------------------'' @ [NL]
     @ concat (map (\<lambda>m. case GetVMName (Address m) of
                           None \<Rightarrow> []
                         | Some vmName \<Rightarrow> vmName @ '' ('' @ Address m @ '')'' @ [NL])
                   (getMemberList ml))
     @ ''There are '' @ show_int (int (length (memberlist ml))) @ '' members'' @ [NL]
     @ ''End----------------------------''"

definition selectKMember :: "(nat list \<Rightarrow> nat list) \<Rightarrow> nat \<Rightarrow> string \<Rightarrow> MemberList \<Rightarrow> nat list" where
  "selectKMember shuffle num nodeID ml =
     (let filterMember = shuffle (filter (\<lambda>p. nodeID \<noteq> ID (heap ml p) \<and> State (heap ml p) \<noteq> Failed)
                                    (map snd (memberlist ml)))
      in if length filterMember < num then filterMember else take num filterMember)"

definition listSuspect :: "MemberList \<Rightarrow> string" where
  "listSuspect ml =
     (let output = concat (map (\<lambda>m. ID m @ [NL]) (filter (\<lambda>m. State m = Suspected) (getMemberList ml)))
      in (if output = [] then ''No suspected nodes now'' else output) @ [NL])"

text \<open>\<^verbatim>\<open>UpdateMemberlist\<close>: a report about the node itself, about a known and an unknown member.\<close>

definition refute :: "int \<Rightarrow> member \<Rightarrow> member \<Rightarrow> member" where
  "refute now next currentself =
     (if State next = Suspected \<and> State currentself = Alive
         \<and> Incarnation next \<ge> Incarnation currentself
      then currentself\<lparr>Incarnation := Incarnation currentself + 1, LastUpdateTime := now\<rparr>
      else currentself)"

definition merge_known :: "int \<Rightarrow> member \<Rightarrow> member \<Rightarrow> member" where
  "merge_known now next cur =
     (if Incarnation next > Incarnation cur then
        cur\<lparr>Incarnation := Incarnation next, State := State next,
            HeartBeatCounter := HeartBeatCounter next, LastUpdateTime := now\<rparr>
      else if State cur = Failed then cur
      else if State next = Failed then cur\<lparr>State := Failed, LastUpdateTime := now\<rparr>
      else if State next = Leave then cur\<lparr>State := Failed, LastUpdateTime := now\<rparr>
      else if Incarnation next = Incarnation cur then
        (if State cur = Alive then
           (if State next = Alive \<and> HeartBeatCounter next > HeartBeatCounter cur then
              cur\<lparr>HeartBeatCounter := HeartBeatCounter next, LastUpdateTime := now\<rparr>
            else if State next = Suspected then cur\<lparr>State := Suspected, LastUpdateTime := now\<rparr>
            else cur)
         else cur)
      else cur)"

fun UpdateMemberlist :: "int \<Rightarrow> member list \<Rightarrow> string \<Rightarrow> MemberList \<Rightarrow> MemberList" where
  "UpdateMemberlist now [] nodeID ml = ml"
| "UpdateMemberlist now (next # rest) nodeID ml =
     (if ID next = nodeID then
        (case view ml nodeID of
           None \<Rightarrow> ml
         | Some _ \<Rightarrow> UpdateMemberlist now rest nodeID (modify nodeID (refute now next) ml))
      else
        (case view ml (ID next) of
           Some _ \<Rightarrow> UpdateMemberlist now rest nodeID (modify (ID next) (merge_known now next) ml)
         | None \<Rightarrow>
             UpdateMemberlist now rest nodeID
               (if State next \<noteq> Failed then add_new (next\<lparr>LastUpdateTime := now\<rparr>) ml else ml)))"

definition changeState :: "int \<Rightarrow> string \<Rightarrow> string \<Rightarrow> string \<Rightarrow> MemberList \<Rightarrow> MemberList \<times> member list" where
  "changeState now targetMemberID prevState newState ml =
     (case view ml targetMemberID of
        None \<Rightarrow> (ml, [])
      | Some m \<Rightarrow>
          if State m \<noteq> prevState then (ml, [])
          else (let m' = m\<lparr>State := newState, LastUpdateTime := now\<rparr>
                in (modify targetMemberID (\<lambda>m. m\<lparr>State := newState, LastUpdateTime := now\<rparr>) ml, [m'])))"

text \<open>
  \<^verbatim>\<open>TimeOutCheck\<close>: one member of the loop. \<open>expired\<close> is the deletion test; \<open>age_member\<close> the two
  state changes, with whether the member goes on the list of failed members.
\<close>

definition expired :: "string \<Rightarrow> string \<Rightarrow> int \<Rightarrow> member \<Rightarrow> bool" where
  "expired protocol suspicion now m \<longleftrightarrow>
     State m = Failed \<and>
     (if protocol = ProtocolPingAck \<and> suspicion = SuspicionTrue
      then now - LastUpdateTime m > TCleanupPingSuspct
      else now - LastUpdateTime m > TCleanup)"

definition age_alive :: "string \<Rightarrow> string \<Rightarrow> int \<Rightarrow> member \<Rightarrow> member \<times> bool" where
  "age_alive protocol suspicion now m =
     (if State m = Alive \<and> protocol = ProtocolGossip then
        (if suspicion = SuspicionTrue \<and> now - LastUpdateTime m > TFail then
           (m\<lparr>State := Suspected, LastUpdateTime := now\<rparr>, False)
         else if suspicion = SuspecionFalse \<and> now - LastUpdateTime m > TFailGossipNosuspect then
           (m\<lparr>State := Failed, LastUpdateTime := now\<rparr>, True)
         else (m, False))
      else (m, False))"

definition age_suspected :: "string \<Rightarrow> string \<Rightarrow> int \<Rightarrow> member \<Rightarrow> member \<times> bool" where
  "age_suspected protocol suspicion now m =
     (if State m = Suspected \<and> suspicion = SuspicionTrue then
        (if protocol = ProtocolGossip \<and> now - LastUpdateTime m > TSuspect then
           (m\<lparr>State := Failed, LastUpdateTime := now\<rparr>, True)
         else if protocol = ProtocolPingAck \<and> now - LastUpdateTime m > TSuspectPingAck then
           (m\<lparr>State := Failed, LastUpdateTime := now\<rparr>, True)
         else (m, False))
      else (m, False))"

definition age_member :: "string \<Rightarrow> string \<Rightarrow> int \<Rightarrow> member \<Rightarrow> member \<times> bool" where
  "age_member protocol suspicion now m =
     (let (m1, r1) = age_alive protocol suspicion now m;
          (m2, r2) = age_suspected protocol suspicion now m1
      in (m2, r1 \<or> r2))"

definition TimeOutCheck :: "string \<Rightarrow> string \<Rightarrow> int \<Rightarrow> MemberList \<Rightarrow> MemberList \<times> member list" where
  "TimeOutCheck protocol suspicion now ml =
     (let members = getMemberList ml;
          deleteMemberID = map ID (filter (expired protocol suspicion now) members);
          failedMemberList =
            map fst (filter snd (map (age_member protocol suspicion now) members));
          aged = foldl (\<lambda>ml k. modify k (\<lambda>m. fst (age_member protocol suspicion now m)) ml) ml
                   (map fst (memberlist ml));
          counted = aged\<lparr>deleteNumber := deleteNumber aged + length deleteMemberID\<rparr>
      in (foldl (\<lambda>ml k. remove k ml) counted deleteMemberID, failedMemberList))"

definition addHeartBeat :: "int \<Rightarrow> string \<Rightarrow> MemberList \<Rightarrow> MemberList" where
  "addHeartBeat now nodeID ml =
     modify nodeID (\<lambda>m. m\<lparr>HeartBeatCounter := HeartBeatCounter m + 1, LastUpdateTime := now\<rparr>) ml"

definition updateSenderTime :: "int \<Rightarrow> string \<Rightarrow> MemberList \<Rightarrow> MemberList" where
  "updateSenderTime now sendID ml = modify sendID (\<lambda>m. m\<lparr>LastUpdateTime := now\<rparr>) ml"

definition permutation :: "(nat list \<Rightarrow> nat list) \<Rightarrow> string \<Rightarrow> MemberList \<Rightarrow> MemberList" where
  "permutation shuffle nodeID ml =
     (let newList = filter (\<lambda>p. ID (heap ml p) \<noteq> nodeID \<and> State (heap ml p) \<noteq> Failed)
                      (map snd (memberlist ml))
      in ml\<lparr>roundRobinList := (if newList = [] then [] else shuffle newList), roundRobinIndex := 0\<rparr>)"

text \<open>The selection loop of \<^verbatim>\<open>roundRobinK\<close>; \<open>shf j\<close> is the \<open>j\<close>-th shuffle of the call.\<close>

fun rr_loop :: "(nat \<Rightarrow> nat list \<Rightarrow> nat list) \<Rightarrow> nat \<Rightarrow> nat \<Rightarrow> string \<Rightarrow> nat \<Rightarrow> MemberList
    \<Rightarrow> nat list \<times> MemberList" where
  "rr_loop shf j 0 nodeID len ml = ([], ml)"
| "rr_loop shf j (Suc n) nodeID len ml =
     (if len \<le> roundRobinIndex ml then
        (let ml' = permutation (shf j) nodeID ml in
         if roundRobinList ml' = [] then ([], ml')
         else (let (sel, ml'') = rr_loop shf (Suc j) n nodeID (length (roundRobinList ml'))
                                   (ml'\<lparr>roundRobinIndex := Suc (roundRobinIndex ml')\<rparr>)
               in (roundRobinList ml' ! roundRobinIndex ml' # sel, ml'')))
      else (let (sel, ml'') = rr_loop shf j n nodeID len
                                (ml\<lparr>roundRobinIndex := Suc (roundRobinIndex ml)\<rparr>)
            in (roundRobinList ml ! roundRobinIndex ml # sel, ml'')))"

definition roundRobinK :: "(nat \<Rightarrow> nat list \<Rightarrow> nat list) \<Rightarrow> nat \<Rightarrow> string \<Rightarrow> MemberList
    \<Rightarrow> nat list \<times> MemberList" where
  "roundRobinK shf num nodeID ml =
     (let (ml0, j) = (if length (roundRobinList ml) \<le> roundRobinIndex ml
                      then (permutation (shf 0) nodeID ml, 1) else (ml, 0 :: nat))
      in if roundRobinList ml0 = [] then ([], ml0)
         else if length (roundRobinList ml0) \<le> num
         then (roundRobinList ml0, ml0\<lparr>roundRobinIndex := length (roundRobinList ml0)\<rparr>)
         else rr_loop shf j num nodeID (length (roundRobinList ml0)) ml0)"

definition resetOtherTime :: "int \<Rightarrow> string \<Rightarrow> MemberList \<Rightarrow> MemberList" where
  "resetOtherTime now nodeID ml =
     foldl (\<lambda>ml k. modify k (\<lambda>m. m\<lparr>LastUpdateTime := now\<rparr>) ml) ml
       (filter (\<lambda>k. k \<noteq> nodeID) (map fst (memberlist ml)))"

definition TurnLeave :: "int \<Rightarrow> string \<Rightarrow> MemberList \<Rightarrow> MemberList" where
  "TurnLeave now nodeID ml = modify nodeID (\<lambda>m. m\<lparr>State := Leave, LastUpdateTime := now\<rparr>) ml"

section \<open>The invariant\<close>

lemma merge_ID [simp]:
  "ID (refute now next m) = ID m" "ID (merge_known now next m) = ID m"
  "ID (fst (age_member p s now m)) = ID m"
  by (simp_all add: refute_def merge_known_def age_member_def age_alive_def age_suspected_def Let_def)

lemma ml_inv_more [simp]:
  "ml_inv (ml\<lparr>deleteNumber := n\<rparr>) = ml_inv ml" "view (ml\<lparr>deleteNumber := n\<rparr>) = view ml"
  "view (ml\<lparr>roundRobinIndex := i\<rparr>) = view ml" "view (ml\<lparr>roundRobinList := l\<rparr>) = view ml"
  by (auto simp: ml_inv_def view_def)

text \<open>Whatever every single change of \<^verbatim>\<open>UpdateMemberlist\<close> keeps, the loop keeps.\<close>

lemma UpdateMemberlist_keeps:
  assumes "\<And>ml next. P ml \<Longrightarrow> P (modify nodeID (refute now next) ml)"
    and "\<And>ml next. P ml \<Longrightarrow> ID next \<noteq> nodeID \<Longrightarrow> P (modify (ID next) (merge_known now next) ml)"
    and "\<And>ml next. P ml \<Longrightarrow> ID next \<noteq> nodeID \<Longrightarrow> view ml (ID next) = None \<Longrightarrow>
           P (add_new (next\<lparr>LastUpdateTime := now\<rparr>) ml)"
  shows "P ml \<Longrightarrow> P (UpdateMemberlist now ms nodeID ml)"
  by (induction ms arbitrary: ml) (auto simp: assms split: option.split)

lemma ml_inv_Update [keeps]: "ml_inv ml \<Longrightarrow> ml_inv (UpdateMemberlist now ms nodeID ml)"
  by (rule UpdateMemberlist_keeps) (simp_all add: table_keeps)

lemma ml_inv_changeState [keeps]: "ml_inv ml \<Longrightarrow> ml_inv (fst (changeState now k a b ml))"
  by (simp add: changeState_def table_keeps Let_def split: option.split)

lemma ml_inv_TimeOutCheck [keeps]: "ml_inv ml \<Longrightarrow> ml_inv (fst (TimeOutCheck p s now ml))"
  by (simp add: TimeOutCheck_def Let_def table.inv_dels table.inv_upds)

lemma ml_inv_times [keeps]:
  assumes "ml_inv ml"
  shows "ml_inv (addHeartBeat now nodeID ml)" "ml_inv (updateSenderTime now sendID ml)"
    "ml_inv (resetOtherTime now nodeID ml)" "ml_inv (TurnLeave now nodeID ml)"
  using assms
  by (simp_all add: addHeartBeat_def updateSenderTime_def resetOtherTime_def TurnLeave_def
      table_keeps table.inv_upds [where f = "\<lambda>_ m. m\<lparr>LastUpdateTime := now\<rparr>"])

definition shuffler :: "(nat list \<Rightarrow> nat list) \<Rightarrow> bool" where
  "shuffler sh \<longleftrightarrow> (\<forall>xs. mset (sh xs) = mset xs)"

lemma shuffler_set: "shuffler sh \<Longrightarrow> set (sh xs) = set xs"
  by (metis shuffler_def set_mset_mset)

lemma ml_inv_permutation [keeps]:
  assumes "ml_inv ml" and "shuffler sh"
  shows "ml_inv (permutation sh nodeID ml)"
  using assms by (auto simp: ml_inv_def permutation_def Let_def shuffler_set)

text \<open>The targets of the round robin: never the node itself.\<close>

definition rr_ok :: "string \<Rightarrow> MemberList \<Rightarrow> bool" where
  "rr_ok nodeID ml \<longleftrightarrow> (\<forall>p \<in> set (roundRobinList ml). ID (heap ml p) \<noteq> nodeID)"

lemma rr_ok_permutation:
  "shuffler sh \<Longrightarrow> rr_ok nodeID (permutation sh nodeID ml)"
  by (auto simp: rr_ok_def permutation_def Let_def shuffler_set)

lemma permutation_frame [frame, simp]:
  "memberlist (permutation sh nodeID ml) = memberlist ml"
  "heap (permutation sh nodeID ml) = heap ml"
  "view (permutation sh nodeID ml) = view ml"
  "roundRobinIndex (permutation sh nodeID ml) = 0"
  by (simp_all add: permutation_def Let_def view_def fun_eq_iff)

text \<open>What one selection keeps and what it returns, relative to the list before it.\<close>

definition rr_result :: "string \<Rightarrow> MemberList \<Rightarrow> nat list \<times> MemberList \<Rightarrow> bool" where
  "rr_result nodeID ml r \<longleftrightarrow>
     ml_inv (snd r) \<and> rr_ok nodeID (snd r) \<and> heap (snd r) = heap ml \<and> view (snd r) = view ml \<and>
     (\<forall>p\<in>set (fst r). ID (heap ml p) \<noteq> nodeID)"

lemma rr_result_Cons:
  assumes "rr_result nodeID ml0 (sel, ml')" and "heap ml0 = heap ml" and "view ml0 = view ml"
    and "ID (heap ml p) \<noteq> nodeID"
  shows "rr_result nodeID ml (p # sel, ml')"
  using assms by (simp add: rr_result_def)

lemma rr_advance:
  assumes "ml_inv ml" and "rr_ok nodeID ml" and "roundRobinIndex ml < length (roundRobinList ml)"
  shows "ml_inv (ml\<lparr>roundRobinIndex := Suc (roundRobinIndex ml)\<rparr>)"
    and "rr_ok nodeID (ml\<lparr>roundRobinIndex := Suc (roundRobinIndex ml)\<rparr>)"
    and "ID (heap ml (roundRobinList ml ! roundRobinIndex ml)) \<noteq> nodeID"
  using assms by (auto simp: ml_inv_def rr_ok_def)

lemma rr_loop_ok:
  assumes sh: "\<And>j. shuffler (shf j)"
  shows "ml_inv ml \<Longrightarrow> rr_ok nodeID ml \<Longrightarrow> len = length (roundRobinList ml) \<Longrightarrow>
    rr_result nodeID ml (rr_loop shf j n nodeID len ml)"
proof (induction n arbitrary: j len ml)
  case 0
  then show ?case by (simp add: rr_result_def)
next
  case (Suc n)
  show ?case
  proof (cases "len \<le> roundRobinIndex ml")
    case refill: True
    let ?ml = "permutation (shf j) nodeID ml"
    let ?ml1 = "?ml\<lparr>roundRobinIndex := Suc (roundRobinIndex ?ml)\<rparr>"
    have inv: "ml_inv ?ml" "rr_ok nodeID ?ml"
      using Suc.prems(1) sh by (auto intro: ml_inv_permutation rr_ok_permutation)
    show ?thesis
    proof (cases "roundRobinList ?ml = []")
      case True
      then have "rr_loop shf j (Suc n) nodeID len ml = ([], ?ml)" using refill by simp
      then show ?thesis using inv by (simp add: rr_result_def)
    next
      case False
      then have lt: "roundRobinIndex ?ml < length (roundRobinList ?ml)" by simp
      obtain sel ml' where rec: "rr_loop shf (Suc j) n nodeID (length (roundRobinList ?ml)) ?ml1
          = (sel, ml')" by fastforce
      have "rr_result nodeID ?ml1 (sel, ml')"
        using Suc.IH [of ?ml1 "length (roundRobinList ?ml)" "Suc j"] rr_advance [OF inv lt] rec by simp
      then have "rr_result nodeID ml (roundRobinList ?ml ! roundRobinIndex ?ml # sel, ml')"
        using rr_advance(3) [OF inv lt] by (intro rr_result_Cons [where ?ml0.0 = ?ml1]) auto
      then show ?thesis using refill False rec by simp
    qed
  next
    case False
    let ?ml1 = "ml\<lparr>roundRobinIndex := Suc (roundRobinIndex ml)\<rparr>"
    have lt: "roundRobinIndex ml < length (roundRobinList ml)" using False Suc.prems(3) by simp
    obtain sel ml' where rec: "rr_loop shf j n nodeID len ?ml1 = (sel, ml')" by fastforce
    have "rr_result nodeID ?ml1 (sel, ml')"
      using Suc.IH [of ?ml1 len j] rr_advance [OF Suc.prems(1,2) lt] rec Suc.prems(3) by simp
    then have "rr_result nodeID ml (roundRobinList ml ! roundRobinIndex ml # sel, ml')"
      using rr_advance(3) [OF Suc.prems(1,2) lt] by (intro rr_result_Cons [where ?ml0.0 = ?ml1]) auto
    then show ?thesis using False rec by simp
  qed
qed

lemma roundRobinK_ok:
  assumes sh: "\<And>j. shuffler (shf j)" and inv: "ml_inv ml" "rr_ok nodeID ml"
  shows "rr_result nodeID ml (roundRobinK shf num nodeID ml)"
proof -
  obtain ml0 j where start: "(if length (roundRobinList ml) \<le> roundRobinIndex ml
      then (permutation (shf 0) nodeID ml, 1) else (ml, 0 :: nat)) = (ml0, j)"
    by (metis surj_pair)
  then have ml0: "ml_inv ml0" "rr_ok nodeID ml0" "heap ml0 = heap ml" "view ml0 = view ml"
    using assms by (auto split: if_splits intro: ml_inv_permutation rr_ok_permutation)
  have loop: "rr_result nodeID ml (rr_loop shf j num nodeID (length (roundRobinList ml0)) ml0)"
    using rr_loop_ok [OF sh ml0(1,2) refl] ml0(3,4) by (simp add: rr_result_def)
  have all: "rr_result nodeID ml
      (roundRobinList ml0, ml0\<lparr>roundRobinIndex := length (roundRobinList ml0)\<rparr>)"
    using ml0 by (simp add: rr_result_def ml_inv_def rr_ok_def)
  have none: "rr_result nodeID ml ([], ml0)" using ml0 by (simp add: rr_result_def)
  show ?thesis
    unfolding roundRobinK_def start Let_def prod.case using loop all none by (simp split: if_splits)
qed

end
