(* ===== verification/RoundRobin.thy ===== *)
theory RoundRobin
  imports Membership
begin

text \<open>
  Runs of the membership operations in any order, and the fairness of the ping round robin:
  between two permutations every target is chosen exactly once, whatever else happens to the
  table meanwhile.
\<close>

datatype mop =
    Report int "member list"
  | Change int string string string
  | TimeOuts string string int
  | Beat int
  | Heard int string
  | ResetTimes int
  | Leaving int
  | Ping "nat \<Rightarrow> nat list \<Rightarrow> nat list"

text \<open>One operation at node \<open>nodeID\<close>: the objects a ping chose, and the table after it.\<close>

fun do_op :: "string \<Rightarrow> mop \<Rightarrow> MemberList \<Rightarrow> nat list \<times> MemberList" where
  "do_op nodeID (Report now ms) ml = ([], UpdateMemberlist now ms nodeID ml)"
| "do_op nodeID (Change now k a b) ml = ([], fst (changeState now k a b ml))"
| "do_op nodeID (TimeOuts p s now) ml = ([], fst (TimeOutCheck p s now ml))"
| "do_op nodeID (Beat now) ml = ([], addHeartBeat now nodeID ml)"
| "do_op nodeID (Heard now k) ml = ([], updateSenderTime now k ml)"
| "do_op nodeID (ResetTimes now) ml = ([], resetOtherTime now nodeID ml)"
| "do_op nodeID (Leaving now) ml = ([], TurnLeave now nodeID ml)"
| "do_op nodeID (Ping shf) ml = roundRobinK shf 1 nodeID ml"

fun run_ops :: "string \<Rightarrow> mop list \<Rightarrow> MemberList \<Rightarrow> nat list \<times> MemberList" where
  "run_ops nodeID [] ml = ([], ml)"
| "run_ops nodeID (op # ops) ml =
     (let (sel, ml1) = do_op nodeID op ml; (sels, ml2) = run_ops nodeID ops ml1 in (sel @ sels, ml2))"

fun fair_op :: "mop \<Rightarrow> bool" where
  "fair_op (Ping shf) \<longleftrightarrow> (\<forall>j. shuffler (shf j))"
| "fair_op _ \<longleftrightarrow> True"

fun is_ping :: "mop \<Rightarrow> bool" where
  "is_ping (Ping _) \<longleftrightarrow> True"
| "is_ping _ \<longleftrightarrow> False"

definition pings :: "mop list \<Rightarrow> nat" where
  "pings ops = length (filter is_ping ops)"

lemma pings_simps [simp]: "pings [] = 0" "pings (op # ops) = (if is_ping op then 1 else 0) + pings ops"
  by (simp_all add: pings_def)

section \<open>Invariant of every run\<close>

definition same_ring :: "MemberList \<Rightarrow> MemberList \<Rightarrow> bool" where
  "same_ring ml ml' \<longleftrightarrow>
     roundRobinList ml' = roundRobinList ml \<and> roundRobinIndex ml' = roundRobinIndex ml"

lemma same_ring_refl [simp]: "same_ring ml ml"
  and same_ring_modify [simp]: "same_ring ml (modify k f m) = same_ring ml m"
  and same_ring_add [simp]: "same_ring ml (add_new x m) = same_ring ml m"
  and same_ring_remove [simp]: "same_ring ml (remove k m) = same_ring ml m"
  and same_ring_count [simp]: "same_ring ml (m\<lparr>deleteNumber := n\<rparr>) = same_ring ml m"
  by (simp_all add: same_ring_def frame)

lemma same_ring_folds:
  "same_ring ml m \<Longrightarrow> same_ring ml (foldl (\<lambda>m k. modify k (f k) m) m ks)"
  "same_ring ml m \<Longrightarrow> same_ring ml (foldl (\<lambda>m k. remove k m) m ks)"
  by (rule foldl_inv [where P = "same_ring ml"]; simp)+

lemma same_ring_op:
  assumes "\<not> is_ping op"
  shows "same_ring ml (snd (do_op nodeID op ml))" and "fst (do_op nodeID op ml) = []"
proof -
  have "same_ring ml (UpdateMemberlist now ms nodeID ml)" for now ms
    by (rule UpdateMemberlist_keeps) simp_all
  then show "same_ring ml (snd (do_op nodeID op ml))"
    using assms
    by (cases op)
      (simp_all add: changeState_def TimeOutCheck_def Let_def addHeartBeat_def updateSenderTime_def
        resetOtherTime_def TurnLeave_def same_ring_folds split: option.split)
  show "fst (do_op nodeID op ml) = []" using assms by (cases op) simp_all
qed

text \<open>
  Objects once allocated keep their ID, so the targets of the round robin stay legitimate
  while the table changes under them.
\<close>

definition ids_kept :: "MemberList \<Rightarrow> MemberList \<Rightarrow> bool" where
  "ids_kept ml ml' \<longleftrightarrow> fresh ml \<le> fresh ml' \<and> (\<forall>p < fresh ml. ID (heap ml' p) = ID (heap ml p))"

lemma ids_kept_refl [simp]: "ids_kept ml ml"
  by (simp add: ids_kept_def)

lemma ids_kept_modify:
  "ids_kept ml m \<Longrightarrow> (\<And>x. ID (f x) = ID x) \<Longrightarrow> ids_kept ml (modify k f m)"
  by (auto simp: ids_kept_def modify_def split: option.split)

lemma ids_kept_add: "ids_kept ml m \<Longrightarrow> ids_kept ml (add_new x m)"
  by (auto simp: ids_kept_def add_new_def)

lemma ids_kept_remove [simp]:
  "ids_kept ml (remove k m) = ids_kept ml m" "ids_kept ml (m\<lparr>deleteNumber := n\<rparr>) = ids_kept ml m"
  by (simp_all add: ids_kept_def frame)

lemma ids_kept_folds:
  "ids_kept ml m \<Longrightarrow> (\<And>k x. ID (f k x) = ID x) \<Longrightarrow> ids_kept ml (foldl (\<lambda>m k. modify k (f k) m) m ks)"
  "ids_kept ml m \<Longrightarrow> ids_kept ml (foldl (\<lambda>m k. remove k m) m ks)"
  by (rule foldl_inv [where P = "ids_kept ml"]; simp add: ids_kept_modify)+

lemma ids_kept_op:
  assumes "\<not> is_ping op"
  shows "ids_kept ml (snd (do_op nodeID op ml))"
proof -
  have "ids_kept ml (UpdateMemberlist now ms nodeID ml)" for now ms
    by (rule UpdateMemberlist_keeps) (simp_all add: ids_kept_modify ids_kept_add)
  then show ?thesis
    using assms
    by (cases op)
      (simp_all add: changeState_def TimeOutCheck_def Let_def addHeartBeat_def updateSenderTime_def
        resetOtherTime_def TurnLeave_def ids_kept_folds ids_kept_modify split: option.split)
qed

lemma rr_ok_kept:
  assumes "ml_inv ml" and "rr_ok nodeID ml" and "same_ring ml ml'" and "ids_kept ml ml'"
  shows "rr_ok nodeID ml'"
  using assms by (auto simp: rr_ok_def same_ring_def ids_kept_def ml_inv_def)

lemma do_op_inv:
  assumes "ml_inv ml" and "rr_ok nodeID ml" and "fair_op op"
  shows "ml_inv (snd (do_op nodeID op ml))" and "rr_ok nodeID (snd (do_op nodeID op ml))"
proof -
  show "ml_inv (snd (do_op nodeID op ml))"
    using assms roundRobinK_ok [of _ ml nodeID 1]
    by (cases op) (simp_all add: ml_inv_Update ml_inv_changeState ml_inv_TimeOutCheck ml_inv_times
        rr_result_def)
  show "rr_ok nodeID (snd (do_op nodeID op ml))"
  proof (cases "is_ping op")
    case True
    then obtain shf where "op = Ping shf" by (cases op) auto
    then show ?thesis using assms roundRobinK_ok [of shf ml nodeID 1] by (simp add: rr_result_def)
  next
    case False
    then show ?thesis using rr_ok_kept assms same_ring_op(1) ids_kept_op by blast
  qed
qed

lemma run_ops_inv:
  assumes "ml_inv ml" and "rr_ok nodeID ml" and "\<forall>op\<in>set ops. fair_op op"
  shows "ml_inv (snd (run_ops nodeID ops ml)) \<and> rr_ok nodeID (snd (run_ops nodeID ops ml))"
  using assms
proof (induction ops arbitrary: ml)
  case (Cons op ops)
  then show ?case
    using do_op_inv [of ml nodeID op] by (simp add: case_prod_beta Let_def)
qed simp

section \<open>Fairness\<close>

lemma ping_next:
  assumes "roundRobinIndex ml < length (roundRobinList ml)"
  shows "roundRobinK shf 1 nodeID ml
       = ([roundRobinList ml ! roundRobinIndex ml], ml\<lparr>roundRobinIndex := Suc (roundRobinIndex ml)\<rparr>)"
proof (cases "length (roundRobinList ml) \<le> 1")
  case True
  with assms have "length (roundRobinList ml) = 1" "roundRobinIndex ml = 0" by auto
  then show ?thesis by (cases "roundRobinList ml") (auto simp: roundRobinK_def)
next
  case False
  with assms show ?thesis by (auto simp: roundRobinK_def)
qed

lemma round_in_order:
  "roundRobinIndex ml + pings ops \<le> length (roundRobinList ml) \<Longrightarrow>
   fst (run_ops nodeID ops ml) = take (pings ops) (drop (roundRobinIndex ml) (roundRobinList ml))"
proof (induction ops arbitrary: ml)
  case (Cons op ops)
  show ?case
  proof (cases "is_ping op")
    case True
    then obtain shf where op: "op = Ping shf" by (cases op) auto
    have lt: "roundRobinIndex ml < length (roundRobinList ml)" using Cons.prems True by simp
    then show ?thesis
      using Cons.IH [of "ml\<lparr>roundRobinIndex := Suc (roundRobinIndex ml)\<rparr>"] Cons.prems op
        ping_next [OF lt] Cons_nth_drop_Suc [OF lt]
      by (auto simp: case_prod_beta Let_def) (metis take_Suc_Cons)
  next
    case False
    then show ?thesis
      using Cons same_ring_op [OF False, where ml = ml and nodeID = nodeID]
      by (auto simp: case_prod_beta Let_def same_ring_def)
  qed
qed simp

text \<open>The members a node may ping at this moment.\<close>

definition targets :: "string \<Rightarrow> MemberList \<Rightarrow> nat list" where
  "targets nodeID ml =
     filter (\<lambda>p. ID (heap ml p) \<noteq> nodeID \<and> State (heap ml p) \<noteq> Failed) (map snd (memberlist ml))"

lemma permutation_targets:
  "shuffler sh \<Longrightarrow> mset (roundRobinList (permutation sh nodeID ml)) = mset (targets nodeID ml)"
  unfolding permutation_def targets_def [symmetric] Let_def by (simp add: shuffler_def)


definition three_members :: MemberList where
  "three_members = foldl (\<lambda>ml i. add_new (sample_member i i) ml) NewMemberList [''a'', ''b'', ''c'']"


end
