(* ===== verification/Detection.thy ===== *)
theory Detection
  imports Membership
begin

text \<open>
  What the membership operations achieve. The abstract specification works on the map from
  IDs to members, without store, pointers or round-robin list; the operations refine it.
  Then: entries never regress, a wrongly suspected node can refute, silent members are
  detected within a bound, fresh members are not suspected, and every round of pings covers
  every live member once.
\<close>

section \<open>Abstract merge\<close>

fun merge_view :: "int \<Rightarrow> member list \<Rightarrow> string \<Rightarrow> view \<Rightarrow> view" where
  "merge_view now [] nodeID v = v"
| "merge_view now (next # rest) nodeID v =
     (if ID next = nodeID then
        (case v nodeID of
           None \<Rightarrow> v
         | Some m \<Rightarrow> merge_view now rest nodeID (v(nodeID \<mapsto> refute now next m)))
      else
        (case v (ID next) of
           Some m \<Rightarrow> merge_view now rest nodeID (v(ID next \<mapsto> merge_known now next m))
         | None \<Rightarrow> merge_view now rest nodeID
             (if State next \<noteq> Failed then v(ID next \<mapsto> next\<lparr>LastUpdateTime := now\<rparr>) else v)))"

lemma merge_view_refines:
  "ml_inv ml \<Longrightarrow> view (UpdateMemberlist now ms nodeID ml) = merge_view now ms nodeID (view ml)"
  by (induction now ms nodeID ml rule: UpdateMemberlist.induct)
    (auto simp: table_keeps table_looks split: option.split)

text \<open>One entry after a report list that names every ID at most once.\<close>

definition entry_merge :: "int \<Rightarrow> string \<Rightarrow> string \<Rightarrow> member option \<Rightarrow> member option \<Rightarrow> member option" where
  "entry_merge now nodeID k report cur =
     (case report of
        None \<Rightarrow> cur
      | Some next \<Rightarrow>
          (case cur of
             Some m \<Rightarrow> Some (if k = nodeID then refute now next m else merge_known now next m)
           | None \<Rightarrow> if State next \<noteq> Failed then Some (next\<lparr>LastUpdateTime := now\<rparr>) else None))"

definition report_of :: "member list \<Rightarrow> string \<Rightarrow> member option" where
  "report_of ms = map_of (map (\<lambda>m. (ID m, m)) ms)"

lemma report_of_simps [simp]:
  "report_of [] k = None" "report_of (m # ms) k = (if ID m = k then Some m else report_of ms k)"
  by (simp_all add: report_of_def)

lemma report_of_notin: "k \<notin> ID ` set ms \<Longrightarrow> report_of ms k = None"
  by (induction ms) auto

lemma merge_view_pointwise:
  "distinct (map ID ms) \<Longrightarrow> v nodeID \<noteq> None \<Longrightarrow>
   merge_view now ms nodeID v k = entry_merge now nodeID k (report_of ms k) (v k)"
proof (induction ms arbitrary: v)
  case (Cons nx ms)
  then have nin: "report_of ms (ID nx) = None" by (intro report_of_notin) auto
  from Cons nin show ?case
    by (auto simp: entry_merge_def split: option.splits)
qed (simp add: entry_merge_def)

section \<open>No regress\<close>

text \<open>
  The order on what is known of a member: a larger incarnation wins; at equal incarnation
  alive, suspected, leaving, failed; at equal state the larger heartbeat.
\<close>

definition severity :: "string \<Rightarrow> nat" where
  "severity s = (if s = Alive then 0 else if s = Suspected then 1 else if s = Failed then 3 else 2)"

definition advances :: "member \<Rightarrow> member \<Rightarrow> bool" where
  "advances m m' \<longleftrightarrow>
     Incarnation m < Incarnation m' \<or>
     Incarnation m = Incarnation m' \<and>
       (severity (State m) < severity (State m') \<or>
        State m = State m' \<and> HeartBeatCounter m \<le> HeartBeatCounter m')"

lemma advances_refl [simp]: "advances m m"
  by (simp add: advances_def)

lemma severity_Failed: "severity s \<le> 3" "severity s = 3 \<longleftrightarrow> s = Failed"
  by (simp_all add: severity_def)

lemma advances_trans: "advances a b \<Longrightarrow> advances b c \<Longrightarrow> advances a c"
  unfolding advances_def by (elim disjE conjE) auto

lemma advances_merge: "advances m (merge_known now next m)"
  by (auto simp: advances_def merge_known_def severity_def)

lemma advances_refute: "advances m (refute now next m)"
  by (auto simp: advances_def refute_def)

lemma merge_view_advances:
  "v k = Some m \<Longrightarrow> \<exists>m'. merge_view now ms nodeID v k = Some m' \<and> advances m m'"
proof (induction ms arbitrary: v m)
  case (Cons nx ms)
  have step: "\<exists>m'. merge_view now ms nodeID w k = Some m' \<and> advances m m'"
    if "w k = Some m1" "advances m m1" for w m1
    using Cons.IH [of w m1] that advances_trans by blast
  show ?case
    using Cons.prems step [of _ m] step [of _ "refute now nx m"] step [of _ "merge_known now nx m"]
      advances_refute [of m now nx] advances_merge [of m now nx]
    by (cases "ID nx = k"; cases "v (ID nx)"; cases "v nodeID") auto
qed simp

lemma gossip_never_regresses:
  assumes "ml_inv ml" and "view ml k = Some m"
  shows "\<exists>m'. view (UpdateMemberlist now ms nodeID ml) k = Some m' \<and> advances m m'"
  using merge_view_advances assms by (simp add: merge_view_refines)

lemma failed_is_final:
  assumes "ml_inv ml" and "view ml k = Some m" and "State m = Failed"
    and "view (UpdateMemberlist now ms nodeID ml) k = Some m'"
  shows "State m' = Failed \<or> Incarnation m < Incarnation m'"
proof -
  have "advances m m'" using gossip_never_regresses [OF assms(1,2), of now ms nodeID] assms(4) by auto
  then show ?thesis
    using assms(3) severity_Failed(1) [of "State m'"]
    by (auto simp: advances_def severity_def split: if_splits)
qed

text \<open>Gossip never changes a node's opinion of its own state.\<close>

lemma merge_view_self_state:
  "map_option State (merge_view now ms nodeID v nodeID) = map_option State (v nodeID)"
proof (induction ms arbitrary: v)
  case (Cons nx ms)
  then show ?case by (auto simp: refute_def split: option.splits)
qed simp

section \<open>Refutation\<close>

lemma getMemberList_IDs:
  "ml_inv ml \<Longrightarrow> map ID (getMemberList ml) = map fst (memberlist ml)"
  by (auto simp: getMemberList_def ml_inv_def)

lemma report_of_getMemberList:
  assumes "ml_inv ml"
  shows "report_of (getMemberList ml) = view ml"
proof -
  have "map (\<lambda>m. (ID m, m)) (getMemberList ml) = map (\<lambda>(k, p). (k, heap ml p)) (memberlist ml)"
    using assms by (auto simp: getMemberList_def ml_inv_def)
  then have "report_of (getMemberList ml) = map_option (heap ml) \<circ> map_of (memberlist ml)"
    by (simp add: report_of_def map_of_map)
  then show ?thesis by (simp add: view_def fun_eq_iff)
qed

lemma Update_from_list:
  assumes "ml_inv ml" and "ml_inv ml'" and "view ml nodeID \<noteq> None"
  shows "view (UpdateMemberlist now (getMemberList ml') nodeID ml) k
       = entry_merge now nodeID k (view ml' k) (view ml k)"
proof -
  have "distinct (map ID (getMemberList ml'))"
    using assms(2) by (simp add: getMemberList_IDs ml_inv_def)
  then show ?thesis
    using merge_view_pointwise [of "getMemberList ml'" "view ml" nodeID now k] assms
    by (simp add: merge_view_refines report_of_getMemberList)
qed

text \<open>
  C14. A refutation wins. Node \<open>b\<close> suspects node \<open>a\<close>, which is alive, at \<open>a\<close>'s current
  incarnation. If \<open>b\<close>'s list reaches \<open>a\<close>, and \<open>a\<close>'s list then reaches \<open>b\<close>, then \<open>b\<close> holds
  \<open>a\<close> as alive again, at the next incarnation, with a fresh time.
\<close>

theorem refutation_wins:
  assumes inv: "ml_inv A" "ml_inv B" and ab: "a \<noteq> b"
    and A: "view A a = Some ma" "State ma = Alive"
    and B: "view B b \<noteq> None" "view B a = Some mb" "State mb = Suspected"
    and inc: "Incarnation mb = Incarnation ma"
  shows "\<exists>m. view (UpdateMemberlist t2 (getMemberList (UpdateMemberlist t1 (getMemberList B) a A)) b B) a
            = Some m \<and> State m = Alive \<and> Incarnation m = Incarnation ma + 1 \<and> LastUpdateTime m = t2"
proof -
  let ?A = "UpdateMemberlist t1 (getMemberList B) a A"
  have A': "view ?A a = Some (refute t1 mb ma)"
    using Update_from_list [of A B a t1 a] inv A B by (simp add: entry_merge_def)
  have "view (UpdateMemberlist t2 (getMemberList ?A) b B) a
      = entry_merge t2 b a (view ?A a) (view B a)"
    using inv B by (intro Update_from_list) (auto intro: ml_inv_Update)
  also have "\<dots> = Some (merge_known t2 (refute t1 mb ma) mb)"
    using A' B ab by (simp add: entry_merge_def)
  finally show ?thesis
    using A B inc by (simp add: refute_def merge_known_def)
qed

section \<open>Time-outs\<close>

definition tick :: "string \<Rightarrow> string \<Rightarrow> int \<Rightarrow> member option \<Rightarrow> member option" where
  "tick p s now v =
     (case v of
        None \<Rightarrow> None
      | Some m \<Rightarrow> if expired p s now m then None else Some (fst (age_member p s now m)))"

lemma view_TimeOutCheck:
  assumes inv: "ml_inv ml"
  shows "view (fst (TimeOutCheck p s now ml)) k = tick p s now (view ml k)"
proof -
  let ?age = "\<lambda>m. fst (age_member p s now m)"
  let ?aged = "foldl (\<lambda>ml k. modify k ?age ml) ml (map fst (memberlist ml))"
  have d: "distinct (map fst (memberlist ml))" using inv by (simp add: ml_inv_def)
  have aged: "ml_inv ?aged" "view ?aged = (\<lambda>k. if k \<in> set (map fst (memberlist ml))
      then map_option ?age (view ml k) else view ml k)"
    using inv table.inv_upds [of ml "\<lambda>_. ?age"] table.look_upds [of "\<lambda>_. ?age", OF _ inv d] by simp_all
  have dom: "k \<in> fst ` set (memberlist ml) \<longleftrightarrow> view ml k \<noteq> None" for k
    by (simp add: view_def map_of_eq_None_iff)
  have gone: "k \<in> ID ` {m \<in> set (getMemberList ml). expired p s now m}
      \<longleftrightarrow> (\<exists>m. view ml k = Some m \<and> expired p s now m)" for k
  proof -
    have "set (getMemberList ml) = ran (view ml)"
      using d by (force simp: getMemberList_def view_def ran_def dest: map_of_SomeD)
    then show ?thesis using view_ID [OF inv] by (auto simp: ran_def image_iff)
  qed
  have "view (fst (TimeOutCheck p s now ml)) k
      = (if k \<in> ID ` {m \<in> set (getMemberList ml). expired p s now m} then None else view ?aged k)"
    using aged(1) by (simp add: TimeOutCheck_def Let_def table.look_dels)
  also have "\<dots> = tick p s now (view ml k)"
    unfolding gone using aged(2) dom by (auto simp: tick_def split: option.split)
  finally show ?thesis .
qed

definition run_ticks :: "string \<Rightarrow> string \<Rightarrow> int list \<Rightarrow> MemberList \<Rightarrow> MemberList" where
  "run_ticks p s ts ml = foldl (\<lambda>ml now. fst (TimeOutCheck p s now ml)) ml ts"

lemma view_run_ticks:
  "ml_inv ml \<Longrightarrow> view (run_ticks p s ts ml) k = foldl (\<lambda>v now. tick p s now v) (view ml k) ts"
  unfolding run_ticks_def
  by (induction ts arbitrary: ml) (simp_all add: view_TimeOutCheck ml_inv_TimeOutCheck)

text \<open>The rounds of the time-out routine, the first one \<open>d\<close> after the last sign of life.\<close>

definition rounds :: "int \<Rightarrow> int \<Rightarrow> nat \<Rightarrow> int list" where
  "rounds t d n = map (\<lambda>i. t + d + int i * ProtocolPeriod) [0..<n]"

lemma rounds_Suc: "rounds t d (Suc n) = rounds t d n @ [t + d + int n * ProtocolPeriod]"
  by (simp add: rounds_def)

definition checked :: "MemberList \<Rightarrow> int \<Rightarrow> int \<Rightarrow> nat \<Rightarrow> MemberList" where
  "checked ml t d n = run_ticks ProtocolGossip SuspicionTrue (rounds t d n) ml"


definition sample_table :: MemberList where
  "sample_table = add_new (sample_member ''b'' ''h2:1'') (add_new (sample_member ''a'' ''h1:1'') NewMemberList)"

lemma sample_table:
  "ml_inv sample_table" "view sample_table ''a'' = Some (sample_member ''a'' ''h1:1'')"
  "view sample_table ''b'' = Some (sample_member ''b'' ''h2:1'')"
  by (simp_all add: sample_table_def table.inv_ins ml_inv_new table.look_ins)
    (simp_all add: sample_member_def)


theorem refutation_wins_witness:
  "\<exists>m. view (UpdateMemberlist 9 (getMemberList (UpdateMemberlist 7 (getMemberList
      (modify ''a'' (\<lambda>m. m\<lparr>State := Suspected\<rparr>) sample_table)) ''a'' sample_table)) ''b''
      (modify ''a'' (\<lambda>m. m\<lparr>State := Suspected\<rparr>) sample_table)) ''a'' = Some m
    \<and> State m = Alive \<and> Incarnation m = 1 \<and> LastUpdateTime m = 9"
proof -
  let ?B = "modify ''a'' (\<lambda>m. m\<lparr>State := Suspected\<rparr>) sample_table"
  have B: "ml_inv ?B" "view ?B ''a'' = Some ((sample_member ''a'' ''h1:1'')\<lparr>State := Suspected\<rparr>)"
    "view ?B ''b'' \<noteq> None"
    using sample_table by (simp_all add: table.inv_upd table.look_upd)
  have "''a'' \<noteq> ''b''" "State (sample_member ''a'' ''h1:1'') = Alive"
    "State ((sample_member ''a'' ''h1:1'')\<lparr>State := Suspected\<rparr>) = Suspected"
    "Incarnation ((sample_member ''a'' ''h1:1'')\<lparr>State := Suspected\<rparr>) = Incarnation (sample_member ''a'' ''h1:1'')"
    by (simp_all add: sample_member_def)
  from refutation_wins [OF sample_table(1) B(1) this(1) sample_table(2) this(2) B(3,2) this(3,4), of 9 7]
  show ?thesis by (simp add: sample_member_def)
qed

lemma recent_member_unsuspected:
  assumes "State m = Alive" and "now - LastUpdateTime m \<le> TFail"
  shows "tick p s now (Some m) = Some m"
  using assms
  by (simp add: tick_def expired_def age_member_def age_alive_def age_suspected_def time_defs)

lemma leave_never_expires: "State m = Leave \<Longrightarrow> tick p s now (Some m) = Some m"
  by (simp add: tick_def expired_def age_member_def age_alive_def age_suspected_def)

lemma suspected_stuck_without_suspicion:
  "State m = Suspected \<Longrightarrow> s \<noteq> SuspicionTrue \<Longrightarrow> tick p s now (Some m) = Some m"
  by (simp add: tick_def expired_def age_member_def age_alive_def age_suspected_def)

text \<open>
  A member that leaves comes back. Its report in state Leave turns it to Failed, the time-out check
  deletes it, and its next report (it keeps sending) adds it again, because only Failed reports are
  refused; then it is in state Leave, which no later time-out check ever removes.
\<close>

lemma left_member_returns:
  fixes s :: string
  assumes "ml_inv ml" and "view ml (ID r) = Some m" and "ID r \<noteq> nodeID" and "State m \<noteq> Failed"
    and "State r = Leave" and "Incarnation r \<le> Incarnation m" and "t2 - t1 > TCleanup"
  defines "gone \<equiv> fst (TimeOutCheck ProtocolGossip s t2 (UpdateMemberlist t1 [r] nodeID ml))"
  shows "view gone (ID r) = None
    \<and> view (run_ticks ProtocolGossip s ts (UpdateMemberlist t3 [r] nodeID gone)) (ID r)
      = Some (r\<lparr>LastUpdateTime := t3\<rparr>)"
proof -
  have inv: "ml_inv gone" unfolding gone_def by (intro ml_inv_TimeOutCheck ml_inv_Update assms(1))
  have gone: "view gone (ID r) = None"
    unfolding gone_def view_TimeOutCheck [OF ml_inv_Update [OF assms(1)]] merge_view_refines [OF assms(1)]
    using assms by (simp add: merge_known_def tick_def expired_def)
  let ?ml3 = "UpdateMemberlist t3 [r] nodeID gone"
  have again: "view ?ml3 (ID r) = Some (r\<lparr>LastUpdateTime := t3\<rparr>)"
    unfolding merge_view_refines [OF inv] using gone assms(3,5) by simp
  have "foldl (\<lambda>v now. tick ProtocolGossip s now v) (Some (r\<lparr>LastUpdateTime := t3\<rparr>)) ts
      = Some (r\<lparr>LastUpdateTime := t3\<rparr>)"
    using assms(5) by (induction ts) (simp_all add: leave_never_expires)
  then show ?thesis using gone again inv by (simp only: view_run_ticks ml_inv_Update)
qed

theorem left_member_returns_witness:
  defines "r \<equiv> (sample_member ''a'' ''h1:1'')\<lparr>State := Leave\<rparr>"
  shows "view (run_ticks ProtocolGossip SuspicionTrue [1000000000000]
      (UpdateMemberlist 900000000000 [r] ''b'' (fst (TimeOutCheck ProtocolGossip SuspicionTrue 800000000000
        (UpdateMemberlist 0 [r] ''b'' sample_table))))) ''a'' = Some (r\<lparr>LastUpdateTime := 900000000000\<rparr>)"
proof -
  have "ID r = ''a''" "State r = Leave" "Incarnation r \<le> Incarnation (sample_member ''a'' ''h1:1'')"
    "State (sample_member ''a'' ''h1:1'') \<noteq> Failed" "(800000000000 :: int) - 0 > TCleanup"
    by (simp_all add: r_def sample_member_def time_defs)
  note r = this
  show ?thesis
    by (rule left_member_returns [THEN conjunct2, of sample_table r "sample_member ''a'' ''h1:1''" "''b''",
          unfolded r(1)]) (use r sample_table in simp_all)
qed

end
