(* ===== verification/GossipNode.thy ===== *)
theory GossipNode
  imports RoundRobin Detection Ring
begin

text \<open>
  A node on the gossip network (\<^verbatim>\<open>node/node.go\<close>): start, protocol switch, heartbeats, pings with
  their acknowledgement channels, messages and the text commands. A handler returns the
  messages it sends, as pairs of address and message. A channel is the number of tokens in
  its buffer of size one; a send on a full channel blocks with \<^verbatim>\<open>ackMutex\<close> held.
\<close>

record gnode =
  nodeID :: string
  introducerAddr :: string
  table :: MemberList
  ackchan :: "(string \<times> nat) list"
  ackLocked :: bool
  protocol :: string
  suspicion :: string

type_synonym mail = "(string \<times> message) list"
type_synonym shuffles = "nat \<Rightarrow> nat list \<Rightarrow> nat list"

text \<open>
  \<^verbatim>\<open>NewNode\<close> once it knows its host: \<^const>\<open>None\<close> when the host is not in the table of machines.
\<close>

definition NewNode :: "string \<Rightarrow> string \<Rightarrow> string \<Rightarrow> int \<Rightarrow> int \<Rightarrow> gnode option" where
  "NewNode bindHostname port introducer uniqueTime now =
     (if map_of IpToVMName bindHostname = None then None
      else
        let ip = bindHostname @ '':'' @ port; machineID = ip @ '':'' @ show_int uniqueTime;
            self = \<lparr>ID = machineID, Address = ip, HeartBeatCounter = 0, Incarnation = 0,
                    State = Alive, LastUpdateTime = now\<rparr>
        in Some \<lparr>nodeID = machineID, introducerAddr = introducer, table = add_new self NewMemberList,
                 ackchan = [], ackLocked = False, protocol = ProtocolPingAck,
                 suspicion = SuspecionFalse\<rparr>)"

section \<open>Sending\<close>

definition sendGossipMessage :: "shuffles \<Rightarrow> member list \<Rightarrow> gnode \<Rightarrow> gnode \<times> mail" where
  "sendGossipMessage shf ms node =
     (if ms = [] then (node, [])
      else (case roundRobinK shf GossipNum (nodeID node) (table node) of
              (chosen, ml) \<Rightarrow>
                (node\<lparr>table := ml\<rparr>,
                 map (\<lambda>p. (Address (heap ml p),
                           \<lparr>mType = MessageGossip, mMemberlist = ms, mSendID = nodeID node\<rparr>)) chosen)))"

definition gossip :: "shuffles \<Rightarrow> gnode \<Rightarrow> gnode \<times> mail" where
  "gossip shf node = sendGossipMessage shf (getMemberList (table node)) node"

definition Switch :: "shuffles \<Rightarrow> int \<Rightarrow> string \<Rightarrow> string \<Rightarrow> gnode \<Rightarrow> gnode \<times> mail" where
  "Switch shf now proto susp node =
     (if proto \<noteq> ProtocolGossip \<and> proto \<noteq> ProtocolPingAck then (node, [])
      else if susp \<noteq> SuspicionTrue \<and> susp \<noteq> SuspecionFalse then (node, [])
      else
        let node1 = node\<lparr>protocol := proto, suspicion := susp\<rparr> in
        if proto = ProtocolGossip then
          gossip shf (node1\<lparr>table := addHeartBeat now (nodeID node)
                              (resetOtherTime now (nodeID node) (table node))\<rparr>)
        else (node1, []))"

definition SendSwitchCommand :: "string \<Rightarrow> string \<Rightarrow> gnode \<Rightarrow> (string \<times> string) list" where
  "SendSwitchCommand proto susp node =
     map (\<lambda>m. (hd (split_on CHR '':'' (Address m)) @ '':'' @ CommandPort,
               ''switch '' @ proto @ '' '' @ susp @ [NL]))
       (filter (\<lambda>m. ID m \<noteq> nodeID node) (getMemberList (table node)))"

section \<open>Periodic work\<close>

text \<open>One round of \<^verbatim>\<open>TimeOutCheck\<close>.\<close>

definition time_out_round :: "shuffles \<Rightarrow> int \<Rightarrow> gnode \<Rightarrow> gnode \<times> mail" where
  "time_out_round shf now node =
     (case TimeOutCheck (protocol node) (suspicion node) now (table node) of
        (ml, failedMemberList) \<Rightarrow>
          if failedMemberList = [] then (node\<lparr>table := ml\<rparr>, [])
          else sendGossipMessage shf failedMemberList (node\<lparr>table := ml\<rparr>))"

text \<open>\<^verbatim>\<open>pingMember\<close> up to the wait: the target, whose channel is replaced by an empty one.\<close>

definition ping_start :: "shuffles \<Rightarrow> gnode \<Rightarrow> gnode \<times> member option \<times> mail" where
  "ping_start shf node =
     (case roundRobinK shf 1 (nodeID node) (table node) of
        ([], ml) \<Rightarrow> (node\<lparr>table := ml\<rparr>, None, [])
      | (p # _, ml) \<Rightarrow>
          let target = heap ml p in
          (node\<lparr>table := ml, ackchan := AList.update (ID target) 0 (ackchan node)\<rparr>, Some target,
           [(Address target,
             \<lparr>mType = MessagePing, mMemberlist = getMemberList ml, mSendID = nodeID node\<rparr>)]))"

text \<open>
  After the wait: an acknowledgement, or a timeout, which lowers the target by the suspicion
  mode read before the ping. Either way the entry for the target is deleted.
\<close>

definition ping_end :: "shuffles \<Rightarrow> int \<Rightarrow> bool \<Rightarrow> string \<Rightarrow> member \<Rightarrow> gnode \<Rightarrow> gnode \<times> mail" where
  "ping_end shf now acked nowSuspicion target node =
     (let done = (\<lambda>(n, m). (n\<lparr>ackchan := AList.delete (ID target) (ackchan n)\<rparr>, m)) in
      if acked then done (node, [])
      else if nowSuspicion = SuspicionTrue \<or> nowSuspicion = SuspecionFalse then
        (case changeState now (ID target) Alive
                (if nowSuspicion = SuspicionTrue then Suspected else Failed) (table node) of
           (ml, updateMember) \<Rightarrow> done (sendGossipMessage shf updateMember (node\<lparr>table := ml\<rparr>)))
      else done (node, []))"

definition heart_beat :: "shuffles \<Rightarrow> int \<Rightarrow> gnode \<Rightarrow> gnode \<times> member option \<times> mail" where
  "heart_beat shf now node =
     (if protocol node = ProtocolGossip then
        (case gossip shf (node\<lparr>table := addHeartBeat now (nodeID node) (table node)\<rparr>) of
           (node', m) \<Rightarrow> (node', None, m))
      else if protocol node = ProtocolPingAck then ping_start shf node
      else (node, None, []))"

section \<open>Messages\<close>

text \<open>\<^verbatim>\<open>joinMemberList\<close>: nothing is sent when the node is not in its own list.\<close>

definition join_message :: "gnode \<Rightarrow> mail" where
  "join_message node =
     (case getSelfByID (nodeID node) (table node) of
        None \<Rightarrow> []
      | Some self \<Rightarrow>
          [(introducerAddr node,
            \<lparr>mType = MessageJoin, mMemberlist = [self], mSendID = nodeID node\<rparr>)])"

definition ack_arrives :: "string \<Rightarrow> gnode \<Rightarrow> gnode outcome" where
  "ack_arrives sender node =
     (if ackLocked node then Blocked
      else (case map_of (ackchan node) sender of
              None \<Rightarrow> Reply node
            | Some tokens \<Rightarrow>
                if tokens = 0 then Reply (node\<lparr>ackchan := AList.update sender 1 (ackchan node)\<rparr>)
                else Blocked))"

text \<open>
  \<^verbatim>\<open>handleMessage\<close>; \<^verbatim>\<open>DropRate\<close> is zero, so no message is dropped. The flag is false when the
  handler never returns.
\<close>

definition handleMessage :: "int \<Rightarrow> message \<Rightarrow> string \<Rightarrow> gnode \<Rightarrow> gnode \<times> mail \<times> bool" where
  "handleMessage now msg sender node =
     (let ml = UpdateMemberlist now (mMemberlist msg) (nodeID node)
                 (updateSenderTime now (mSendID msg) (table node));
          node1 = node\<lparr>table := ml\<rparr>
      in if mType msg = MessagePing then
           (node1, [(sender, \<lparr>mType = MessageAck, mMemberlist = getMemberList ml, mSendID = nodeID node\<rparr>)], True)
         else if mType msg = MessageAck then
           (case ack_arrives (mSendID msg) node1 of
              Reply node2 \<Rightarrow> (node2, [], True)
            | _ \<Rightarrow> (node1\<lparr>ackLocked := True\<rparr>, [], False))
         else if mType msg = MessageGossip then (node1, [], True)
         else if mType msg = MessageJoin then
           (node1, [(sender, \<lparr>mType = MessageGossip, mMemberlist = getMemberList ml, mSendID = nodeID node\<rparr>)], True)
         else (node1, [], True))"

section \<open>Commands\<close>

definition GetMode :: "gnode \<Rightarrow> string" where
  "GetMode node = ''<'' @ protocol node @ '', '' @ suspicion node @ ''>'' @ [NL]"

text \<open>
  What a command answers: text, the member list as JSON (encoded in theory \<open>Wire\<close>), the
  output of \<^verbatim>\<open>grep\<close> with these arguments, or nothing.
\<close>

datatype answer = Silent | Answer string | MembersJSON "member list" | Grep "string list"

text \<open>The name of the log that \<^verbatim>\<open>grep\<close> searches, from the second part of the node's ID.\<close>

definition GetLogFile :: "gnode \<Rightarrow> string" where
  "GetLogFile node =
     (case split_on CHR '':'' (nodeID node) of
        _ # part # _ \<Rightarrow> ''machine.'' @ part @ ''.log''
      | _ \<Rightarrow> ''machine.unknown.log'')"

definition store_listing :: "string \<Rightarrow> string list \<Rightarrow> string" where
  "store_listing nid names =
     ''Files stored at RingID '' @ show_int (uint (HashFunc nid)) @ [NL] @ ''--------------------'' @ [NL]
     @ concat (map (\<lambda>f. ''filename '' @ f @ '' fileID '' @ show_int (uint (HashFunc f)) @ [NL]) names)"

text \<open>
  \<^verbatim>\<open>HandleCommand\<close> on one line; \<open>stored\<close> are the files in the storage directory. The last
  component are the switch commands sent on to other nodes.
\<close>

definition HandleCommand :: "shuffles \<Rightarrow> int \<Rightarrow> string list \<Rightarrow> string \<Rightarrow> gnode
    \<Rightarrow> gnode \<times> answer \<times> mail \<times> (string \<times> string) list" where
  "HandleCommand shf now stored line node =
     (case split_on CHR '' '' (trim_suffix_char NL line) of
        [] \<Rightarrow> (node, Silent, [], [])
      | cmd # args \<Rightarrow>
          if cmd = ''switch'' then
            (case args of
               [proto, susp] \<Rightarrow>
                 (case Switch shf now proto susp node of
                    (node', m) \<Rightarrow>
                      (node', Silent, m,
                       if introducerAddr node' = [] then SendSwitchCommand proto susp node' else []))
             | _ \<Rightarrow> (node, Silent, [], []))
          else if cmd = ''get_switch'' then
            (node, Answer (''mode '' @ protocol node @ '' '' @ suspicion node @ [NL]), [], [])
          else if cmd = ''list_mem'' then (node, Answer (printMemberList (table node)), [], [])
          else if cmd = ''display_protocol'' then (node, Answer (GetMode node), [], [])
          else if cmd = ''display_suspects'' then (node, Answer (listSuspect (table node)), [], [])
          else if cmd = ''list_self'' then (node, Answer (nodeID node @ [NL]), [], [])
          else if cmd = ''grep'' then (node, Grep (args @ [GetLogFile node]), [], [])
          else if cmd = ''mem_list_json'' then (node, MembersJSON (getMemberList (table node)), [], [])
          else if cmd = ''leave'' then
            (node\<lparr>table := TurnLeave now (nodeID node) (table node)\<rparr>, Answer (''Leavning now,'' @ [NL]), [], [])
          else if cmd = ''liststore'' then (node, Answer (store_listing (nodeID node) stored), [], [])
          else (node, Silent, [], []))"

text \<open>The joining node adopts the mode in the introducer's answer.\<close>

definition adopt_mode :: "shuffles \<Rightarrow> int \<Rightarrow> string \<Rightarrow> gnode \<Rightarrow> gnode \<times> mail" where
  "adopt_mode shf now modeString node =
     (case split_on CHR '' '' (trim_suffix_char NL modeString) of
        [cmd, proto, susp] \<Rightarrow> if cmd = ''mode'' then Switch shf now proto susp node else (node, [])
      | _ \<Rightarrow> (node, []))"


section \<open>The node invariant\<close>

definition node_inv :: "gnode \<Rightarrow> bool" where
  "node_inv node \<longleftrightarrow> ml_inv (table node) \<and> rr_ok (nodeID node) (table node) \<and>
     view (table node) (nodeID node) \<noteq> None"

definition fair :: "shuffles \<Rightarrow> bool" where
  "fair shf \<longleftrightarrow> (\<forall>j. shuffler (shf j))"

lemma NewNode_inv: "NewNode host port intro t now = Some node \<Longrightarrow> node_inv node"
  by (auto simp: NewNode_def Let_def node_inv_def rr_ok_def add_new_def NewMemberList_def ml_inv_def view_def
      split: if_splits)

text \<open>Gossip sends to others only, and leaves what the table says alone.\<close>

lemma sendGossip_ok:
  assumes "fair shf" and "node_inv node" and "sendGossipMessage shf ms node = (node', out)"
  shows "node_inv node'" and "view (table node') = view (table node)" and "nodeID node' = nodeID node"
    and "node' = node\<lparr>table := table node'\<rparr>"
proof -
  have rr: "rr_result (nodeID node) (table node) (roundRobinK shf GossipNum (nodeID node) (table node))"
    by (rule roundRobinK_ok) (use assms in \<open>auto simp: fair_def node_inv_def\<close>)
  show "node_inv node'" "view (table node') = view (table node)" "nodeID node' = nodeID node"
    "node' = node\<lparr>table := table node'\<rparr>"
    using assms rr by (auto simp: sendGossipMessage_def node_inv_def rr_result_def split: if_splits prod.splits)
qed

lemma keep_self:
  assumes "ml_inv ml" and "view ml k \<noteq> None"
  shows "view (UpdateMemberlist now ms nid ml) k \<noteq> None"
  using gossip_never_regresses [OF assms(1)] assms(2) by fastforce

lemma same_ring_rr:
  assumes "ml_inv ml" and "rr_ok nid ml" and "\<not> is_ping op"
  shows "rr_ok nid (snd (do_op nid op ml))" and "ml_inv (snd (do_op nid op ml))"
proof -
  have f: "fair_op op" using assms(3) by (cases op) simp_all
  show "rr_ok nid (snd (do_op nid op ml))" by (rule do_op_inv(2) [OF assms(1,2) f])
  show "ml_inv (snd (do_op nid op ml))" by (rule do_op_inv(1) [OF assms(1,2) f])
qed

lemma update_table_inv:
  assumes "node_inv node"
  shows "node_inv (node\<lparr>table := UpdateMemberlist now ms (nodeID node) (updateSenderTime now snder (table node))\<rparr>)"
proof -
  let ?ml = "updateSenderTime now snder (table node)"
  have 1: "ml_inv ?ml" "rr_ok (nodeID node) ?ml"
    using same_ring_rr [of "table node" "nodeID node" "Heard now snder"] assms by (simp_all add: node_inv_def)
  have "view ?ml (nodeID node) \<noteq> None"
    using assms by (auto simp: node_inv_def updateSenderTime_def view_modify)
  then have "view (UpdateMemberlist now ms (nodeID node) ?ml) (nodeID node) \<noteq> None"
    by (rule keep_self [OF 1(1)])
  then show ?thesis
    using same_ring_rr [OF 1, of "Report now ms"] by (simp add: node_inv_def)
qed

lemma ack_arrives_frame: "ack_arrives s node = Reply node' \<Longrightarrow> table node' = table node \<and> nodeID node' = nodeID node"
  by (auto simp: ack_arrives_def split: if_splits option.splits)

lemma handleMessage_inv:
  assumes "node_inv node" and "handleMessage now msg sender node = (node', out, ok)"
  shows "node_inv node'" and "nodeID node' = nodeID node"
proof -
  let ?n = "node\<lparr>table := UpdateMemberlist now (mMemberlist msg) (nodeID node)
      (updateSenderTime now (mSendID msg) (table node))\<rparr>"
  have "table node' = table ?n \<and> nodeID node' = nodeID ?n"
    using assms(2)
    by (auto simp: handleMessage_def Let_def dest: ack_arrives_frame split: if_splits outcome.splits)
  then show "node_inv node'" "nodeID node' = nodeID node"
    using update_table_inv [OF assms(1)] by (auto simp: node_inv_def)
qed

section \<open>Joining\<close>

lemma view_listed: "view ml k = Some m \<Longrightarrow> m \<in> set (getMemberList ml)"
  unfolding view_def getMemberList_def by (force dest!: map_of_SomeD)

definition sample_node :: gnode where
  "sample_node = \<lparr>nodeID = ''a'', introducerAddr = [], table = sample_table, ackchan = [(''b'', 0)],
     ackLocked = False, protocol = ProtocolGossip, suspicion = SuspicionTrue\<rparr>"

lemma sample_node_inv: "node_inv sample_node"
proof -
  have "roundRobinList sample_table = []" by (simp add: sample_table_def NewMemberList_def frame)
  then show ?thesis using sample_table by (simp add: node_inv_def sample_node_def rr_ok_def)
qed

text \<open>
  Joining. An introducer that receives the join message of a node it does not know adds it
  under its ID with the current time, and answers that address with a member list that contains
  the new entry and the introducer itself, so the joining node learns both.
\<close>

lemma join_adds:
  assumes "node_inv intro" and "ID self \<noteq> nodeID intro" and "State self \<noteq> Failed"
    and "view (table intro) (ID self) = None"
    and "handleMessage now \<lparr>mType = MessageJoin, mMemberlist = [self], mSendID = ID self\<rparr> addr intro = (intro', out, ok)"
  shows "view (table intro') (ID self) = Some (self\<lparr>LastUpdateTime := now\<rparr>) \<and> ok \<and>
    (\<exists>ms own. out = [(addr, \<lparr>mType = MessageGossip, mMemberlist = ms, mSendID = nodeID intro\<rparr>)] \<and>
      self\<lparr>LastUpdateTime := now\<rparr> \<in> set ms \<and> own \<in> set ms \<and> ID own = nodeID intro)"
proof -
  let ?old = "updateSenderTime now (ID self) (table intro)"
  let ?ml = "UpdateMemberlist now [self] (nodeID intro) ?old"
  have inv: "ml_inv ?old"
    using same_ring_rr(2) [of "table intro" "nodeID intro" "Heard now (ID self)"] assms(1) by (simp add: node_inv_def)
  have unknown: "view ?old (ID self) = None"
    using assms(4) by (simp add: updateSenderTime_def modify_def view_def split: option.split)
  then have ml: "?ml = add_new (self\<lparr>LastUpdateTime := now\<rparr>) ?old" using assms(2,3) by simp
  have view': "view ?ml (ID self) = Some (self\<lparr>LastUpdateTime := now\<rparr>)"
    unfolding ml using view_add_new [of ?old "self\<lparr>LastUpdateTime := now\<rparr>"] inv unknown by simp
  have run: "intro' = intro\<lparr>table := ?ml\<rparr>" "ok"
    "out = [(addr, \<lparr>mType = MessageGossip, mMemberlist = getMemberList ?ml, mSendID = nodeID intro\<rparr>)]"
    using assms(5) by (simp_all add: handleMessage_def Let_def)
  have new: "self\<lparr>LastUpdateTime := now\<rparr> \<in> set (getMemberList ?ml)"
    by (rule view_listed [OF view'])
  have "view ?old (nodeID intro) \<noteq> None"
    using assms(1) by (auto simp: node_inv_def updateSenderTime_def view_modify)
  then have "view ?ml (nodeID intro) \<noteq> None" by (rule keep_self [OF inv])
  then obtain own where own: "view ?ml (nodeID intro) = Some own" by blast
  have "ml_inv ?ml" using inv by (rule ml_inv_Update)
  then have "own \<in> set (getMemberList ?ml) \<and> ID own = nodeID intro"
    using view_listed [OF own] view_ID [OF _ own] by blast
  with run view' new show ?thesis by (auto simp del: UpdateMemberlist.simps)
qed

lemma join_adds_witness:
  "\<exists>intro' out. handleMessage 5 \<lparr>mType = MessageJoin, mMemberlist = [sample_member ''c'' ''h3:1''], mSendID = ''c''\<rparr>
      ''h3:1'' sample_node = (intro', out, True) \<and>
    view (table intro') ''c'' = Some ((sample_member ''c'' ''h3:1'')\<lparr>LastUpdateTime := 5\<rparr>)"
proof -
  let ?self = "sample_member ''c'' ''h3:1''"
  have new: "ID ?self \<noteq> nodeID sample_node" "State ?self \<noteq> Failed"
    by (simp_all add: sample_node_def sample_member_def)
  have unknown: "view (table sample_node) (ID ?self) = None" by code_simp
  obtain intro' out ok where run: "handleMessage 5 \<lparr>mType = MessageJoin, mMemberlist = [?self], mSendID = ID ?self\<rparr>
      ''h3:1'' sample_node = (intro', out, ok)" by (metis prod_cases3)
  from join_adds [OF sample_node_inv new unknown run] run show ?thesis by (auto simp: sample_member_def)
qed

section \<open>Acknowledgements\<close>

text \<open>
  A duplicated acknowledgement stops the node's acknowledgements for good. The first one for
  an outstanding ping is buffered; a second one before the first is read blocks its handler with
  the mutex held, and the handler of every later acknowledgement never returns.
\<close>

lemma second_ack_blocks:
  assumes "\<not> ackLocked node" and "map_of (ackchan node) s = Some 0"
    and "mType msg = MessageAck" "mSendID msg = s"
  shows "\<exists>n1 n2. handleMessage t1 msg a node = (n1, [], True) \<and> map_of (ackchan n1) s = Some 1 \<and>
    handleMessage t2 msg a n1 = (n2, [], False) \<and> ackLocked n2 \<and>
    (\<forall>t3 msg' b. mType msg' = MessageAck \<longrightarrow> snd (snd (handleMessage t3 msg' b n2)) = False)"
  using assms by (simp add: handleMessage_def ack_arrives_def Let_def)

lemma second_ack_blocks_witness:
  "\<exists>n1 n2. handleMessage 1 \<lparr>mType = MessageAck, mMemberlist = [], mSendID = ''b''\<rparr> ''h2:1'' sample_node = (n1, [], True) \<and>
    handleMessage 2 \<lparr>mType = MessageAck, mMemberlist = [], mSendID = ''b''\<rparr> ''h2:1'' n1 = (n2, [], False) \<and> ackLocked n2"
proof -
  let ?msg = "\<lparr>mType = MessageAck, mMemberlist = [], mSendID = ''b''\<rparr>"
  have "\<not> ackLocked sample_node" "map_of (ackchan sample_node) ''b'' = Some 0"
    "mType ?msg = MessageAck" "mSendID ?msg = ''b''" by (simp_all add: sample_node_def)
  from second_ack_blocks [OF this, of 1 "''h2:1''" 2] show ?thesis by blast
qed

section \<open>Modes\<close>

lemma split_spaces:
  assumes "CHR '' '' \<notin> set a" "CHR '' '' \<notin> set b" "CHR '' '' \<notin> set c"
  shows "split_on CHR '' '' (a @ CHR '' '' # b @ CHR '' '' # c) = [a, b, c]"
  using assms by (simp add: split_on_append split_on_free)

lemma mode_words: "p \<in> {ProtocolGossip, ProtocolPingAck} \<Longrightarrow> s \<in> {SuspicionTrue, SuspecionFalse} \<Longrightarrow>
    split_on CHR '' '' (trim_suffix_char NL (''mode '' @ p @ '' '' @ s @ [NL])) = [''mode'', p, s]"
  by (auto simp: protocol_defs trim_suffix_char_def)

text \<open>
  A joining node adopts the introducer's mode: whatever answer the introducer prints to
  \<^verbatim>\<open>get_switch\<close>, parsing it makes the node run the same protocol with the same suspicion
  setting.
\<close>

lemma adopt_mode_agrees:
  assumes "protocol intro \<in> {ProtocolGossip, ProtocolPingAck}" and "suspicion intro \<in> {SuspicionTrue, SuspecionFalse}"
    and "HandleCommand shf now fs (''get_switch'' @ [NL]) intro = (intro', Answer ans, out, cmds)"
    and "adopt_mode shf' now' ans node = (node', out')"
  shows "protocol node' = protocol intro \<and> suspicion node' = suspicion intro"
proof -
  have ans: "ans = ''mode '' @ protocol intro @ '' '' @ suspicion intro @ [NL]"
    using assms(3) by (auto simp: HandleCommand_def trim_suffix_char_def)
  have "adopt_mode shf' now' ans node = Switch shf' now' (protocol intro) (suspicion intro) node"
    unfolding adopt_mode_def ans using mode_words [OF assms(1,2)] by simp
  moreover have "protocol (fst (sendGossipMessage shf' ms n)) = protocol n \<and>
      suspicion (fst (sendGossipMessage shf' ms n)) = suspicion n" for ms n
    by (simp add: sendGossipMessage_def split: prod.split)
  ultimately show ?thesis using assms(1,2,4)
    by (auto simp: Switch_def gossip_def Let_def dest!: arg_cong [where f = fst] split: if_splits)
qed

lemma adopt_mode_agrees_witness:
  "\<exists>intro' ans out cmds node' out'.
    HandleCommand (\<lambda>_ xs. xs) 0 [] (''get_switch'' @ [NL]) sample_node = (intro', Answer ans, out, cmds) \<and>
    adopt_mode (\<lambda>_ xs. xs) 0 ans (sample_node\<lparr>protocol := ProtocolPingAck, suspicion := SuspecionFalse\<rparr>) = (node', out') \<and>
    protocol node' = ProtocolGossip \<and> suspicion node' = SuspicionTrue"
proof -
  let ?ans = "''mode '' @ protocol sample_node @ '' '' @ suspicion sample_node @ [NL]"
  let ?node = "sample_node\<lparr>protocol := ProtocolPingAck, suspicion := SuspecionFalse\<rparr>"
  have cmd: "HandleCommand (\<lambda>_ xs. xs) 0 [] (''get_switch'' @ [NL]) sample_node = (sample_node, Answer ?ans, [], [])"
    by (simp add: HandleCommand_def trim_suffix_char_def)
  have modes: "protocol sample_node \<in> {ProtocolGossip, ProtocolPingAck}" "suspicion sample_node \<in> {SuspicionTrue, SuspecionFalse}"
    by (simp_all add: sample_node_def)
  obtain node' out' where adopt: "adopt_mode (\<lambda>_ xs. xs) 0 ?ans ?node = (node', out')" by fastforce
  from adopt_mode_agrees [OF modes cmd adopt] cmd adopt show ?thesis
    by (auto simp: sample_node_def)
qed

end
