(* ===== verification/Commands.thy ===== *)
theory Commands
  imports Client GossipNode
begin

text \<open>
  The command line against the node: the dispatch of \<^verbatim>\<open>demo/demo.go\<close> on its arguments, the one-line
  protocol of the command port (\<^verbatim>\<open>utils.SendCommand\<close>, \<^verbatim>\<open>HandleCommand\<close>), the distributed \<^verbatim>\<open>grep\<close> from the
  client through every node and back, and the switch of the protocol mode. The program \<^verbatim>\<open>grep\<close> is
  an argument: its exit code and its output, or \<^const>\<open>None\<close> when it cannot be run.
\<close>

section \<open>The command port\<close>

type_synonym grep = "string list \<Rightarrow> (int \<times> string) option"

text \<open>The bytes \<^verbatim>\<open>SendCommand\<close> writes, and the line the server's \<^verbatim>\<open>ReadString\<close> returns; \<^const>\<open>None\<close> is its error.\<close>

definition SendCommand :: "string \<Rightarrow> string" where
  "SendCommand command = (if command \<noteq> [] \<and> last command = NL then command else command @ [NL])"

definition ReadString :: "string \<Rightarrow> string option" where
  "ReadString bytes = map_option (\<lambda>i. take (Suc i) bytes) (index_of NL bytes)"

definition grepConnect2Server :: "grep \<Rightarrow> string list \<Rightarrow> string" where
  "grepConnect2Server grep commandArgs =
     (case grep commandArgs of
        None \<Rightarrow> []
      | Some (exitCode, out) \<Rightarrow> if exitCode = 0 \<or> exitCode = 1 then out else [])"

definition answer_bytes :: "(member list \<Rightarrow> string) \<Rightarrow> grep \<Rightarrow> answer \<Rightarrow> string" where
  "answer_bytes json grep ans =
     (case ans of
        Silent \<Rightarrow> []
      | Answer s \<Rightarrow> s
      | MembersJSON ms \<Rightarrow> json ms
      | Grep args \<Rightarrow> grepConnect2Server grep args)"

text \<open>One connection: the node afterwards, the answer, its gossip, and the commands it sends on.\<close>

definition serve :: "shuffles \<Rightarrow> int \<Rightarrow> string list \<Rightarrow> string \<Rightarrow> gnode
    \<Rightarrow> gnode \<times> answer \<times> mail \<times> (string \<times> string) list" where
  "serve shf now fs bytes node =
     (case ReadString bytes of
        None \<Rightarrow> (node, Silent, [], [])
      | Some line \<Rightarrow> HandleCommand shf now fs line node)"

text \<open>
  The goroutines of \<^verbatim>\<open>SendSwitchCommand\<close>. After a failed dial the code goes on to \<^verbatim>\<open>conn.Close\<close> on
  a nil connection: \<^const>\<open>None\<close> is the panic, which ends the process.
\<close>

definition dial_switches :: "(string \<Rightarrow> bool) \<Rightarrow> (string \<times> string) list \<Rightarrow> (string \<times> string) list option" where
  "dial_switches reach cmds = (if \<forall>(a, line)\<in>set cmds. reach a then Some cmds else None)"

section \<open>The command line\<close>

text \<open>
  What the client does: exit with code 1 after a message, return after a message, one of the
  operations, one line to the node on its own host (\<open>Ask\<close>), or one line to an address (\<open>Tell\<close>).
\<close>

datatype cli =
    Fails string | Stops string
  | DoCreate string string | DoGet string string | DoGetFrom string string string | DoLs string
  | DoListMemIDs | DoDelete "string list" | DoAppend string string
  | DoMultiAppend string string string | DoMerge string
  | DoRainStorm parsed | DoListTasks | DoKill string int | DoGrep "string list" bool
  | Ask string | Tell string string

definition introAddress :: string where
  "introAddress = ''fa25-cs425-8201.cs.illinois.edu:'' @ CommandPort"

definition parse_switch :: "string list \<Rightarrow> cli" where
  "parse_switch rest =
     (case rest of
        [proto, susp] \<Rightarrow>
          if proto \<noteq> ''gossip'' \<and> proto \<noteq> ''ping'' then Stops ''Please give valid protocol''
          else if susp \<noteq> ''suspect'' \<and> susp \<noteq> ''nosuspect''
          then Stops ''Please give valid suspicion mechanism''
          else Tell introAddress (''switch '' @ proto @ '' '' @ susp @ [NL])
      | _ \<Rightarrow> Stops ''The number of paras are not correct'')"

definition parse_kill :: "string list \<Rightarrow> cli" where
  "parse_kill rest =
     (case rest of
        targetVMStr # pidStr # _ \<Rightarrow>
          (case atoi pidStr of
             None \<Rightarrow> Stops ''Error: PID must be an integer''
           | Some pid \<Rightarrow> DoKill (kill_target targetVMStr) pid)
      | _ \<Rightarrow> Stops ''Usage: kill_task <VM_Address/Name> <PID>'')"

definition parse_grep :: "string list \<Rightarrow> cli" where
  "parse_grep rest =
     (if rest = [] then Stops ''The number of paras for grep are not correct''
      else DoGrep rest (''-c'' \<in> set rest))"

definition no_arguments :: "cli \<Rightarrow> cli \<Rightarrow> string list \<Rightarrow> cli" where
  "no_arguments bad good rest = (if rest = [] then good else bad)"

text \<open>The commands that send one line to the node on the same host and print its answer.\<close>

definition cli_query :: "string \<Rightarrow> string list \<Rightarrow> cli option" where
  "cli_query command rest =
     (if command = ''list_mem'' then
        Some (no_arguments (Stops ''The number of paras are not correct'') (Ask ''list_mem'') rest)
      else if command = ''display_protocol'' then
        Some (no_arguments (Stops ''The number of paras for display protocol are not correct'') (Ask ''display_protocol'') rest)
      else if command = ''display_suspects'' then
        Some (no_arguments (Stops ''The number of paras for display suspects are not correct'') (Ask ''display_suspects'') rest)
      else if command = ''list_self'' then
        Some (no_arguments (Stops ''The number of paras for list self are not correct'') (Ask ''list_self'') rest)
      else if command = ''leave'' then
        Some (no_arguments (Stops ''The number of paras for leave are not correct'') (Ask ''leave'') rest)
      else None)"

definition cli_main :: "string \<Rightarrow> string list \<Rightarrow> cli" where
  "cli_main rsID args =
     (case args of
        prog # command # rest \<Rightarrow>
          if command = ''create'' then
            (case rest of [l, h] \<Rightarrow> DoCreate l h | _ \<Rightarrow> Fails ''create localfilename HyDFSfilename'')
          else if command = ''get'' then
            (case rest of [h, l] \<Rightarrow> DoGet h l | _ \<Rightarrow> Fails ''get HyDFSfilename localfilename'')
          else if command = ''getfromreplica'' then
            (case rest of [r, h, l] \<Rightarrow> DoGetFrom r h l
             | _ \<Rightarrow> Fails ''getfromreplica VMaddress HyDFSfilename localfilename'')
          else if command = ''ls'' then (case rest of [h] \<Rightarrow> DoLs h | _ \<Rightarrow> Fails ''ls HyDFSfilename'')
          else if command = ''list_mem_ids'' then no_arguments (Fails ''list_mem_ids'') DoListMemIDs rest
          else if command = ''liststore'' then no_arguments (Fails ''liststore'') (Ask ''liststore'') rest
          else if command = ''delete'' then
            (if rest = [] then Fails ''delete filename1 [filename2] ...'' else DoDelete rest)
          else if command = ''append'' then
            (case rest of [l, h] \<Rightarrow> DoAppend l h | _ \<Rightarrow> Fails ''append localfilename HyDFSfilename'')
          else if command = ''multiappend'' then
            (case rest of [h, vms, fs] \<Rightarrow> DoMultiAppend h vms fs
             | _ \<Rightarrow> Fails ''Usage: multiappend <HyDFSfilename> <vm_list> <localfile_list>'')
          else if command = ''RainStorm'' then DoRainStorm (parse_rainstorm rsID args)
          else if command = ''list_tasks'' then DoListTasks
          else if command = ''kill_task'' then parse_kill rest
          else if command = ''switch'' then parse_switch rest
          else if cli_query command rest \<noteq> None then the (cli_query command rest)
          else if command = ''merge'' then (case rest of [h] \<Rightarrow> DoMerge h | _ \<Rightarrow> Fails ''merge HyDFSfilename'')
          else if command = ''grep'' then parse_grep rest
          else Fails (''Command not found:  '' @ command)
      | _ \<Rightarrow> Fails ''please enter the command.'')"

text \<open>\<^verbatim>\<open>ExecDelete\<close> on the local files: one removal after the other, and a line for each.\<close>

definition ExecDelete :: "string list \<Rightarrow> (string \<times> string) list \<Rightarrow> (string \<times> string) list \<times> string list" where
  "ExecDelete fileList disk =
     foldl (\<lambda>(d, msgs) filename.
        if map_of d filename = None then (d, msgs @ [''Cannot delete the file '' @ filename])
        else (AList.delete filename d, msgs @ [''Delete the file '' @ filename]))
       (disk, []) fileList"

section \<open>Distributed grep\<close>

definition grep_command :: "string list \<Rightarrow> string" where
  "grep_command grepArg = ''grep '' @ join '' '' grepArg"

text \<open>
  \<^verbatim>\<open>getGrepResult\<close>: \<open>ask\<close> is one command sent to an address, \<^const>\<open>None\<close> when the call fails. The
  results come in the order in which the goroutines end; here it is the order of the members.
\<close>

definition getGrepResult :: "(string \<Rightarrow> string \<Rightarrow> string option) \<Rightarrow> member list \<Rightarrow> string list \<Rightarrow> bool
    \<Rightarrow> (string \<times> string \<times> int) list" where
  "getGrepResult ask ms grepArg cInArgs =
     List.map_filter (\<lambda>(nid, addr).
        case ask addr (grep_command grepArg) of
          None \<Rightarrow> None
        | Some grepOutput \<Rightarrow>
            if grepOutput = [] then None else Some (nid, grepOutput, line_count cInArgs grepOutput))
       (grep_targets ms)"

definition grep_report :: "bool \<Rightarrow> (string \<times> string \<times> int) list \<Rightarrow> string" where
  "grep_report cInArgs results =
     ''Here's the result ---------'' @ [NL]
     @ (if cInArgs then []
        else concat (map (\<lambda>(nid, out, n).
               concat (map (\<lambda>l. ''['' @ nid @ ''] '' @ l @ [NL]) (split_on NL (trim_space out)))) results))
     @ concat (map (\<lambda>(nid, out, n). ''['' @ nid @ ''] totallines: '' @ show_int n @ [NL]) results)
     @ ''total number of matching lines summed across all VMs:  ''
     @ show_int (sum_list (map (\<lambda>(nid, out, n). n) results)) @ [NL]
     @ ''End-------------------------'' @ [NL]"

section \<open>One line there and back\<close>

lemma ReadString_line: "NL \<notin> set s \<Longrightarrow> ReadString (s @ NL # r) = Some (s @ [NL])"
  by (simp add: ReadString_def index_of_append)

lemma ReadString_Send: "NL \<notin> set s \<Longrightarrow> ReadString (SendCommand s) = Some (s @ [NL])"
proof -
  assume s: "NL \<notin> set s"
  then have "s = [] \<or> last s \<noteq> NL" using last_in_set by fastforce
  then have "SendCommand s = s @ [NL]" by (auto simp: SendCommand_def)
  then show ?thesis using ReadString_line [OF s, of "[]"] by simp
qed

lemma ReadString_Send_NL: "NL \<notin> set s \<Longrightarrow> ReadString (SendCommand (s @ [NL])) = Some (s @ [NL])"
  using ReadString_line [of s "[]"] by (simp add: SendCommand_def)

lemma trim_NL [simp]: "trim_suffix_char NL (s @ [NL]) = s"
  by (simp add: trim_suffix_char_def)

lemma split_join_words:
  "ws \<noteq> [] \<Longrightarrow> split_on c (join [c] ws) = concat (map (split_on c) ws)"
proof (induction "[c]" ws rule: join.induct)
  case (3 p q ps)
  have "split_on c (p @ c # s) = split_on c p @ split_on c s" for p s
  proof (induction p)
    case (Cons x p)
    then show ?case by (cases "split_on c p") (auto split: list.splits)
  qed simp
  then show ?case using 3 by simp
qed auto

lemma join_NL: "\<forall>w\<in>set ws. NL \<notin> set w \<Longrightarrow> NL \<notin> set (join '' '' ws)"
  by (induction "'' ''" ws rule: join.induct) auto

lemma split_grep:
  "ws \<noteq> [] \<Longrightarrow> split_on CHR '' '' (grep_command ws) = ''grep'' # concat (map (split_on CHR '' '') ws)"
  using split_on_append [of "CHR '' ''" "''grep''" "join '' '' ws"] split_join_words [of ws "CHR '' ''"]
  by (simp add: grep_command_def)

lemma serve_grep:
  assumes "ws \<noteq> []" and "\<forall>w\<in>set ws. NL \<notin> set w"
  shows "serve shf now fs (SendCommand (grep_command ws)) node =
    (node, Grep (concat (map (split_on CHR '' '') ws) @ [GetLogFile node]), [], [])"
proof -
  have "NL \<notin> set (grep_command ws)" using join_NL [OF assms(2)] by (simp add: grep_command_def)
  then show ?thesis
    by (simp add: serve_def ReadString_Send HandleCommand_def split_grep [OF assms(1)])
qed

text \<open>
  The arguments of a distributed grep reach \<^verbatim>\<open>grep\<close> split at spaces. Every node that gets the
  client's line runs \<^verbatim>\<open>grep\<close> on the pieces of all arguments and its own log file; these are the
  arguments the user gave exactly when none of them contains a space, so a pattern of two words is
  searched as one word in a file named after the other.
\<close>

lemma grep_arguments_split:
  assumes "cli_main rs (p # ''grep'' # ws) = DoGrep ws c" and "\<forall>w\<in>set ws. NL \<notin> set w"
  shows "\<exists>args. serve shf now fs (SendCommand (grep_command ws)) node = (node, Grep (args @ [GetLogFile node]), [], []) \<and>
    args = concat (map (split_on CHR '' '') ws) \<and> (args = ws \<longleftrightarrow> (\<forall>w\<in>set ws. CHR '' '' \<notin> set w))"
proof -
  have "ws \<noteq> []" using assms(1) by (auto simp: cli_main_def cli_query_def parse_grep_def)
  note served = serve_grep [OF this assms(2), of shf now fs node]
  let ?args = "concat (map (split_on CHR '' '') ws)"
  have "\<forall>w\<in>set ws. CHR '' '' \<notin> set w" if "?args = ws"
    using split_on_set [of _ "CHR '' ''"] by (subst that [symmetric]) auto
  moreover have "?args = ws" if "\<forall>w\<in>set ws. CHR '' '' \<notin> set w"
    using that by (induction ws) (auto simp: split_on_free)
  ultimately show ?thesis using served by blast
qed

lemma grep_arguments_split_witness:
  "serve (\<lambda>_ xs. xs) 0 [] (SendCommand (grep_command [''Traffic light''])) sample_node
     = (sample_node, Grep ([''Traffic'', ''light''] @ [GetLogFile sample_node]), [], [])"
proof -
  have "cli_main ''rs'' [''demo'', ''grep'', ''Traffic light''] = DoGrep [''Traffic light''] False"
    by (simp add: cli_main_def cli_query_def parse_grep_def)
  from grep_arguments_split [OF this, of "\<lambda>_ xs. xs" 0 "[]" sample_node] show ?thesis by simp
qed

section \<open>Counting the matches of all nodes\<close>

lemma length_split: "length (split_on c s) = Suc (count_list s c)"
  by (induction s) (auto split: list.splits)

lemma count_dropWhile: "c \<notin> set (takeWhile P s) \<Longrightarrow> count_list (dropWhile P s) c = count_list s c"
  by (metis add_0 count_list_append count_list_0_iff takeWhile_dropWhile_id)

lemma count_unlines: "\<forall>l\<in>set ls. NL \<notin> set l \<Longrightarrow> count_list (unlines ls) NL = length ls"
  by (induction ls) (auto simp: count_list_append count_list_0_iff)

text \<open>A line that \<^verbatim>\<open>TrimSpace\<close> cannot remove.\<close>

definition visible :: "string \<Rightarrow> bool" where
  "visible l \<longleftrightarrow> (\<exists>x\<in>set l. \<not> is_space x)"

lemma takeWhile_visible: "visible l \<Longrightarrow> takeWhile is_space (l @ r) = takeWhile is_space l"
  by (auto simp: visible_def takeWhile_append)

lemma dropWhile_visible: "visible l \<Longrightarrow> dropWhile is_space (l @ r) = dropWhile is_space l @ r"
  by (auto simp: visible_def dropWhile_append)

lemma visible_rest: "visible l \<Longrightarrow> visible (dropWhile is_space l)"
  unfolding visible_def by (metis (no_types, lifting) dropWhile_eq_Nil_conv hd_dropWhile hd_in_set)

lemma lines_counted:
  assumes "ls \<noteq> []" and "\<forall>l\<in>set ls. NL \<notin> set l" and "visible (hd ls)" "visible (last ls)"
  shows "length (split_on NL (trim_space (unlines ls))) = length ls"
proof -
  obtain l ls' where ls: "ls = l # ls'" using assms(1) by (cases ls) auto
  define l0 where "l0 = dropWhile is_space l"
  have l0: "visible l0" "NL \<notin> set l0"
    using assms(2,3) ls visible_rest by (auto simp: l0_def dest: set_dropWhileD)
  have front: "dropWhile is_space (unlines ls) = unlines (l0 # ls')"
    using dropWhile_visible [of l "NL # unlines ls'"] assms(3) ls by (simp add: l0_def)
  define ks where "ks = l0 # ls'"
  have ks: "\<forall>k\<in>set ks. NL \<notin> set k" "visible (last ks)" "length ks = length ls" "ks \<noteq> []"
    using assms(2,4) ls l0 by (auto simp: ks_def)
  then obtain pre z where z: "ks = pre @ [z]" by (metis append_butlast_last_id)
  have z': "NL \<notin> set z" "visible (rev z)" using ks z by (auto simp: visible_def)
  define z0 where "z0 = dropWhile is_space (rev z)"
  have "rev (unlines ks) = NL # rev z @ rev (unlines pre)" by (simp add: z)
  then have "dropWhile is_space (rev (unlines ks)) = z0 @ rev (unlines pre)"
    using dropWhile_visible [OF z'(2)] by (simp add: z0_def is_space_def)
  then have "trim_space (unlines ls) = unlines pre @ rev z0"
    using front by (simp add: trim_space_def trim_chars_def ks_def)
  moreover have "NL \<notin> set z0" using z'(1) by (auto simp: z0_def dest: set_dropWhileD)
  moreover have "count_list (unlines pre) NL = length pre" using ks(1) z by (intro count_unlines) auto
  ultimately show ?thesis
    using ks(3) z by (simp add: length_split count_list_append count_list_0_iff)
qed

text \<open>
  What \<^verbatim>\<open>grep\<close> documents for arguments that it accepts: the matching lines, or with \<^verbatim>\<open>-c\<close> their
  number, and the exit code 1 when there are none.
\<close>

definition grep_prints :: "grep \<Rightarrow> string list \<Rightarrow> string list \<Rightarrow> bool" where
  "grep_prints grep args hits \<longleftrightarrow>
     grep args = Some (if hits = [] then 1 else 0,
       if ''-c'' \<in> set args then show_int (int (length hits)) @ [NL] else unlines hits)"

definition plain_hits :: "string list \<Rightarrow> bool" where
  "plain_hits hits \<longleftrightarrow> (\<forall>l\<in>set hits. NL \<notin> set l) \<and> length hits < 2 ^ 63 \<and>
     (hits \<noteq> [] \<longrightarrow> visible (hd hits) \<and> visible (last hits))"

lemma trim_show: "trim_space (show_int n @ [NL]) = show_int n"
proof -
  have no: "\<not> is_space x" if "x \<in> set (show_int n)" for x
    using that show_int_no [of x n] by (auto simp: is_space_def digit_val_def)
  have "dropWhile is_space (show_int n @ [NL]) = show_int n @ [NL]"
    using no [of "hd (show_int n)"] by (cases "show_int n") auto
  moreover have "dropWhile is_space (rev (show_int n)) = rev (show_int n)"
    using no [of "last (show_int n)"] by (cases "rev (show_int n)") (auto simp: rev_swap)
  ultimately show ?thesis by (simp add: trim_space_def trim_chars_def is_space_def)
qed

lemma counted_answer:
  assumes "grep_prints grep args hits" and "plain_hits hits"
  shows "(case grepConnect2Server grep args of [] \<Rightarrow> 0 | out \<Rightarrow> line_count (''-c'' \<in> set args) out) = int (length hits)"
proof (cases "''-c'' \<in> set args")
  case True
  have "int (length hits) < 2 ^ 63"
    using assms(2) unfolding plain_hits_def by (metis of_nat_less_iff of_nat_numeral of_nat_power)
  then have n: "atoi (show_int (int (length hits))) = Some (int (length hits))" by (intro atoi_show_int) simp_all
  obtain x xs where out: "show_int (int (length hits)) @ [NL] = x # xs"
    by (cases "show_int (int (length hits))") auto
  have "grepConnect2Server grep args = x # xs"
    using assms(1) True by (simp add: grepConnect2Server_def grep_prints_def flip: out)
  moreover have "line_count True (x # xs) = int (length hits)"
    using n by (simp add: line_count_def trim_show flip: out)
  ultimately show ?thesis using True by simp
next
  case False
  show ?thesis
  proof (cases "hits = []")
    case True
    then show ?thesis using assms(1) False by (simp add: grepConnect2Server_def grep_prints_def)
  next
    case hits: False
    then obtain x xs where out: "unlines hits = x # xs"
      by (cases "unlines hits") (cases hits; simp)+
    have "grepConnect2Server grep args = x # xs"
      using assms(1) False hits by (simp add: grepConnect2Server_def grep_prints_def out)
    moreover have "line_count False (x # xs) = int (length hits)"
      using lines_counted [OF hits] assms(2) hits by (simp add: line_count_def plain_hits_def flip: out)
    ultimately show ?thesis using False by simp
  qed
qed

lemma sum_map_filter:
  "sum_list (map f (List.map_filter g xs)) = sum_list (map (\<lambda>x. case g x of None \<Rightarrow> 0 | Some y \<Rightarrow> (f y :: int)) xs)"
  by (induction xs) (auto simp: List.map_filter_simps split: option.split)

text \<open>
  C29. The distributed grep counts right. If every live or suspected member answers, \<^verbatim>\<open>grep\<close>
  behaves on each machine as documented, and no argument contains a space, then the total that the
  client prints is the number of matching lines summed over the logs of all these members, with and
  without \<^verbatim>\<open>-c\<close>; nodes without a match add nothing. (Without \<^verbatim>\<open>-c\<close> the first and the last match
  of a log must not be blank lines, which the client trims away.)
\<close>

theorem distributed_grep_total:
  assumes "cli_main rs (p # ''grep'' # ws) = DoGrep ws c"
    and "\<forall>w\<in>set ws. NL \<notin> set w \<and> CHR '' '' \<notin> set w"
    and "\<forall>(nid, addr)\<in>set (grep_targets ms). \<exists>node shf now fs. plain_hits (hits addr) \<and>
      grep_prints (grep addr) (ws @ [GetLogFile node]) (hits addr) \<and> GetLogFile node \<noteq> ''-c'' \<and>
      ask addr (grep_command ws) = Some (answer_bytes json (grep addr)
        (fst (snd (serve shf now fs (SendCommand (grep_command ws)) node))))"
  shows "sum_list (map (\<lambda>(nid, out, n). n) (getGrepResult ask ms ws c)) =
    sum_list (map (\<lambda>(nid, addr). int (length (hits addr))) (grep_targets ms))"
proof -
  have ws: "ws \<noteq> []" and c: "c = (''-c'' \<in> set ws)"
    using assms(1) by (auto simp: cli_main_def cli_query_def parse_grep_def split: if_splits)
  have plain: "concat (map (split_on CHR '' '') ws) = ws"
    using assms(2) by (induction ws) (auto simp: split_on_free)
  have one: "(case (case ask addr (grep_command ws) of None \<Rightarrow> None | Some out \<Rightarrow>
        if out = [] then None else Some (nid, out, line_count c out)) of
      None \<Rightarrow> 0 | Some (nid, out, n) \<Rightarrow> n) = int (length (hits addr))"
    if target: "(nid, addr) \<in> set (grep_targets ms)" for nid addr
  proof -
    obtain node shf now fs where node: "plain_hits (hits addr)"
      "grep_prints (grep addr) (ws @ [GetLogFile node]) (hits addr)" "GetLogFile node \<noteq> ''-c''"
      "ask addr (grep_command ws) = Some (answer_bytes json (grep addr)
        (fst (snd (serve shf now fs (SendCommand (grep_command ws)) node))))"
      using assms(3) target by blast
    have "ask addr (grep_command ws) = Some (grepConnect2Server (grep addr) (ws @ [GetLogFile node]))"
      using node(4) serve_grep [OF ws, of shf now fs node] assms(2) by (simp add: plain answer_bytes_def)
    moreover have "c = (''-c'' \<in> set (ws @ [GetLogFile node]))" using c node(3) by simp
    ultimately show ?thesis
      using counted_answer [OF node(2,1)]
      by (cases "grepConnect2Server (grep addr) (ws @ [GetLogFile node])") simp_all
  qed
  show ?thesis
    unfolding getGrepResult_def sum_map_filter
    by (rule arg_cong [where f = sum_list], rule map_cong [OF refl])
      (use one in \<open>auto simp: case_prod_beta split: option.splits\<close>)
qed

theorem distributed_grep_total_witness:
  "sum_list (map (\<lambda>(nid, out, n). n)
     (getGrepResult (\<lambda>addr cmd. Some (''error x'' @ [NL] @ ''error y'' @ [NL])) [sample_member ''a'' ''h1:1'', sample_member ''b'' ''h2:1'', sample_member ''c'' ''h3:1''] [''error''] False)) = 6"
proof -
  let ?hits = "\<lambda>addr. [''error x'', ''error y'']"
  let ?grep = "\<lambda>(addr::string) (args::string list). Some (0::int, unlines [''error x'', ''error y''])"
  have main: "cli_main ''rs'' (''demo'' # ''grep'' # [''error'']) = DoGrep [''error''] False"
    by (simp add: cli_main_def cli_query_def parse_grep_def)
  have words: "\<forall>w\<in>set [''error'']. NL \<notin> set w \<and> CHR '' '' \<notin> set w" by simp
  have log: "GetLogFile sample_node \<noteq> ''-c''" by code_simp
  have served: "fst (snd (serve (\<lambda>_ xs. xs) 0 [] (SendCommand (grep_command [''error''])) sample_node))
      = Grep ([''error''] @ [GetLogFile sample_node])"
    using serve_grep [of "[''error'']" "\<lambda>_ xs. xs" 0 "[]" sample_node] by (simp add: split_on_free)
  have prints: "grep_prints (?grep addr) ([''error''] @ [GetLogFile sample_node]) (?hits addr)" for addr
    using log by (simp add: grep_prints_def)
  have plain: "plain_hits (?hits addr)" for addr by (simp add: plain_hits_def visible_def is_space_def)
  have "\<forall>(nid, addr)\<in>set (grep_targets [sample_member ''a'' ''h1:1'', sample_member ''b'' ''h2:1'', sample_member ''c'' ''h3:1'']). \<exists>node shf now fs. plain_hits (?hits addr) \<and>
      grep_prints (?grep addr) ([''error''] @ [GetLogFile node]) (?hits addr) \<and> GetLogFile node \<noteq> ''-c'' \<and>
      (\<lambda>addr cmd. Some (''error x'' @ [NL] @ ''error y'' @ [NL])) addr (grep_command [''error''])
        = Some (answer_bytes (\<lambda>_. []) (?grep addr)
          (fst (snd (serve shf now fs (SendCommand (grep_command [''error''])) node))))"
    using plain prints log served
    by (intro ballI case_prodI2 exI [where x = sample_node] exI [where x = "\<lambda>_ xs. xs"] exI [where x = 0] exI [where x = "[]"])
      (simp add: answer_bytes_def grepConnect2Server_def)
  from distributed_grep_total [OF main words this]
  show ?thesis by (simp add: grep_targets_def sample_member_def)
qed

section \<open>The switch of the protocol\<close>

lemma Switch_sets:
  assumes "Switch shf now proto susp node = (node', out)"
    and "proto = ProtocolGossip \<or> proto = ProtocolPingAck" and "susp = SuspicionTrue \<or> susp = SuspecionFalse"
  shows "protocol node' = proto \<and> suspicion node' = susp \<and> introducerAddr node' = introducerAddr node \<and>
    nodeID node' = nodeID node"
  using assms
  by (auto simp: Switch_def gossip_def sendGossipMessage_def Let_def split: if_splits prod.splits)

lemma switch_line:
  assumes "cli_main rs [p, ''switch'', proto, susp] = Tell addr line"
  shows "addr = introAddress" and "line = ''switch '' @ proto @ '' '' @ susp @ [NL]"
    and "proto = ProtocolGossip \<or> proto = ProtocolPingAck" and "susp = SuspicionTrue \<or> susp = SuspecionFalse"
proof -
  have "parse_switch [proto, susp] = Tell addr line" using assms by (simp add: cli_main_def cli_query_def)
  then show "addr = introAddress" "line = ''switch '' @ proto @ '' '' @ susp @ [NL]"
    "proto = ProtocolGossip \<or> proto = ProtocolPingAck" "susp = SuspicionTrue \<or> susp = SuspecionFalse"
    unfolding ProtocolGossip_def ProtocolPingAck_def SuspicionTrue_def SuspecionFalse_def
    by (simp_all add: parse_switch_def split: if_splits)
qed

lemma serve_switch:
  assumes "proto = ProtocolGossip \<or> proto = ProtocolPingAck" and "susp = SuspicionTrue \<or> susp = SuspecionFalse"
  shows "serve shf now fs (''switch '' @ proto @ '' '' @ susp @ [NL]) node =
    (case Switch shf now proto susp node of (node', out) \<Rightarrow>
       (node', Silent, out, if introducerAddr node = [] then SendSwitchCommand proto susp node' else []))"
proof -
  have free: "NL \<notin> set (''switch '' @ proto @ '' '' @ susp)" "CHR '' '' \<notin> set proto" "CHR '' '' \<notin> set susp"
    using assms by (auto simp: ProtocolGossip_def ProtocolPingAck_def SuspicionTrue_def SuspecionFalse_def)
  have bytes: "ReadString (''switch '' @ proto @ '' '' @ susp @ [NL])
      = Some ((''switch '' @ proto @ '' '' @ susp) @ [NL])"
    using ReadString_line [OF free(1), of "[]"] by simp
  have words: "split_on CHR '' '' (''switch '' @ proto @ '' '' @ susp) = [''switch'', proto, susp]"
    using split_on_append [of "CHR '' ''" "''switch''" "proto @ '' '' @ susp"]
      split_on_append [of "CHR '' ''" proto susp] free by (simp add: split_on_free)
  have line: "HandleCommand shf now fs ((''switch '' @ proto @ '' '' @ susp) @ [NL]) node
      = (case Switch shf now proto susp node of (node', out) \<Rightarrow>
       (node', Silent, out, if introducerAddr node' = [] then SendSwitchCommand proto susp node' else []))"
    by (simp only: HandleCommand_def trim_NL words list.case) simp
  obtain n m where sw: "Switch shf now proto susp node = (n, m)" by fastforce
  have "introducerAddr n = introducerAddr node" using Switch_sets [OF sw assms] by blast
  then show ?thesis unfolding serve_def bytes option.case line by (simp only: sw prod.case)
qed

text \<open>
  C28. One command switches every node that can be reached. The introducer that gets the client's line
  takes the mode and sends the same line to the command port of every other member it lists; a node
  that is not the introducer and gets it takes the mode too, and sends it to nobody. One member that
  cannot be dialled ends the introducer's process.
\<close>

theorem switch_everywhere:
  assumes "cli_main rs [p, ''switch'', proto, susp] = Tell addr line"
    and "introducerAddr intro = []" and "introducerAddr other \<noteq> []"
    and "serve shf now fs (SendCommand line) intro = (intro', ans, out, cmds)"
  shows "protocol intro' = proto \<and> suspicion intro' = susp \<and> addr = introAddress \<and>
    cmds = map (\<lambda>m. (hd (split_on CHR '':'' (Address m)) @ '':'' @ CommandPort, line))
      (filter (\<lambda>m. ID m \<noteq> nodeID intro) (getMemberList (table intro'))) \<and>
    (\<exists>other' out'. serve shf' now' fs' line other = (other', Silent, out', []) \<and>
      protocol other' = proto \<and> suspicion other' = susp) \<and>
    (dial_switches reach cmds = None \<longleftrightarrow> (\<exists>(a, l)\<in>set cmds. \<not> reach a))"
proof -
  note mode = switch_line [OF assms(1)]
  obtain n m where sw: "Switch shf now proto susp intro = (n, m)" by fastforce
  obtain n2 m2 where sw2: "Switch shf' now' proto susp other = (n2, m2)" by fastforce
  note set1 = Switch_sets [OF sw mode(3,4)] and set2 = Switch_sets [OF sw2 mode(3,4)]
  have "SendCommand line = line" unfolding mode(2) SendCommand_def by simp
  then have run: "intro' = n" "cmds = SendSwitchCommand proto susp n"
    using assms(4) serve_switch [OF mode(3,4), of shf now fs intro] assms(2) sw mode(2) by simp_all
  have "serve shf' now' fs' line other = (n2, Silent, m2, [])"
    using serve_switch [OF mode(3,4), of shf' now' fs' other] assms(3) sw2 mode(2) by simp
  then show ?thesis
    using set1 set2 run mode(1,2) by (auto simp: SendSwitchCommand_def dial_switches_def)
qed

theorem switch_everywhere_witness:
  "\<exists>intro' out cmds. serve (\<lambda>_ xs. xs) 9 [] (SendCommand (''switch gossip nosuspect'' @ [NL])) sample_node
      = (intro', Silent, out, cmds) \<and> protocol intro' = ''gossip'' \<and> suspicion intro' = ''nosuspect'' \<and>
    (\<exists>other' out'. serve (\<lambda>_ xs. xs) 9 [] (''switch gossip nosuspect'' @ [NL]) (sample_node\<lparr>introducerAddr := ''h1:1''\<rparr>)
      = (other', Silent, out', []) \<and> protocol other' = ''gossip'')"
proof -
  have line: "cli_main ''rs'' [''demo'', ''switch'', ''gossip'', ''nosuspect'']
      = Tell introAddress (''switch gossip nosuspect'' @ [NL])"
    by (simp add: cli_main_def cli_query_def parse_switch_def)
  obtain intro' ans out cmds where run: "serve (\<lambda>_ xs. xs) 9 [] (SendCommand (''switch gossip nosuspect'' @ [NL])) sample_node
      = (intro', ans, out, cmds)" by (metis prod_cases4)
  have node: "introducerAddr sample_node = []" "introducerAddr (sample_node\<lparr>introducerAddr := ''h1:1''\<rparr>) \<noteq> []"
    by (simp_all add: sample_node_def)
  have "ans = Silent"
    using run serve_switch [of "''gossip''" "''nosuspect''" "\<lambda>_ xs. xs" 9 "[]" sample_node]
    by (auto simp: SendCommand_def ProtocolGossip_def SuspecionFalse_def split: prod.splits)
  then show ?thesis
    using run switch_everywhere [OF line node run, of "\<lambda>_ xs. xs" 9 "[]" "\<lambda>_. True"] by auto
qed

section \<open>Queries\<close>

lemma query_words: "cli_query command rest = Some (Ask line) \<Longrightarrow> line = command \<and> rest = [] \<and>
    command \<in> {''list_mem'', ''display_protocol'', ''display_suspects'', ''list_self'', ''leave''}"
  by (auto simp: cli_query_def no_arguments_def split: if_splits)

text \<open>
  Every query of the command line is one that the node knows: it is answered with text, it changes
  nothing but for \<^verbatim>\<open>leave\<close>, and it causes no traffic.
\<close>

lemma queries_answered:
  assumes "cli_query command rest = Some (Ask line)"
  shows "\<exists>node' s. serve shf now fs (SendCommand line) node = (node', Answer s, [], []) \<and>
    (line \<noteq> ''leave'' \<longrightarrow> node' = node)"
proof -
  have line: "line \<in> {''list_mem'', ''display_protocol'', ''display_suspects'', ''list_self'', ''leave''}"
    using query_words [OF assms] by auto
  then have "NL \<notin> set line" by auto
  moreover have "split_on CHR '' '' line = [line]" using line by auto
  ultimately show ?thesis using line by (auto simp: serve_def ReadString_Send HandleCommand_def)
qed

end
