(* ===== verification/Boot.thy ===== *)
theory Boot
  imports Commands
begin

text \<open>
  The process entry: \<^verbatim>\<open>mp4_main\<close>, the first half of \<^verbatim>\<open>NewNode\<close> (host name, bind address, socket) and
  \<^verbatim>\<open>Start\<close>. What the machine answers is an argument: its host name, the address of its outgoing
  interface, whether the log file can be created and whether the UDP address can be bound.
\<close>

section \<open>Start of a process\<close>

record machine =
  osHostname :: "string option"
  outboundIP :: "string option"
  vmlogOpens :: bool
  udpBinds :: "string \<Rightarrow> bool"

record flags =
  portFlag :: string
  introducerFlag :: string
  tcpFlag :: string
  commandFlag :: string

definition bindHost :: "machine \<Rightarrow> string" where
  "bindHost m =
     (let actualHostname = (case osHostname m of Some h \<Rightarrow> h | None \<Rightarrow> ''localhost'') in
      if contains ''fa25-cs425'' actualHostname
      then (case outboundIP m of Some ip \<Rightarrow> ip | None \<Rightarrow> ''0.0.0.0'')
      else ''localhost'')"

text \<open>The VM name that clients put into their operation identifiers; a failed host name is empty.\<close>

definition GetSelfVM :: "machine \<Rightarrow> string" where
  "GetSelfVM m =
     (case outboundIP m of
        None \<Rightarrow> (case osHostname m of Some hostname \<Rightarrow> hostname | None \<Rightarrow> [])
      | Some ip \<Rightarrow> (case map_of IpToVMName ip of Some vmName \<Rightarrow> vmName | None \<Rightarrow> ip))"

text \<open>
  What \<^verbatim>\<open>NewNode\<close> returns: an error, a node, or neither. The lookup of the VM name returns the error of
  \<^verbatim>\<open>os.Hostname\<close>, which is nil whenever that call succeeded.
\<close>

datatype created = NewError | NilNode | Created gnode

definition create_node :: "machine \<Rightarrow> string \<Rightarrow> string \<Rightarrow> int \<Rightarrow> int \<Rightarrow> created" where
  "create_node m port introducer uniqueTime now =
     (if map_of IpToVMName (bindHost m) = None
      then (if osHostname m = None then NewError else NilNode)
      else if \<not> udpBinds m (bindHost m @ '':'' @ port) then NewError
      else (case NewNode (bindHost m) port introducer uniqueTime now of
              None \<Rightarrow> NewError | Some node \<Rightarrow> Created node))"

text \<open>\<^verbatim>\<open>Start\<close>: the listeners' addresses and the join message.\<close>

record running =
  rNode :: gnode
  rpcListen :: string
  commandListen :: string
  querierListen :: "string option"
  vmlogName :: string

definition Start :: "gnode \<Rightarrow> mail" where
  "Start node = (if introducerAddr node \<noteq> [] then join_message node else [])"

datatype boot = Exits | Panics | Runs running mail

definition mp4_main :: "machine \<Rightarrow> flags \<Rightarrow> int \<Rightarrow> int \<Rightarrow> boot" where
  "mp4_main m fl uniqueTime now =
     (if \<not> vmlogOpens m then Exits
      else (case create_node m (portFlag fl) (introducerFlag fl) uniqueTime now of
              NewError \<Rightarrow> Exits
            | NilNode \<Rightarrow> Panics
            | Created node \<Rightarrow>
                Runs \<lparr>rNode = node, rpcListen = bindHost m @ '':'' @ RPCPort,
                      commandListen = '':'' @ commandFlag fl,
                      querierListen = (if tcpFlag fl \<noteq> [] then Some (tcpFlag fl) else None),
                      vmlogName = ''machine.'' @ portFlag fl @ ''.log''\<rparr> (Start node)))"

section \<open>Where a process can run\<close>

lemma local_host: "map_of IpToVMName ''localhost'' = None" "map_of IpToVMName ''0.0.0.0'' = None"
  by (simp_all add: IpToVMName_def)

lemma NewNode_known: "map_of IpToVMName h \<noteq> None \<Longrightarrow> \<exists>node. NewNode h port intro t now = Some node"
  by (auto simp: NewNode_def Let_def)

text \<open>
  A machine that is not in the table of machines does not report that: \<^verbatim>\<open>NewNode\<close> gives back no node
  and no error, and \<^verbatim>\<open>main\<close> starts the missing node, which panics. This is the only way in which the start
  panics, and every machine whose host name is not one of the cluster's takes it, although the code
  names that case the local environment; so does a cluster machine without an outgoing route.
\<close>

lemma start_outside_table_panics:
  "(mp4_main m fl t now = Panics \<longleftrightarrow>
      vmlogOpens m \<and> osHostname m \<noteq> None \<and> map_of IpToVMName (bindHost m) = None) \<and>
   (vmlogOpens m \<and> osHostname m = Some h \<and> (\<not> contains ''fa25-cs425'' h \<or> outboundIP m = None)
      \<longrightarrow> mp4_main m fl t now = Panics)"
proof -
  have panics: "mp4_main m fl t now = Panics \<longleftrightarrow>
      vmlogOpens m \<and> osHostname m \<noteq> None \<and> map_of IpToVMName (bindHost m) = None"
    by (auto simp: mp4_main_def create_node_def split: option.split)
  have "bindHost m \<in> {''localhost'', ''0.0.0.0''}"
    if "osHostname m = Some h" "\<not> contains ''fa25-cs425'' h \<or> outboundIP m = None"
    using that by (auto simp: bindHost_def)
  then show ?thesis unfolding panics using local_host by auto
qed

definition sample_machine :: machine where
  "sample_machine = \<lparr>osHostname = Some ''fa25-cs425-8202.cs.illinois.edu'', outboundIP = Some ''172.22.159.16'',
     vmlogOpens = True, udpBinds = (\<lambda>_. True)\<rparr>"

definition sample_flags :: flags where
  "sample_flags = \<lparr>portFlag = ''8080'', introducerFlag = ''172.22.155.16:8080'', tcpFlag = [], commandFlag = CommandPort\<rparr>"

lemma start_outside_table_panics_witness:
  "mp4_main (sample_machine\<lparr>osHostname := Some ''laptop''\<rparr>) sample_flags 1 0 = Panics"
proof -
  have "\<not> contains ''fa25-cs425'' ''laptop''" by code_simp
  then show ?thesis
    using start_outside_table_panics [of "sample_machine\<lparr>osHostname := Some ''laptop''\<rparr>" sample_flags 1 0 "''laptop''"]
    by (simp add: sample_machine_def)
qed

section \<open>A started node and the rest of the program agree\<close>

lemma NewNode_fields:
  assumes "NewNode h port intro t now = Some node" and "plain_host h" and "plain_host port"
  shows "introducerAddr node = intro" and "GetLogFile node = ''machine.'' @ port @ ''.log''"
    and "getSelfByID (nodeID node) (table node) = Some \<lparr>ID = nodeID node, Address = h @ '':'' @ port,
      HeartBeatCounter = 0, Incarnation = 0, State = Alive, LastUpdateTime = now\<rparr>"
proof -
  have "split_on CHR '':'' (h @ '':'' @ port @ '':'' @ r) = h # port # split_on CHR '':'' r" for r
    using split_on_append [of "CHR '':''" h "port @ '':'' @ r"] split_on_append [of "CHR '':''" port r] assms(2,3)
    by (simp add: plain_host_def)
  then show "introducerAddr node = intro" "GetLogFile node = ''machine.'' @ port @ ''.log''"
    using assms(1) by (auto simp: NewNode_def Let_def GetLogFile_def split: if_splits)
  show "getSelfByID (nodeID node) (table node) = Some \<lparr>ID = nodeID node, Address = h @ '':'' @ port,
      HeartBeatCounter = 0, Incarnation = 0, State = Alive, LastUpdateTime = now\<rparr>"
    using assms(1) by (auto simp: NewNode_def Let_def getSelfByID_def view_def add_new_def NewMemberList_def split: if_splits)
qed

text \<open>
  C30. A node that starts is where the others look for it. It has the introducer it was given, its table
  holds itself, alive; the log that a distributed grep searches on it is the one its process opened;
  the address that the ring derives from its gossip address is the one its RPC server listens on; the
  command port of the others reaches it exactly when it was started on the default command port.
  The message it sends makes an introducer that does not know it list it.
\<close>

theorem started_node_found:
  assumes "mp4_main m fl t now = Runs r mail" and "plain_host (portFlag fl)"
    and "node_inv intro" and "nodeID (rNode r) \<noteq> nodeID intro" and "view (table intro) (nodeID (rNode r)) = None"
  shows "\<exists>self. getSelfByID (nodeID (rNode r)) (table (rNode r)) = Some self \<and> State self = Alive \<and>
    node_inv (rNode r) \<and> GetLogFile (rNode r) = vmlogName r \<and> Gossip2RPCAddr (Address self) = Some (rpcListen r) \<and>
    (hd (split_on CHR '':'' (Address self)) @ '':'' @ CommandPort = bindHost m @ commandListen r \<longleftrightarrow>
      commandFlag fl = CommandPort) \<and>
    (if introducerFlag fl = [] then mail = []
     else \<exists>msg. mail = [(introducerFlag fl, msg)] \<and>
       view (table (fst (handleMessage later msg addr intro))) (nodeID (rNode r)) = Some (self\<lparr>LastUpdateTime := later\<rparr>))"
proof -
  let ?h = "bindHost m"
  have node: "NewNode ?h (portFlag fl) (introducerFlag fl) t now = Some (rNode r)"
    and r: "rpcListen r = ?h @ '':'' @ RPCPort" "commandListen r = '':'' @ commandFlag fl"
      "vmlogName r = ''machine.'' @ portFlag fl @ ''.log''" "mail = Start (rNode r)"
    and known: "map_of IpToVMName ?h \<noteq> None"
    using assms(1) by (auto simp: mp4_main_def create_node_def split: if_splits option.splits created.splits)
  have h: "plain_host ?h" using known table_entries by (metis map_of_SomeD not_None_eq)
  note fields = NewNode_fields [OF node h assms(2)]
  define self where "self = \<lparr>ID = nodeID (rNode r), Address = ?h @ '':'' @ portFlag fl,
      HeartBeatCounter = 0, Incarnation = 0, State = Alive, LastUpdateTime = now\<rparr>"
  have self: "getSelfByID (nodeID (rNode r)) (table (rNode r)) = Some self" using fields(3) by (simp add: self_def)
  have rpc: "Gossip2RPCAddr (Address self) = Some (rpcListen r)"
    using Gossip2RPCAddr_host [OF h assms(2)] r by (simp add: self_def)
  have host: "hd (split_on CHR '':'' (Address self)) = ?h"
    using split_on_append [of "CHR '':''" ?h "portFlag fl"] h by (simp add: self_def plain_host_def)
  let ?msg = "\<lparr>mType = MessageJoin, mMemberlist = [self], mSendID = ID self\<rparr>"
  have mail: "mail = (if introducerFlag fl = [] then [] else [(introducerFlag fl, ?msg)])"
    using self fields(1) r(4) by (simp add: Start_def join_message_def) (simp add: self_def)
  obtain intro' out ok where run: "handleMessage later ?msg addr intro = (intro', out, ok)" by (metis prod_cases3)
  have "view (table intro') (ID self) = Some (self\<lparr>LastUpdateTime := later\<rparr>)"
    using join_adds [OF assms(3) _ _ _ run] assms(4,5) by (simp add: self_def Alive_def Failed_def)
  then have "view (table (fst (handleMessage later ?msg addr intro))) (nodeID (rNode r)) = Some (self\<lparr>LastUpdateTime := later\<rparr>)"
    unfolding run by (simp add: self_def)
  then show ?thesis
    using self rpc host mail NewNode_inv [OF node] fields(2) r by (intro exI [where x = self]) (auto simp: self_def)
qed

theorem started_node_found_witness:
  "\<exists>r mail msg. mp4_main sample_machine sample_flags 7 0 = Runs r mail \<and> mail = [(''172.22.155.16:8080'', msg)] \<and>
    GetLogFile (rNode r) = vmlogName r \<and> view (table (fst (handleMessage 5 msg ''x'' sample_node))) (nodeID (rNode r)) \<noteq> None"
proof -
  have host: "bindHost sample_machine = ''172.22.159.16''" by code_simp
  obtain r mail where run: "mp4_main sample_machine sample_flags 7 0 = Runs r mail"
    and id: "nodeID (rNode r) = ''172.22.159.16:8080:7''"
  proof -
    have ip: "map_of IpToVMName ''172.22.159.16'' = Some ''VM2''" "show_int 7 = ''7''" by code_simp+
    then obtain node where node: "NewNode ''172.22.159.16'' ''8080'' ''172.22.155.16:8080'' 7 0 = Some node"
      "nodeID node = ''172.22.159.16:8080:7''" by (simp add: NewNode_def Let_def)
    have "create_node sample_machine ''8080'' ''172.22.155.16:8080'' 7 0 = Created node"
      using ip node(1) by (simp add: create_node_def host) (simp add: sample_machine_def)
    then show thesis
      using that node(2) by (simp add: mp4_main_def) (simp add: sample_machine_def sample_flags_def)
  qed
  have port: "plain_host (portFlag sample_flags)" by (simp add: sample_flags_def plain_host_def)
  have new: "nodeID (rNode r) \<noteq> nodeID sample_node" "view (table sample_node) (nodeID (rNode r)) = None"
    unfolding id by code_simp+
  from started_node_found [OF run port sample_node_inv new, of 5 "''x''"] run
  show ?thesis by (auto simp: sample_flags_def)
qed

end
