(* ===== verification/LogQuerier.thy ===== *)
theory LogQuerier
  imports Commands
begin

text \<open>
  The log querier under \<^verbatim>\<open>distributed_log_querier\<close>: the server that \<^verbatim>\<open>mp4_main\<close> can start beside a node,
  and the client that asks the servers of a configuration file. The formatting of a time as RFC 3339
  and the program \<^verbatim>\<open>grep\<close> are arguments. \<^verbatim>\<open>CheckError\<close> ends the process.
\<close>

section \<open>The server\<close>

text \<open>What arrives on a connection: bytes up to its end, or an error other than the end of file.\<close>

datatype incoming = Received string | ReadFails

definition member_lines :: "(int \<Rightarrow> string) \<Rightarrow> member \<Rightarrow> string" where
  "member_lines rfc3339 m =
     ''ID: '' @ ID m @ [NL] @ ''Address: '' @ Address m @ [NL] @ ''State: '' @ State m @ [NL]
     @ ''Heartbeat: '' @ show_int (HeartBeatCounter m) @ [NL]
     @ ''Incarnation: '' @ show_int (Incarnation m) @ [NL]
     @ ''Last Update: '' @ rfc3339 (LastUpdateTime m) @ [NL] @ ''---'' @ [NL]"

definition handleGrepCommand :: "grep \<Rightarrow> string list \<Rightarrow> gnode \<Rightarrow> string" where
  "handleGrepCommand grep args node =
     (case grep (args @ [GetLogFile node]) of
        None \<Rightarrow> ''Grep error other than execution'' @ [NL]
      | Some (exitCode, out) \<Rightarrow>
          if exitCode = 0 then out
          else if exitCode = 1 then ''No matching results'' @ [NL]
          else ''Grep execution error'' @ [NL])"

definition handleListMemCommand :: "(int \<Rightarrow> string) \<Rightarrow> gnode \<Rightarrow> string" where
  "handleListMemCommand rfc3339 node =
     (let members = getMemberList (table node) in
      ''Membership List:'' @ [NL] @ ''================'' @ [NL]
      @ (if members = [] then ''No members in the list'' @ [NL]
         else concat (map (member_lines rfc3339) members)))"

definition handleListSelfCommand :: "gnode \<Rightarrow> string" where
  "handleListSelfCommand node = ''Self ID: '' @ (nodeID node @ [NL]) @ [NL]"

definition handleDisplaySuspectsCommand :: "(int \<Rightarrow> string) \<Rightarrow> gnode \<Rightarrow> string" where
  "handleDisplaySuspectsCommand rfc3339 node =
     (let suspects = filter (\<lambda>m. State m = Suspected) (getMemberList (table node)) in
      ''Suspected Nodes:'' @ [NL] @ ''================'' @ [NL]
      @ concat (map (member_lines rfc3339) suspects)
      @ (if suspects = [] then ''No suspected nodes found in membership list'' @ [NL] else []))"

definition handleDisplayProtocolCommand :: "gnode \<Rightarrow> string" where
  "handleDisplayProtocolCommand node =
     ''Current Protocol Configuration:'' @ [NL] @ ''=============================='' @ [NL]
     @ ''Protocol: '' @ protocol node @ [NL] @ ''Suspicion: '' @ suspicion node @ [NL]
     @ ''=============================='' @ [NL]"

definition handleSwitchCommand :: "shuffles \<Rightarrow> int \<Rightarrow> string list \<Rightarrow> gnode \<Rightarrow> gnode \<times> mail \<times> string" where
  "handleSwitchCommand shf now args node =
     (case args of
        [arg0, arg1] \<Rightarrow>
          let proto = trim_chars (\<lambda>c. c \<in> {CHR ''('', CHR '')''}) arg0;
              susp = trim_chars (\<lambda>c. c \<in> {CHR ''('', CHR '')''}) arg1
          in if proto \<noteq> ''gossip'' \<and> proto \<noteq> ''ping''
             then (node, [], ''Invalid protocol. Use: gossip or ping'' @ [NL])
             else if susp \<noteq> ''suspect'' \<and> susp \<noteq> ''nosuspect''
             then (node, [], ''Invalid suspicion. Use: suspect or nosuspect'' @ [NL])
             else
               let protocolConstant = (if proto = ''gossip'' then ProtocolGossip else ProtocolPingAck);
                   suspicionConstant = (if susp = ''suspect'' then SuspicionTrue else SuspecionFalse)
               in (case Switch shf now protocolConstant suspicionConstant node of
                     (node', m) \<Rightarrow> (node', m, ''Switched to protocol: '' @ proto @ '', suspicion: '' @ susp @ [NL]))
      | _ \<Rightarrow> (node, [], ''Usage: switch <protocol> <suspicion>'' @ [NL] @ ''Protocols: gossip, ping'' @ [NL]
                        @ ''Suspicion: suspect, nosuspect'' @ [NL]))"

definition unknown_command :: string where
  "unknown_command = ''Error: Unknown command. Available: grep, list_mem, list_self, display_suspects, '' @
     ''display_protocol, switch, append'' @ [NL]"

text \<open>
  One command line against the global node, which is missing until \<^verbatim>\<open>SetNode\<close>: the node afterwards, its
  gossip and the answer.
\<close>

definition querier_command :: "shuffles \<Rightarrow> int \<Rightarrow> (int \<Rightarrow> string) \<Rightarrow> grep \<Rightarrow> string \<Rightarrow> gnode option
    \<Rightarrow> gnode option \<times> mail \<times> string" where
  "querier_command shf now rfc3339 grep line globalNode =
     (case split_on CHR '' '' (trim_suffix_char NL line) of
        [] \<Rightarrow> (globalNode, [], ''Error: Empty command'' @ [NL])
      | command # args \<Rightarrow>
          if command \<notin> {''grep'', ''list_mem'', ''list_self'', ''display_suspects'', ''display_protocol'', ''switch''}
          then (globalNode, [], unknown_command)
          else (case globalNode of
            None \<Rightarrow> (globalNode, [], ''Error: Node not available'' @ [NL])
          | Some node \<Rightarrow>
              if command = ''grep'' then (globalNode, [], handleGrepCommand grep args node)
              else if command = ''list_mem'' then (globalNode, [], handleListMemCommand rfc3339 node)
              else if command = ''list_self'' then (globalNode, [], handleListSelfCommand node)
              else if command = ''display_suspects'' then (globalNode, [], handleDisplaySuspectsCommand rfc3339 node)
              else if command = ''display_protocol'' then (globalNode, [], handleDisplayProtocolCommand node)
              else (case handleSwitchCommand shf now args node of (node', m, s) \<Rightarrow> (Some node', m, s))))"

text \<open>\<^verbatim>\<open>Connect2Server\<close>; \<^const>\<open>None\<close>: \<^verbatim>\<open>CheckError\<close> has ended the process.\<close>

definition Connect2Server :: "shuffles \<Rightarrow> int \<Rightarrow> (int \<Rightarrow> string) \<Rightarrow> grep \<Rightarrow> incoming \<Rightarrow> gnode option
    \<Rightarrow> (gnode option \<times> mail \<times> string) option" where
  "Connect2Server shf now rfc3339 grep input globalNode =
     (case input of
        ReadFails \<Rightarrow> None
      | Received bytes \<Rightarrow>
          (case ReadString bytes of
             None \<Rightarrow> Some (globalNode, [], [])
           | Some line \<Rightarrow> Some (querier_command shf now rfc3339 grep line globalNode)))"

section \<open>The client\<close>

record ConfigStruct =
  cName :: string
  cAddr :: string
  cFilepath :: string

record ResultStruct =
  rsName :: string
  VmAddr :: string
  LogOutput :: "string list"
  TotalLine :: int

definition scan_fails :: "string \<Rightarrow> bool" where
  "scan_fails s \<longleftrightarrow> (\<exists>l\<in>set (raw_lines s). maxTokenSize \<le> length l)"

text \<open>\<open>ask\<close>: the answer to a line sent to an address; \<^const>\<open>None\<close> when the call fails.\<close>

definition getFromServer :: "(string \<Rightarrow> string \<Rightarrow> string option) \<Rightarrow> string list \<Rightarrow> ConfigStruct \<Rightarrow> ResultStruct option" where
  "getFromServer ask grepArgs vmconfig =
     (case ask (cAddr vmconfig) (join '' '' (grepArgs @ [cFilepath vmconfig]) @ [NL]) of
        None \<Rightarrow> None
      | Some answer \<Rightarrow>
          let loglines = scan_lines answer in
          if scan_fails answer then None
          else if loglines = [] then None
          else Some \<lparr>rsName = cName vmconfig, VmAddr = cAddr vmconfig, LogOutput = loglines,
                     TotalLine = int (length loglines)\<rparr>)"

definition recount :: "bool \<Rightarrow> ResultStruct \<Rightarrow> ResultStruct" where
  "recount cInArgs res =
     (if cInArgs \<and> LogOutput res \<noteq> [] then
        (case atoi (hd (LogOutput res)) of None \<Rightarrow> res | Some n \<Rightarrow> res\<lparr>TotalLine := n\<rparr>)
      else res)"

definition GetLogandTotalLine :: "(string \<Rightarrow> string \<Rightarrow> string option) \<Rightarrow> ConfigStruct list \<Rightarrow> string list \<Rightarrow> bool
    \<Rightarrow> ResultStruct list \<times> int" where
  "GetLogandTotalLine ask configStruct grepArgs cInArgs =
     (let collectResult = map (recount cInArgs) (List.map_filter (getFromServer ask grepArgs) configStruct)
      in (collectResult, sum_list (map TotalLine collectResult)))"

text \<open>The lines that the client's \<^verbatim>\<open>main\<close> prints, without the latency; \<open>config\<close> is the parsed file.\<close>

definition querier_main :: "(string \<Rightarrow> string \<Rightarrow> string option) \<Rightarrow> (string \<Rightarrow> ConfigStruct list option) \<Rightarrow> string list
    \<Rightarrow> string list option" where
  "querier_main ask config args =
     (case args of
        prog # configFile # grepArg # grepArgs \<Rightarrow>
          let cInArgs = (''-c'' \<in> set (grepArg # grepArgs)) in
          (case config configFile of
             None \<Rightarrow> None
           | Some configStruct \<Rightarrow>
               (case GetLogandTotalLine ask configStruct (grepArg # grepArgs) cInArgs of
                  (collectResult, sumTotalLine) \<Rightarrow>
                    Some ([''Here's the result ---------'']
                      @ (if cInArgs then []
                         else concat (map (\<lambda>r. map (\<lambda>l. ''['' @ rsName r @ ''] '' @ l) (LogOutput r)) collectResult))
                      @ map (\<lambda>r. ''['' @ rsName r @ ''] totallines: '' @ show_int (TotalLine r)) collectResult
                      @ [''total number of matching lines summed across all VMs:  '' @ show_int sumTotalLine,
                         ''End-------------------------''])))
      | _ \<Rightarrow> Some [''Usage: go run ./client_main/client_main.go <config_file> <grep_args>''])"

section \<open>The switch and the queries\<close>

text \<open>
  The querier's switch does what the node's own command does on the same words, brackets stripped, but it
  does not send the mode on; every other line leaves the node alone.
\<close>

lemma querier_switch_line:
  assumes "split_on CHR '' '' (trim_suffix_char NL line) = [''switch'', arg0, arg1]"
    and "trim_chars (\<lambda>c. c \<in> {CHR ''('', CHR '')''}) arg0 = arg0" "trim_chars (\<lambda>c. c \<in> {CHR ''('', CHR '')''}) arg1 = arg1"
  shows "fst (querier_command shf now f g line (Some node)) = Some (fst (HandleCommand shf now fs line node))"
  using assms
  by (auto simp: querier_command_def handleSwitchCommand_def HandleCommand_def Let_def ProtocolGossip_def
      ProtocolPingAck_def SuspicionTrue_def SuspecionFalse_def Switch_def split: prod.split)

lemma querier_keeps_node:
  "hd (split_on CHR '' '' (trim_suffix_char NL line)) \<noteq> ''switch'' \<Longrightarrow>
    fst (querier_command shf now f g line node) = node"
  by (auto simp: querier_command_def split: list.split option.split)

section \<open>What the totals count\<close>

lemma scan_ok_unlines:
  assumes "\<forall>l\<in>set ls. scannable l"
  shows "scan_lines (unlines ls) = ls" and "\<not> scan_fails (unlines ls)"
proof -
  show "scan_lines (unlines ls) = ls" by (rule scan_lines_unlines [OF assms])
  have "raw_lines (unlines ls) = ls" using assms by (intro raw_lines_unlines) (auto simp: scannable_def)
  then show "\<not> scan_fails (unlines ls)" using assms by (auto simp: scan_fails_def scannable_def)
qed

lemma getFromServer_lines:
  assumes "ask (cAddr cfg) (join '' '' (args @ [cFilepath cfg]) @ [NL]) = Some (unlines ls)"
    and "\<forall>l\<in>set ls. scannable l" and "ls \<noteq> []"
  shows "getFromServer ask args cfg =
    Some \<lparr>rsName = cName cfg, VmAddr = cAddr cfg, LogOutput = ls, TotalLine = int (length ls)\<rparr>"
  using assms scan_ok_unlines [OF assms(2)] by (simp add: getFromServer_def Let_def)

lemma querier_greps:
  assumes "\<forall>w\<in>set ws. NL \<notin> set w \<and> CHR '' '' \<notin> set w"
  shows "Connect2Server shf now f g (Received (join '' '' (''grep'' # ws) @ [NL])) (Some node)
    = Some (Some node, [], handleGrepCommand g ws node)"
proof -
  have "NL \<notin> set (join '' '' (''grep'' # ws))" using assms by (intro join_NL) auto
  then have line: "ReadString (join '' '' (''grep'' # ws) @ [NL]) = Some (join '' '' (''grep'' # ws) @ [NL])"
    using ReadString_line [of _ "[]"] by simp
  have "concat (map (split_on CHR '' '') ws) = ws"
    using assms by (induction ws) (auto simp: split_on_free)
  then have "split_on CHR '' '' (join '' '' (''grep'' # ws)) = ''grep'' # ws"
    by (subst split_join_words) simp_all
  then show ?thesis unfolding Connect2Server_def incoming.case line option.case by (simp add: querier_command_def)
qed

lemma miss_line: "scannable ''No matching results''" "''No matching results'' @ [NL] = unlines [''No matching results'']"
  by (simp_all add: scannable_def maxTokenSize_def)


text \<open>With \<^verbatim>\<open>-c\<close>, two files make \<^verbatim>\<open>grep\<close> name each count, the number is not recognised, and lines are counted.\<close>

lemma querier_count_option:
  assumes "ask (cAddr cfg) (join '' '' (args @ [cFilepath cfg]) @ [NL])
      = Some (unlines [f1 @ '':'' @ show_int n1, f2 @ '':'' @ show_int n2])"
    and "scannable (f1 @ '':'' @ show_int n1)" "scannable (f2 @ '':'' @ show_int n2)"
    and "atoi (f1 @ '':'' @ show_int n1) = None"
  shows "snd (GetLogandTotalLine ask [cfg] args True) = 2"
proof -
  let ?ls = "[f1 @ '':'' @ show_int n1, f2 @ '':'' @ show_int n2]"
  have "getFromServer ask args cfg =
      Some \<lparr>rsName = cName cfg, VmAddr = cAddr cfg, LogOutput = ?ls, TotalLine = int (length ?ls)\<rparr>"
    by (rule getFromServer_lines) (use assms in simp_all)
  then show ?thesis
    using assms(4) by (simp add: GetLogandTotalLine_def List.map_filter_simps recount_def Let_def)
qed

definition sample_configs :: "ConfigStruct list" where
  "sample_configs = [\<lparr>cName = ''vm1'', cAddr = ''h1:7'', cFilepath = ''app.log''\<rparr>,
     \<lparr>cName = ''vm2'', cAddr = ''h2:7'', cFilepath = ''app.log''\<rparr>]"


end
