(* ===== verification/GossipNet.thy ===== *)
theory GossipNet
  imports GossipNode
begin

text \<open>
  The gossip network as a whole: a step relation in which nodes start, send heartbeats and
  pings, time members out, run commands, and handle any message that was ever sent, in any
  order, any number of times or never. Every state that can be reached keeps the tables sound,
  and no node ever holds or sends news of a member that the member itself did not issue.
\<close>

record net_state =
  nodes :: "string \<Rightarrow> gnode option"
  sent :: "message set"

definition put_node :: "string \<Rightarrow> gnode \<Rightarrow> mail \<Rightarrow> net_state \<Rightarrow> net_state" where
  "put_node k n out s = s\<lparr>nodes := (nodes s)(k \<mapsto> n), sent := sent s \<union> snd ` set out\<rparr>"

text \<open>The entries anybody has: those of the tables and those of the messages.\<close>

definition entries :: "net_state \<Rightarrow> member set" where
  "entries s = (\<Union>n\<in>ran (nodes s). set (getMemberList (table n))) \<union> (\<Union>msg\<in>sent s. set (mMemberlist msg))"

inductive net_step :: "net_state \<Rightarrow> net_state \<Rightarrow> bool" where
  Start: "nodes s k = None \<Longrightarrow> k \<notin> ID ` entries s \<Longrightarrow> NewNode host port intro t now = Some n \<Longrightarrow>
    nodeID n = k \<Longrightarrow> net_step s (put_node k n [] s)"
| Join: "nodes s k = Some n \<Longrightarrow> net_step s (put_node k n (join_message n) s)"
| Handle: "nodes s k = Some n \<Longrightarrow> msg \<in> sent s \<Longrightarrow> handleMessage now msg sender n = (n', out, ok) \<Longrightarrow>
    net_step s (put_node k n' out s)"
| Beat: "nodes s k = Some n \<Longrightarrow> fair shf \<Longrightarrow> heart_beat shf now n = (n', t, out) \<Longrightarrow>
    net_step s (put_node k n' out s)"
| PingEnd: "nodes s k = Some n \<Longrightarrow> fair shf \<Longrightarrow> ping_end shf now acked susp target n = (n', out) \<Longrightarrow>
    net_step s (put_node k n' out s)"
| TimeOuts: "nodes s k = Some n \<Longrightarrow> fair shf \<Longrightarrow> time_out_round shf now n = (n', out) \<Longrightarrow>
    net_step s (put_node k n' out s)"
| Command: "nodes s k = Some n \<Longrightarrow> fair shf \<Longrightarrow> HandleCommand shf now fs line n = (n', ans, out, cmds) \<Longrightarrow>
    net_step s (put_node k n' out s)"
| Adopt: "nodes s k = Some n \<Longrightarrow> fair shf \<Longrightarrow> adopt_mode shf now ans n = (n', out) \<Longrightarrow>
    net_step s (put_node k n' out s)"

definition no_nodes :: net_state where
  "no_nodes = \<lparr>nodes = (\<lambda>_. None), sent = {}\<rparr>"

abbreviation reachable :: "net_state \<Rightarrow> bool" where
  "reachable s \<equiv> net_step\<^sup>*\<^sup>* no_nodes s"

section \<open>News within what the members issued\<close>

text \<open>\<open>b\<close> gives each member's own entry; \<open>within b m\<close> says that \<open>m\<close> is no newer than that.\<close>

definition within :: "(string \<Rightarrow> member option) \<Rightarrow> member \<Rightarrow> bool" where
  "within b m \<longleftrightarrow> (\<forall>own. b (ID m) = Some own \<longrightarrow>
     Incarnation m \<le> Incarnation own \<and> HeartBeatCounter m \<le> HeartBeatCounter own)"

definition own_entry :: "net_state \<Rightarrow> string \<Rightarrow> member option" where
  "own_entry s k = Option.bind (nodes s k) (\<lambda>n. view (table n) k)"

definition grows :: "member option \<Rightarrow> member option \<Rightarrow> bool" where
  "grows v v' \<longleftrightarrow> (\<forall>m'. v' = Some m' \<longrightarrow> (\<exists>m. v = Some m \<and>
     Incarnation m \<le> Incarnation m' \<and> HeartBeatCounter m \<le> HeartBeatCounter m'))"

lemma grows_refl [simp]: "grows v v" and grows_None [simp]: "grows v None"
  by (simp_all add: grows_def)

lemma grows_trans: "grows u v \<Longrightarrow> grows v w \<Longrightarrow> grows u w"
  by (fastforce simp: grows_def)

definition table_ok :: "(string \<Rightarrow> member option) \<Rightarrow> string \<Rightarrow> MemberList \<Rightarrow> bool" where
  "table_ok b k ml \<longleftrightarrow> ml_inv ml \<and> rr_ok k ml \<and> (\<forall>j m. view ml j = Some m \<longrightarrow> j \<noteq> k \<longrightarrow> within b m)"

lemma within_cong:
  "within b m \<Longrightarrow> ID m' = ID m \<Longrightarrow> Incarnation m' \<le> Incarnation m \<Longrightarrow>
     HeartBeatCounter m' \<le> HeartBeatCounter m \<Longrightarrow> within b m'"
  by (force simp: within_def)

lemma within_merge: "within b m \<Longrightarrow> within b next \<Longrightarrow> ID next = ID m \<Longrightarrow> within b (merge_known now next m)"
  by (auto simp: within_def merge_known_def)

lemma grows_refute: "grows (Some m) (Some (refute now next m))"
  by (simp add: grows_def refute_def)

text \<open>The abstract merge of a report.\<close>

lemma merge_view_within:
  assumes "\<forall>m\<in>set ms. ID m \<noteq> k \<longrightarrow> within b m"
    and "\<forall>j m. v j = Some m \<longrightarrow> ID m = j \<and> (j \<noteq> k \<longrightarrow> within b m)"
  shows "(\<forall>j m. merge_view now ms k v j = Some m \<longrightarrow> j \<noteq> k \<longrightarrow> within b m)
    \<and> grows (v k) (merge_view now ms k v k)"
  using assms
proof (induction ms arbitrary: v)
  case (Cons nx ms)
  have nx: "ID nx \<noteq> k \<longrightarrow> within b nx" and rest: "\<forall>m\<in>set ms. ID m \<noteq> k \<longrightarrow> within b m"
    using Cons.prems(1) by simp_all
  note IH = Cons.IH [OF rest]
  show ?case
  proof (cases "ID nx = k")
    case True
    show ?thesis
    proof (cases "v k")
      case (Some m)
      let ?v = "v(k \<mapsto> refute now nx m)"
      have "\<forall>j m. ?v j = Some m \<longrightarrow> ID m = j \<and> (j \<noteq> k \<longrightarrow> within b m)" using Cons.prems(2) Some by auto
      note IH' = IH [OF this]
      have eq: "merge_view now (nx # ms) k v = merge_view now ms k ?v" using Some True by simp
      have "grows (v k) (?v k)" using Some grows_refute [of m now nx] by simp
      then have "grows (v k) (merge_view now ms k ?v k)" using IH' grows_trans by blast
      then show ?thesis using IH' unfolding eq by blast
    qed (use Cons.prems(2) True in auto)
  next
    case False
    define w where "w = (case v (ID nx) of Some m \<Rightarrow> v(ID nx \<mapsto> merge_known now nx m)
      | None \<Rightarrow> if State nx \<noteq> Failed then v(ID nx \<mapsto> nx\<lparr>LastUpdateTime := now\<rparr>) else v)"
    have new: "within b (nx\<lparr>LastUpdateTime := now\<rparr>)"
      by (rule within_cong [of b nx]) (use nx False in simp_all)
    have merged: "within b (merge_known now nx m)" if "v (ID nx) = Some m" for m
      using that Cons.prems(2) nx False by (intro within_merge) auto
    have "\<forall>j m. w j = Some m \<longrightarrow> ID m = j \<and> (j \<noteq> k \<longrightarrow> within b m)"
      using Cons.prems(2) new merged unfolding w_def by (cases "v (ID nx)") (auto split: if_splits)
    note IH' = IH [OF this]
    have "w k = v k" using False by (auto simp: w_def split: option.split)
    moreover have "merge_view now (nx # ms) k v = merge_view now ms k w"
      using False by (auto simp: w_def split: option.split)
    ultimately show ?thesis using IH' by simp
  qed
qed auto

text \<open>Each operation on a table.\<close>

definition kept :: "(string \<Rightarrow> member option) \<Rightarrow> string \<Rightarrow> MemberList \<Rightarrow> MemberList \<Rightarrow> bool" where
  "kept b k ml ml' \<longleftrightarrow> table_ok b k ml' \<and> grows (view ml k) (view ml' k)"

lemma kept_refl: "table_ok b k ml \<Longrightarrow> kept b k ml ml"
  by (simp add: kept_def)

lemma kept_trans: "kept b k ml ml1 \<Longrightarrow> kept b k ml1 ml2 \<Longrightarrow> kept b k ml ml2"
  using grows_trans by (auto simp: kept_def)

lemma op_sound:
  assumes "table_ok b k ml" and "\<not> is_ping op"
  shows "ml_inv (snd (do_op k op ml))" and "rr_ok k (snd (do_op k op ml))"
proof -
  have "fair_op op" using assms(2) by (cases op) simp_all
  then show "ml_inv (snd (do_op k op ml))" "rr_ok k (snd (do_op k op ml))"
    using do_op_inv assms(1) by (simp_all add: table_ok_def)
qed

lemma kept_report:
  assumes ok: "table_ok b k ml" and "\<forall>m\<in>set ms. ID m \<noteq> k \<longrightarrow> within b m"
  shows "kept b k ml (UpdateMemberlist now ms k ml)"
proof -
  have inv: "ml_inv ml" using ok by (simp add: table_ok_def)
  have "\<forall>j m. view ml j = Some m \<longrightarrow> ID m = j \<and> (j \<noteq> k \<longrightarrow> within b m)"
    using ok inv view_ID by (auto simp: table_ok_def)
  from merge_view_within [OF assms(2) this, of now] show ?thesis
    using op_sound [OF ok, of "Report now ms"]
    by (simp add: kept_def table_ok_def merge_view_refines [OF inv])
qed

text \<open>An update of one entry that leaves identity, incarnation and heartbeat, or raises the own ones.\<close>

lemma rr_ok_modify:
  "rr_ok k ml \<Longrightarrow> (\<And>m. ID (f m) = ID m) \<Longrightarrow> rr_ok k (modify j f ml)"
  by (auto simp: rr_ok_def modify_def split: option.split)

lemma kept_modify:
  assumes ok: "table_ok b k ml"
    and f: "\<And>m. ID (f m) = ID m" "\<And>m. Incarnation (f m) = Incarnation m"
      "\<And>m. HeartBeatCounter m \<le> HeartBeatCounter (f m)"
      "\<And>m. j \<noteq> k \<Longrightarrow> HeartBeatCounter (f m) = HeartBeatCounter m"
  shows "kept b k ml (modify j f ml)"
proof -
  have inv: "ml_inv ml" and rr: "rr_ok k ml" using ok by (simp_all add: table_ok_def)
  have "within b (f m)" if "j \<noteq> k" "within b m" for m
    by (rule within_cong [OF that(2)]) (use f that(1) in simp_all)
  moreover have "grows (view ml k) (map_option f (view ml k))"
    using f by (auto simp: grows_def)
  ultimately show ?thesis
    using ok f(1)
    by (auto simp: kept_def table_ok_def view_modify [OF inv] ml_inv_modify [OF inv] rr_ok_modify [OF rr]
        split: if_splits)
qed

lemma kept_heard: "table_ok b k ml \<Longrightarrow> kept b k ml (updateSenderTime now j ml)"
  by (simp add: updateSenderTime_def kept_modify)

lemma kept_beat: "table_ok b k ml \<Longrightarrow> kept b k ml (addHeartBeat now k ml)"
  by (simp add: addHeartBeat_def kept_modify)

lemma kept_leave: "table_ok b k ml \<Longrightarrow> kept b k ml (TurnLeave now k ml)"
  by (simp add: TurnLeave_def kept_modify)

lemma kept_reset:
  assumes "table_ok b k ml"
  shows "kept b k ml (resetOtherTime now k ml)"
  unfolding resetOtherTime_def
proof (rule foldl_inv [where P = "kept b k ml"])
  show "kept b k ml ml" by (rule kept_refl [OF assms])
  fix ml' j
  assume at: "kept b k ml ml'"
  then have "kept b k ml' (modify j (\<lambda>m. m\<lparr>LastUpdateTime := now\<rparr>) ml')"
    by (intro kept_modify) (simp_all add: kept_def)
  with at show "kept b k ml (modify j (\<lambda>m. m\<lparr>LastUpdateTime := now\<rparr>) ml')" by (rule kept_trans)
qed

lemma kept_change: "table_ok b k ml \<Longrightarrow> kept b k ml (fst (changeState now j x y ml))"
  by (auto simp: changeState_def Let_def kept_modify kept_refl split: option.split)

lemma age_member_frame [simp]:
  "Incarnation (fst (age_member p s now m)) = Incarnation m"
  "HeartBeatCounter (fst (age_member p s now m)) = HeartBeatCounter m"
  by (simp_all add: age_member_def age_alive_def age_suspected_def Let_def)

lemma kept_timeouts:
  assumes ok: "table_ok b k ml"
  shows "kept b k ml (fst (TimeOutCheck p s now ml))"
proof -
  have inv: "ml_inv ml" using ok by (simp add: table_ok_def)
  have tick: "\<exists>m0. v = Some m0 \<and> ID m = ID m0 \<and> Incarnation m = Incarnation m0 \<and> HeartBeatCounter m = HeartBeatCounter m0"
    if "tick p s now v = Some m" for v m
    using that by (auto simp: tick_def split: option.splits if_splits)
  have "within b m" if j: "tick p s now (view ml j) = Some m" "j \<noteq> k" for j m
  proof -
    obtain m0 where m0: "view ml j = Some m0" "ID m = ID m0" "Incarnation m = Incarnation m0"
      "HeartBeatCounter m = HeartBeatCounter m0" using tick [OF j(1)] by blast
    then have "within b m0" using ok j(2) by (auto simp: table_ok_def)
    then show ?thesis by (rule within_cong) (use m0 in simp_all)
  qed
  moreover have "grows (view ml k) (tick p s now (view ml k))"
    using tick by (fastforce simp: grows_def)
  ultimately show ?thesis
    using op_sound [OF ok, of "TimeOuts p s now"]
    by (simp add: kept_def table_ok_def view_TimeOutCheck [OF inv])
qed

lemma kept_round_robin:
  assumes ok: "table_ok b k ml" and "fair shf" and "roundRobinK shf num k ml = (sel, ml')"
  shows "kept b k ml ml'" and "view ml' = view ml"
proof -
  have "rr_result k ml (sel, ml')"
    using roundRobinK_ok [of shf ml k num] assms by (simp add: fair_def table_ok_def)
  then show "kept b k ml ml'" "view ml' = view ml"
    using ok by (simp_all add: rr_result_def kept_def table_ok_def)
qed

section \<open>Each step of a node\<close>

text \<open>What a step may do to the table, and what it may send.\<close>

definition good :: "(string \<Rightarrow> member option) \<Rightarrow> gnode \<Rightarrow> gnode \<times> mail \<Rightarrow> bool" where
  "good b n r \<longleftrightarrow>
     nodeID (fst r) = nodeID n \<and> kept b (nodeID n) (table n) (table (fst r)) \<and>
     (\<forall>msg\<in>snd ` set (snd r). \<forall>m\<in>set (mMemberlist msg).
        within (b(nodeID n := view (table (fst r)) (nodeID n))) m)"

abbreviation node_ok :: "(string \<Rightarrow> member option) \<Rightarrow> gnode \<Rightarrow> bool" where
  "node_ok b n \<equiv> table_ok b (nodeID n) (table n)"

lemma good_then: "good b n (n1, out1) \<Longrightarrow> good b n1 (n2, out) \<Longrightarrow> good b n (n2, out)"
  using kept_trans by (auto simp: good_def)

lemma good_table:
  "kept b (nodeID n) (table n) ml \<Longrightarrow> table n' = ml \<Longrightarrow> nodeID n' = nodeID n \<Longrightarrow> good b n (n', [])"
  by (simp add: good_def)

lemma good_ok: "good b n r \<Longrightarrow> node_ok b (fst r)"
  by (simp add: good_def kept_def)

lemma listed_view: "ml_inv ml \<Longrightarrow> m \<in> set (getMemberList ml) \<Longrightarrow> view ml (ID m) = Some m"
  by (auto simp: getMemberList_def ml_inv_def view_def)

lemma within_view:
  "table_ok b k ml \<Longrightarrow> view ml j = Some m \<Longrightarrow> within (b(k := view ml k)) m"
  using view_ID [of ml j m] by (cases "j = k") (auto simp: table_ok_def within_def)

lemma members_within:
  "table_ok b k ml \<Longrightarrow> m \<in> set (getMemberList ml) \<Longrightarrow> within (b(k := view ml k)) m"
  using within_view [of b k ml "ID m" m] listed_view [of ml m] by (simp add: table_ok_def)

lemma good_gossip:
  assumes ok: "node_ok b n" and "fair shf"
    and ms: "\<forall>m\<in>set ms. within (b(nodeID n := view (table n) (nodeID n))) m"
  shows "good b n (sendGossipMessage shf ms n)"
proof (cases "ms = []")
  case True
  then show ?thesis using ok by (simp add: sendGossipMessage_def good_def kept_refl)
next
  case False
  obtain sel ml where rr: "roundRobinK shf GossipNum (nodeID n) (table n) = (sel, ml)" by fastforce
  then show ?thesis
    using kept_round_robin [OF ok assms(2) rr] False ms by (auto simp: sendGossipMessage_def good_def)
qed

lemma good_gossip_table:
  assumes "node_ok b n" and "fair shf" and "kept b (nodeID n) (table n) ml"
    and "\<forall>m\<in>set ms. within (b(nodeID n := view ml (nodeID n))) m" and "nodeID n' = nodeID n" "table n' = ml"
  shows "good b n (sendGossipMessage shf ms n')"
proof -
  obtain n2 out where run: "sendGossipMessage shf ms n' = (n2, out)" by fastforce
  have "good b n (n', [])" by (rule good_table [OF assms(3,6,5)])
  moreover have "good b n' (n2, out)"
    using good_gossip [of b n' shf ms] assms good_ok [OF calculation] run by simp
  ultimately show ?thesis unfolding run by (rule good_then)
qed

lemma good_own_list:
  assumes "node_ok b n" and "fair shf" and "kept b (nodeID n) (table n) ml" and "nodeID n' = nodeID n" "table n' = ml"
  shows "good b n (gossip shf n')"
  unfolding gossip_def assms(5)
  by (rule good_gossip_table [OF assms(1-3) _ assms(4,5)])
    (use members_within assms(3) in \<open>auto simp: kept_def\<close>)

lemma good_join: "node_ok b n \<Longrightarrow> good b n (n, join_message n)"
  using within_view
  by (fastforce simp: join_message_def good_def kept_refl getSelfByID_def split: option.splits)

lemma good_handle:
  assumes ok: "node_ok b n" and news: "\<forall>m\<in>set (mMemberlist msg). within b m"
    and run: "handleMessage now msg sender n = (n', out, ret)"
  shows "good b n (n', out)"
proof -
  let ?ml = "UpdateMemberlist now (mMemberlist msg) (nodeID n) (updateSenderTime now (mSendID msg) (table n))"
  have heard: "kept b (nodeID n) (table n) (updateSenderTime now (mSendID msg) (table n))"
    by (rule kept_heard [OF ok])
  then have "kept b (nodeID n) (updateSenderTime now (mSendID msg) (table n)) ?ml"
    using news by (intro kept_report) (simp_all add: kept_def)
  with heard have kept: "kept b (nodeID n) (table n) ?ml" by (rule kept_trans)
  then have list: "\<forall>m\<in>set (getMemberList ?ml). within (b(nodeID n := view ?ml (nodeID n))) m"
    using members_within by (auto simp: kept_def)
  have "table n' = ?ml \<and> nodeID n' = nodeID n \<and> (\<forall>msg\<in>snd ` set out. mMemberlist msg = getMemberList ?ml)"
    using run by (auto simp: handleMessage_def Let_def dest: ack_arrives_frame split: if_splits outcome.splits)
  then show ?thesis using kept list by (auto simp: good_def)
qed

lemma good_beat:
  assumes ok: "node_ok b n" and "fair shf" and run: "heart_beat shf now n = (n', t, out)"
  shows "good b n (n', out)"
proof (cases "protocol n = ProtocolGossip")
  case True
  then have "(n', out) = gossip shf (n\<lparr>table := addHeartBeat now (nodeID n) (table n)\<rparr>)"
    using run by (auto simp: heart_beat_def split: prod.splits)
  then show ?thesis using good_own_list [OF ok assms(2) kept_beat [OF ok], of "n\<lparr>table := addHeartBeat now (nodeID n) (table n)\<rparr>" now] by simp
next
  case False
  obtain sel ml where rr: "roundRobinK shf 1 (nodeID n) (table n) = (sel, ml)" by fastforce
  note kept = kept_round_robin(1) [OF ok assms(2) rr]
  then have "\<forall>m\<in>set (getMemberList ml). within (b(nodeID n := view ml (nodeID n))) m"
    using members_within by (auto simp: kept_def)
  then show ?thesis
    using run rr kept kept_refl [OF ok] False
    by (auto simp: heart_beat_def ping_start_def good_def Let_def split: if_splits list.splits)
qed

lemma good_adopt_chan: "good b n (n', out) \<Longrightarrow> good b n (n'\<lparr>ackchan := c\<rparr>, out)"
  by (simp add: good_def)

lemma changed_within:
  assumes "table_ok b k ml" and "changeState now j x y ml = (ml', upd)" and "m \<in> set upd"
  shows "within (b(k := view ml' k)) m"
proof -
  have "table_ok b k ml'" using kept_change [OF assms(1), of now j x y] assms(2) by (simp add: kept_def)
  moreover have "ml_inv ml" using assms(1) by (simp add: table_ok_def)
  then have "view ml' j = Some m"
    using assms(2,3) by (auto simp: changeState_def Let_def view_modify split: option.splits if_splits)
  ultimately show ?thesis by (rule within_view)
qed

lemma good_ping_end:
  assumes ok: "node_ok b n" and "fair shf" and run: "ping_end shf now acked susp target n = (n', out)"
  shows "good b n (n', out)"
proof -
  have same: "good b n (n, [])" by (simp add: good_def kept_refl [OF ok])
  obtain ml upd where ch: "changeState now (ID target) Alive (if susp = SuspicionTrue then Suspected else Failed) (table n) = (ml, upd)"
    by fastforce
  have "kept b (nodeID n) (table n) ml"
    using kept_change [OF ok, of now "ID target" Alive "if susp = SuspicionTrue then Suspected else Failed"] ch by simp
  then have "good b n (sendGossipMessage shf upd (n\<lparr>table := ml\<rparr>))"
    using changed_within [OF ok ch] by (intro good_gossip_table [OF ok assms(2)]) auto
  then show ?thesis
    using run same ch by (auto simp: ping_end_def Let_def good_adopt_chan split: if_splits prod.splits)
qed

lemma good_timeouts:
  assumes ok: "node_ok b n" and "fair shf" and run: "time_out_round shf now n = (n', out)"
  shows "good b n (n', out)"
proof -
  obtain ml failed where chk: "TimeOutCheck (protocol n) (suspicion n) now (table n) = (ml, failed)" by fastforce
  have inv: "ml_inv (table n)" using ok by (simp add: table_ok_def)
  have kept: "kept b (nodeID n) (table n) ml"
    using kept_timeouts [OF ok, of "protocol n" "suspicion n" now] chk by simp
  have "within (b(nodeID n := view ml (nodeID n))) m" if listed: "m \<in> set failed" for m
  proof -
    have "failed = map fst (filter snd (map (age_member (protocol n) (suspicion n) now) (getMemberList (table n))))"
      using chk by (simp add: TimeOutCheck_def Let_def)
    then obtain m0 where m0: "m0 \<in> set (getMemberList (table n))" "m = fst (age_member (protocol n) (suspicion n) now m0)"
      using listed by auto
    show ?thesis
    proof (cases "ID m0 = nodeID n")
      case True
      then have own: "view (table n) (nodeID n) = Some m0" using listed_view [OF inv m0(1)] by simp
      have "view ml (nodeID n) = tick (protocol n) (suspicion n) now (view (table n) (nodeID n))"
        using view_TimeOutCheck [OF inv, of "protocol n" "suspicion n" now] chk by simp
      then show ?thesis using True m0(2) own by (auto simp: within_def tick_def split: if_splits)
    next
      case False
      then have "within b m0" using ok listed_view [OF inv m0(1)] by (auto simp: table_ok_def)
      then show ?thesis using False m0(2) by (simp add: within_def)
    qed
  qed
  then have "good b n (sendGossipMessage shf failed (n\<lparr>table := ml\<rparr>))"
    by (intro good_gossip_table [OF ok assms(2) kept]) auto
  then show ?thesis
    using run chk kept by (auto simp: time_out_round_def good_def split: if_splits)
qed

lemma good_switch:
  assumes ok: "node_ok b n" and "fair shf"
  shows "good b n (Switch shf now proto susp n)"
proof -
  let ?ml = "addHeartBeat now (nodeID n) (resetOtherTime now (nodeID n) (table n))"
  have reset: "kept b (nodeID n) (table n) (resetOtherTime now (nodeID n) (table n))" by (rule kept_reset [OF ok])
  then have "kept b (nodeID n) (resetOtherTime now (nodeID n) (table n)) ?ml"
    by (intro kept_beat) (simp add: kept_def)
  with reset have kept: "kept b (nodeID n) (table n) ?ml" by (rule kept_trans)
  have same: "good b n (n\<lparr>protocol := p, suspicion := q\<rparr>, [])" "good b n (n, [])" for p q
    by (simp_all add: good_def kept_refl [OF ok])
  show ?thesis
    using same good_own_list [OF ok assms(2) kept]
    by (simp add: Switch_def Let_def)
qed

lemma good_command:
  assumes ok: "node_ok b n" and "fair shf" and run: "HandleCommand shf now fs line n = (n', ans, out, cmds)"
  shows "good b n (n', out)"
proof -
  have same: "good b n (n, [])" by (simp add: good_def kept_refl [OF ok])
  have switch: "good b n (n2, out2)" if "Switch shf now proto susp n = (n2, out2)" for proto susp n2 out2
    using good_switch [OF ok assms(2), of now proto susp] that by simp
  have leave: "good b n (n\<lparr>table := TurnLeave now (nodeID n) (table n)\<rparr>, [])"
    by (rule good_table [OF kept_leave [OF ok]]) simp_all
  obtain cmd args where words: "split_on CHR '' '' (trim_suffix_char NL line) = [] \<or>
      split_on CHR '' '' (trim_suffix_char NL line) = cmd # args" by (meson list.exhaust)
  show ?thesis
    using run words same leave switch
    by (auto simp: HandleCommand_def split: if_splits list.splits prod.splits)
qed

lemma good_adopt:
  assumes ok: "node_ok b n" and "fair shf" and run: "adopt_mode shf now ans n = (n', out)"
  shows "good b n (n', out)"
proof -
  have same: "good b n (n, [])" by (simp add: good_def kept_refl [OF ok])
  have switch: "good b n (n2, out2)" if "Switch shf now proto susp n = (n2, out2)" for proto susp n2 out2
    using good_switch [OF ok assms(2), of now proto susp] that by simp
  show ?thesis using run same switch by (auto simp: adopt_mode_def split: list.splits if_splits)
qed

section \<open>The network invariant\<close>

definition net_inv :: "net_state \<Rightarrow> bool" where
  "net_inv s \<longleftrightarrow>
     (\<forall>k n. nodes s k = Some n \<longrightarrow> nodeID n = k \<and> table_ok (own_entry s) k (table n)) \<and>
     (\<forall>msg\<in>sent s. \<forall>m\<in>set (mMemberlist msg). within (own_entry s) m)"

lemma own_entry_put:
  "own_entry (put_node k n out s) = (own_entry s)(k := view (table n) k)"
  by (auto simp: own_entry_def put_node_def)

lemma within_grows:
  assumes "within b m" and "grows (b k) v"
  shows "within (b(k := v)) m"
  using assms by (fastforce simp: within_def grows_def)

lemma net_inv_put:
  assumes inv: "net_inv s" and k: "nodes s k = Some n" and "good (own_entry s) n (n', out)"
  shows "net_inv (put_node k n' out s)"
proof -
  let ?b = "own_entry s" and ?b' = "(own_entry s)(k := view (table n') k)"
  have n: "nodeID n = k" using inv k by (simp add: net_inv_def)
  have n': "nodeID n' = k" "table_ok ?b k (table n')" "grows (view (table n) k) (view (table n') k)"
    and news: "\<forall>msg\<in>snd ` set out. \<forall>m\<in>set (mMemberlist msg). within ?b' m"
    using assms(3) n by (simp_all add: good_def kept_def)
  have grows: "grows (?b k) (view (table n') k)" using n'(3) k by (simp add: own_entry_def)
  have "table_ok ?b' j (table x)" if "((nodes s)(k \<mapsto> n')) j = Some x" for j x
    using that n' inv within_grows [of "own_entry s" _ k, OF _ grows]
    by (auto simp: net_inv_def table_ok_def split: if_splits)
  moreover have "\<forall>msg\<in>sent s. \<forall>m\<in>set (mMemberlist msg). within ?b' m"
    using inv within_grows [of "own_entry s" _ k, OF _ grows] by (auto simp: net_inv_def)
  ultimately show ?thesis
    using inv n'(1) news unfolding net_inv_def own_entry_put
    by (auto simp: put_node_def split: if_splits)
qed

lemma net_inv_start:
  assumes inv: "net_inv s" and k: "nodes s k = None" "k \<notin> ID ` entries s"
    and new: "NewNode host port intro t now = Some n" "nodeID n = k"
  shows "net_inv (put_node k n [] s)"
proof -
  let ?b' = "(own_entry s)(k := view (table n) k)"
  have other: "within ?b' m" if "m \<in> entries s" "within (own_entry s) m" for m
    using that k(2) by (auto simp: within_def)
  have only: "view (table n) j = None" if "j \<noteq> k" for j
    using new that by (auto simp: NewNode_def Let_def add_new_def NewMemberList_def view_def split: if_splits)
  have own: "table_ok ?b' k (table n)"
    using NewNode_inv [OF new(1)] new(2) only by (auto simp: node_inv_def table_ok_def)
  have "table_ok ?b' j (table x)" if x: "nodes s j = Some x" for j x
  proof -
    have ok: "table_ok (own_entry s) j (table x)" using inv x by (simp add: net_inv_def)
    have "m \<in> entries s" if "view (table x) i = Some m" for i m
      using view_listed [OF that] x by (auto simp: entries_def ran_def)
    then show ?thesis using ok other by (auto simp: table_ok_def)
  qed
  moreover have "\<forall>msg\<in>sent s. \<forall>m\<in>set (mMemberlist msg). within ?b' m"
    using inv other unfolding net_inv_def entries_def by blast
  ultimately show ?thesis
    using inv own new(2) unfolding net_inv_def own_entry_put by (auto simp: put_node_def)
qed

lemma net_inv_step: "net_step s s' \<Longrightarrow> net_inv s \<Longrightarrow> net_inv s'"
proof (induction rule: net_step.induct)
  case (Start s k host port intro t now n)
  then show ?case by (intro net_inv_start)
next
  case (Handle s k n msg now sender n' out ok)
  then have "node_ok (own_entry s) n" "\<forall>m\<in>set (mMemberlist msg). within (own_entry s) m"
    by (auto simp: net_inv_def)
  with Handle show ?case by (intro net_inv_put [where n = n] good_handle)
qed (rule net_inv_put, assumption, assumption,
     rule good_join good_beat good_ping_end good_timeouts good_command good_adopt;
     (assumption | force simp: net_inv_def))+

lemma reachable_inv: "reachable s \<Longrightarrow> net_inv s"
proof (induction rule: rtranclp_induct)
  case base
  show ?case by (simp add: net_inv_def no_nodes_def)
qed (rule net_inv_step)

section \<open>What a node knows of others only advances\<close>

definition lossless :: "string \<Rightarrow> MemberList \<Rightarrow> MemberList \<Rightarrow> bool" where
  "lossless k ml ml' \<longleftrightarrow> (\<forall>j m. j \<noteq> k \<longrightarrow> view ml j = Some m \<longrightarrow>
     (\<exists>m'. view ml' j = Some m' \<and> advances m m'))"

lemma lossless_same: "view ml' = view ml \<Longrightarrow> lossless k ml ml'"
  by (simp add: lossless_def)

lemma lossless_trans: "lossless k ml ml1 \<Longrightarrow> lossless k ml1 ml2 \<Longrightarrow> lossless k ml ml2"
  unfolding lossless_def using advances_trans by blast

lemma lossless_modify:
  assumes "ml_inv ml" and "\<And>m. j \<noteq> k \<Longrightarrow> view ml j = Some m \<Longrightarrow> advances m (f m)"
  shows "lossless k ml (modify j f ml)"
  using assms by (auto simp: lossless_def view_modify)

lemma lossless_reset:
  assumes "ml_inv ml"
  shows "lossless k ml (resetOtherTime now k ml)"
proof -
  have "lossless k ml (resetOtherTime now k ml) \<and> ml_inv (resetOtherTime now k ml)"
    unfolding resetOtherTime_def
  proof (rule foldl_inv [where P = "\<lambda>ml'. lossless k ml ml' \<and> ml_inv ml'"])
    show "lossless k ml ml \<and> ml_inv ml" using assms by (simp add: lossless_same)
    fix ml' j
    assume at: "lossless k ml ml' \<and> ml_inv ml'"
    then have "lossless k ml' (modify j (\<lambda>m. m\<lparr>LastUpdateTime := now\<rparr>) ml')"
      by (intro lossless_modify) (simp_all add: advances_def)
    then show "lossless k ml (modify j (\<lambda>m. m\<lparr>LastUpdateTime := now\<rparr>) ml')
        \<and> ml_inv (modify j (\<lambda>m. m\<lparr>LastUpdateTime := now\<rparr>) ml')"
      using at lossless_trans ml_inv_modify by auto
  qed
  then show ?thesis ..
qed

lemma gossip_table:
  assumes "node_ok b n" and "fair shf"
  shows "view (table (fst (sendGossipMessage shf ms n))) = view (table n)"
  using kept_round_robin(2) [OF assms]
  by (auto simp: sendGossipMessage_def split: prod.split)

lemma lossless_gossip:
  assumes "node_ok b n" and "fair shf" and "lossless k ml (table n)"
  shows "lossless k ml (table (fst (sendGossipMessage shf ms n)))"
  using lossless_trans [OF assms(3)] lossless_same gossip_table [OF assms(1,2)] by blast

lemma lossless_switch:
  assumes ok: "node_ok b n" and "fair shf"
  shows "lossless (nodeID n) (table n) (table (fst (Switch shf now proto susp n)))"
proof -
  let ?reset = "resetOtherTime now (nodeID n) (table n)"
  let ?n = "n\<lparr>protocol := proto, suspicion := susp, table := addHeartBeat now (nodeID n) ?reset\<rparr>"
  have reset: "kept b (nodeID n) (table n) ?reset" by (rule kept_reset [OF ok])
  then have "ml_inv ?reset" and ok': "node_ok b ?n"
    using kept_beat [of b "nodeID n" ?reset now] by (simp_all add: kept_def table_ok_def)
  then have "lossless (nodeID n) ?reset (table ?n)"
    by (simp add: addHeartBeat_def lossless_modify)
  then have "lossless (nodeID n) (table n) (table ?n)"
    using lossless_trans [OF lossless_reset] ok by (simp add: table_ok_def)
  from lossless_gossip [OF ok' assms(2) this, of "getMemberList (table ?n)"]
  have sent: "lossless (nodeID n) (table n) (table (fst (sendGossipMessage shf (getMemberList (table ?n)) ?n)))" .
  have run: "Switch shf now proto susp n = (n, []) \<or> Switch shf now proto susp n = (n\<lparr>protocol := proto, suspicion := susp\<rparr>, [])
      \<or> Switch shf now proto susp n = sendGossipMessage shf (getMemberList (table ?n)) ?n"
    by (simp add: Switch_def gossip_def Let_def)
  have "lossless (nodeID n) (table n) (table n)" by (simp add: lossless_same)
  with run sent show ?thesis by (elim disjE) simp_all
qed

lemma lossless_handle:
  assumes "ml_inv (table n)" and run: "handleMessage now msg sender n = (n', out, ok)"
  shows "lossless (nodeID n) (table n) (table n')"
proof -
  let ?heard = "updateSenderTime now (mSendID msg) (table n)"
  have "ml_inv ?heard" using assms(1) by (rule ml_inv_times(2))
  then have "lossless (nodeID n) ?heard (UpdateMemberlist now (mMemberlist msg) (nodeID n) ?heard)"
    using gossip_never_regresses by (auto simp: lossless_def)
  moreover have "lossless (nodeID n) (table n) ?heard"
    unfolding updateSenderTime_def by (rule lossless_modify [OF assms(1)]) (simp add: advances_def)
  moreover have "table n' = UpdateMemberlist now (mMemberlist msg) (nodeID n) ?heard"
    using run by (auto simp: handleMessage_def Let_def dest: ack_arrives_frame split: if_splits outcome.splits)
  ultimately show ?thesis using lossless_trans by metis
qed

lemma lossless_beat:
  assumes ok: "node_ok b n" and "fair shf" and run: "heart_beat shf now n = (n', t, out)"
  shows "lossless (nodeID n) (table n) (table n')"
proof (cases "protocol n = ProtocolGossip")
  case True
  let ?n = "n\<lparr>table := addHeartBeat now (nodeID n) (table n)\<rparr>"
  have "node_ok b ?n" using kept_beat [OF ok] by (simp add: kept_def)
  moreover have "lossless (nodeID n) (table n) (table ?n)"
    using ok by (simp add: addHeartBeat_def lossless_modify table_ok_def)
  ultimately show ?thesis
    using lossless_gossip [of b ?n shf] assms(2) run True
    by (auto simp: heart_beat_def gossip_def split: prod.splits dest!: arg_cong [where f = fst])
next
  case False
  obtain sel ml where rr: "roundRobinK shf 1 (nodeID n) (table n) = (sel, ml)" by fastforce
  then show ?thesis
    using kept_round_robin(2) [OF ok assms(2) rr] run False
    by (auto simp: heart_beat_def ping_start_def Let_def lossless_same split: if_splits list.splits)
qed

lemma lossless_ping_end:
  assumes ok: "node_ok b n" and "fair shf" and run: "ping_end shf now acked susp target n = (n', out)"
  shows "lossless (nodeID n) (table n) (table n')"
proof -
  let ?new = "if susp = SuspicionTrue then Suspected else Failed"
  obtain ml upd where ch: "changeState now (ID target) Alive ?new (table n) = (ml, upd)" by fastforce
  have inv: "ml_inv (table n)" using ok by (simp add: table_ok_def)
  have "lossless (nodeID n) (table n) ml"
    using ch inv
    by (auto simp: changeState_def Let_def advances_def severity_def lossless_same intro!: lossless_modify
        split: option.splits if_splits)
  moreover have "node_ok b (n\<lparr>table := ml\<rparr>)"
    using kept_change [OF ok, of now "ID target" Alive ?new] ch by (simp add: kept_def)
  ultimately have sent: "lossless (nodeID n) (table n) (table (fst (sendGossipMessage shf upd (n\<lparr>table := ml\<rparr>))))"
    using lossless_gossip [of b "n\<lparr>table := ml\<rparr>" shf "nodeID n" "table n" upd] assms(2) by simp
  have "table n' = table n \<or> table n' = table (fst (sendGossipMessage shf upd (n\<lparr>table := ml\<rparr>)))"
    using run ch by (auto simp: ping_end_def Let_def split: if_splits prod.splits)
  with sent show ?thesis by (elim disjE) (simp_all add: lossless_same)
qed

lemma lossless_command:
  assumes ok: "node_ok b n" and "fair shf" and run: "HandleCommand shf now fs line n = (n', ans, out, cmds)"
  shows "lossless (nodeID n) (table n) (table n')"
proof -
  have leave: "lossless (nodeID n) (table n) (TurnLeave now (nodeID n) (table n))"
    using ok by (simp add: TurnLeave_def lossless_modify table_ok_def)
  have switch: "lossless (nodeID n) (table n) (table n2)" if "Switch shf now proto susp n = (n2, out2)" for proto susp n2 out2
    using lossless_switch [OF ok assms(2), of now proto susp] that by simp
  show ?thesis
    using run leave switch
    by (auto simp: HandleCommand_def lossless_same split: if_splits list.splits prod.splits)
qed

lemma lossless_adopt:
  assumes ok: "node_ok b n" and "fair shf" and run: "adopt_mode shf now ans n = (n', out)"
  shows "lossless (nodeID n) (table n) (table n')"
proof -
  have switch: "lossless (nodeID n) (table n) (table n2)" if "Switch shf now proto susp n = (n2, out2)" for proto susp n2 out2
    using lossless_switch [OF ok assms(2), of now proto susp] that by simp
  show ?thesis using run switch by (auto simp: adopt_mode_def lossless_same split: list.splits if_splits)
qed

text \<open>After a timeout round an entry has advanced, or it was failed and is gone.\<close>

lemma timeout_round_entry:
  assumes ok: "node_ok b n" and "fair shf" and run: "time_out_round shf now n = (n', out)"
    and m: "view (table n) j = Some m"
  shows "(\<exists>m'. view (table n') j = Some m' \<and> advances m m') \<or> State m = Failed \<and> view (table n') j = None"
proof -
  obtain ml failed where chk: "TimeOutCheck (protocol n) (suspicion n) now (table n) = (ml, failed)" by fastforce
  have inv: "ml_inv (table n)" using ok by (simp add: table_ok_def)
  have "node_ok b (n\<lparr>table := ml\<rparr>)"
    using kept_timeouts [OF ok, of "protocol n" "suspicion n" now] chk by (simp add: kept_def)
  note same = gossip_table [OF this assms(2), of failed]
  have "table n' = ml \<or> table n' = table (fst (sendGossipMessage shf failed (n\<lparr>table := ml\<rparr>)))"
    using run chk by (auto simp: time_out_round_def split: if_splits)
  then have "view (table n') j = tick (protocol n) (suspicion n) now (Some m)"
    using same view_TimeOutCheck [OF inv, of "protocol n" "suspicion n" now j] chk m by (elim disjE) simp_all
  then show ?thesis
    by (auto simp: tick_def expired_def advances_def age_member_def age_alive_def age_suspected_def Let_def severity_def)
qed

lemma nodes_put: "nodes (put_node k n out s) = (nodes s)(k \<mapsto> n)"
  by (simp add: put_node_def)

lemma step_entry:
  assumes "net_step s s'" and inv: "net_inv s" and k: "nodes s k = Some n" "nodes s' k = Some n'"
    and j: "j \<noteq> k" "view (table n) j = Some m"
  shows "(\<exists>m'. view (table n') j = Some m' \<and> advances m m') \<or> State m = Failed \<and> view (table n') j = None"
proof -
  have at: "nodeID n = k" "node_ok (own_entry s) n" "ml_inv (table n)"
    using inv k(1) by (auto simp: net_inv_def table_ok_def)
  have less: "\<exists>m'. view (table n') j = Some m' \<and> advances m m'" if "lossless (nodeID n) (table n) (table n')"
    using that j at(1) by (simp add: lossless_def)
  have same: "\<exists>m'. view (table n) j = Some m' \<and> advances m m'" using j(2) by simp
  from assms(1) show ?thesis
  proof (cases rule: net_step.cases)
    case (TimeOuts i n1 shf now n2 out)
    then show ?thesis
      using timeout_round_entry [OF at(2)] k j(2) same by (cases "i = k") (auto simp: nodes_put)
  next
    case (Start i host port intro t now n1)
    then show ?thesis using k same by (cases "i = k") (auto simp: nodes_put)
  next
    case (Join i n1)
    then show ?thesis using k same by (cases "i = k") (auto simp: nodes_put)
  next
    case (Handle i n1 msg now sender n2 out ok)
    then show ?thesis using k same less lossless_handle [OF at(3)] by (cases "i = k") (auto simp: nodes_put)
  next
    case (Beat i n1 shf now n2 t out)
    then show ?thesis using k same less lossless_beat [OF at(2)] by (cases "i = k") (auto simp: nodes_put)
  next
    case (PingEnd i n1 shf now acked susp target n2 out)
    then show ?thesis using k same less lossless_ping_end [OF at(2)] by (cases "i = k") (auto simp: nodes_put)
  next
    case (Command i n1 shf now fs line n2 ans out cmds)
    then show ?thesis using k same less lossless_command [OF at(2)] by (cases "i = k") (auto simp: nodes_put)
  next
    case (Adopt i n1 shf now ans n2 out)
    then show ?thesis using k same less lossless_adopt [OF at(2)] by (cases "i = k") (auto simp: nodes_put)
  qed
qed

section \<open>Properties of the network\<close>

text \<open>
  C36. No news before the member. In every state the network can reach, however messages are
  delayed, lost, duplicated, reordered or misdelivered, any entry for a member that is in some
  table or some message carries an incarnation and a heartbeat counter that the member itself
  has reached in its own table.
\<close>

theorem no_news_before_member:
  assumes "reachable s" and "m \<in> entries s"
    and "nodes s (ID m) = Some n" and "view (table n) (ID m) = Some own"
  shows "Incarnation m \<le> Incarnation own \<and> HeartBeatCounter m \<le> HeartBeatCounter own"
proof -
  have inv: "net_inv s" by (rule reachable_inv [OF assms(1)])
  have own: "own_entry s (ID m) = Some own" using assms(3,4) by (simp add: own_entry_def)
  have "within (own_entry s) m"
  proof (cases "\<exists>msg\<in>sent s. m \<in> set (mMemberlist msg)")
    case True
    then show ?thesis using inv by (auto simp: net_inv_def)
  next
    case False
    then obtain k x where x: "nodes s k = Some x" "m \<in> set (getMemberList (table x))"
      using assms(2) by (auto simp: entries_def ran_def)
    then have ok: "table_ok (own_entry s) k (table x)" using inv by (auto simp: net_inv_def)
    then have at: "view (table x) (ID m) = Some m" using listed_view x(2) by (auto simp: table_ok_def)
    show ?thesis
    proof (cases "ID m = k")
      case True
      then show ?thesis using at own x(1) by (simp add: own_entry_def within_def)
    next
      case False
      then show ?thesis using ok at by (auto simp: table_ok_def)
    qed
  qed
  then show ?thesis using own by (simp add: within_def)
qed

text \<open>Two machines of the address table: one starts, the other joins it.\<close>

definition nodeA :: gnode where "nodeA = the (NewNode ''172.22.155.16'' ''1'' [] 1 0)"
definition nodeB :: gnode where "nodeB = the (NewNode ''172.22.159.16'' ''1'' ''172.22.155.16:1'' 2 0)"

lemma new_nodes:
  "NewNode ''172.22.155.16'' ''1'' [] 1 0 = Some nodeA" "nodeID nodeA = ''172.22.155.16:1:1''"
  "NewNode ''172.22.159.16'' ''1'' ''172.22.155.16:1'' 2 0 = Some nodeB" "nodeID nodeB = ''172.22.159.16:1:2''"
proof -
  have some: "NewNode ''172.22.155.16'' ''1'' [] 1 0 \<noteq> None" "NewNode ''172.22.159.16'' ''1'' ''172.22.155.16:1'' 2 0 \<noteq> None"
    by (simp_all add: NewNode_def Let_def IpToVMName_def)
  then show "NewNode ''172.22.155.16'' ''1'' [] 1 0 = Some nodeA"
    "NewNode ''172.22.159.16'' ''1'' ''172.22.155.16:1'' 2 0 = Some nodeB"
    by (auto simp: nodeA_def nodeB_def)
  show "nodeID nodeA = ''172.22.155.16:1:1''" "nodeID nodeB = ''172.22.159.16:1:2''" by code_simp+
qed

definition joined_net :: net_state where
  "joined_net =
     (let s1 = put_node (nodeID nodeA) nodeA [] no_nodes;
          s2 = put_node (nodeID nodeB) nodeB [] s1;
          s3 = put_node (nodeID nodeB) nodeB (join_message nodeB) s2;
          (a, out, ok) = handleMessage 5 (snd (hd (join_message nodeB))) ''172.22.159.16:1'' nodeA
      in put_node (nodeID nodeA) a out s3)"

lemma joined_net_reachable: "reachable joined_net"
proof -
  define s1 where "s1 = put_node (nodeID nodeA) nodeA [] no_nodes"
  define s2 where "s2 = put_node (nodeID nodeB) nodeB [] s1"
  define s3 where "s3 = put_node (nodeID nodeB) nodeB (join_message nodeB) s2"
  obtain a out ok where h: "handleMessage 5 (snd (hd (join_message nodeB))) ''172.22.159.16:1'' nodeA = (a, out, ok)"
    by (metis prod_cases3)
  have "net_step no_nodes s1"
    unfolding s1_def by (rule Start [OF _ _ new_nodes(1) refl]) (simp_all add: no_nodes_def entries_def)
  moreover have "map ID (getMemberList (table nodeA)) = [''172.22.155.16:1:1'']" by code_simp
  then have "entries s1 \<subseteq> {m. ID m = ''172.22.155.16:1:1''}"
    by (auto simp: s1_def entries_def put_node_def no_nodes_def)
  then have "net_step s1 s2"
    unfolding s2_def by (intro Start [OF _ _ new_nodes(3) refl])
      (auto simp: s1_def nodes_put no_nodes_def new_nodes(2,4))
  moreover have "net_step s2 s3" unfolding s3_def by (rule Join) (simp add: s2_def nodes_put)
  moreover have "join_message nodeB \<noteq> []" by code_simp
  then have "snd (hd (join_message nodeB)) \<in> sent s3" by (simp add: s3_def put_node_def)
  then have "net_step s3 (put_node (nodeID nodeA) a out s3)"
    by (intro Handle [OF _ _ h]) (simp_all add: s3_def s2_def s1_def nodes_put new_nodes(2,4))
  moreover have "joined_net = put_node (nodeID nodeA) a out s3"
    by (simp add: joined_net_def Let_def h s3_def s2_def s1_def)
  ultimately show ?thesis by (metis converse_rtranclp_into_rtranclp rtranclp.rtrancl_refl)
qed

theorem no_news_before_member_witness:
  "\<exists>m own. m \<in> entries joined_net \<and> ID m = ''172.22.159.16:1:2'' \<and> m \<in> set (getMemberList (table (the (nodes joined_net ''172.22.155.16:1:1''))))
    \<and> own_entry joined_net (ID m) = Some own
    \<and> Incarnation m \<le> Incarnation own \<and> HeartBeatCounter m \<le> HeartBeatCounter own"
proof -
  have "find (\<lambda>m. ID m = ''172.22.159.16:1:2'') (getMemberList (table (the (nodes joined_net ''172.22.155.16:1:1'')))) \<noteq> None"
    by code_simp
  then obtain m where m: "m \<in> set (getMemberList (table (the (nodes joined_net ''172.22.155.16:1:1''))))"
    "ID m = ''172.22.159.16:1:2''"
    by (auto simp: find_None_iff)
  have "nodes joined_net ''172.22.155.16:1:1'' \<noteq> None" "nodes joined_net ''172.22.159.16:1:2'' = Some nodeB"
    by (auto simp: joined_net_def Let_def nodes_put new_nodes split: prod.split)
  moreover then have "m \<in> entries joined_net" using m by (auto simp: entries_def ran_def)
  moreover have "view (table nodeB) ''172.22.159.16:1:2'' \<noteq> None" by code_simp
  then obtain own where "view (table nodeB) (ID m) = Some own" using m(2) by auto
  ultimately show ?thesis
    using no_news_before_member [OF joined_net_reachable, of m nodeB own] m by (auto simp: own_entry_def)
qed

text \<open>
  C15. What a node knows of another member only advances. In one step of the network, whatever
  it is, a node's entry for another member moves up in the order incarnation, then alive,
  suspected, leaving, failed, then heartbeat; the only other thing that can happen to it is
  that a failed entry is removed.
\<close>

theorem knowledge_only_advances:
  assumes "reachable s" and "net_step s s'" and "nodes s k = Some n" and "nodes s' k = Some n'"
    and "j \<noteq> k" and "view (table n) j = Some m"
  shows "(\<exists>m'. view (table n') j = Some m' \<and> advances m m') \<or> State m = Failed \<and> view (table n') j = None"
  using step_entry [OF assms(2) reachable_inv [OF assms(1)]] assms(3-6) by blast

theorem knowledge_only_advances_witness:
  "\<exists>n' m'. nodes (put_node (nodeID nodeA) n' [] joined_net) (nodeID nodeA) = Some n' \<and>
    time_out_round (\<lambda>_ xs. xs) 9 (the (nodes joined_net (nodeID nodeA))) = (n', []) \<and>
    view (table n') ''172.22.159.16:1:2'' = Some m'"
proof -
  let ?n = "the (nodes joined_net (nodeID nodeA))"
  obtain n' out where run: "time_out_round (\<lambda>_ xs. xs) 9 ?n = (n', out)" by fastforce
  have n: "nodes joined_net (nodeID nodeA) = Some ?n"
    by (auto simp: joined_net_def Let_def nodes_put split: prod.split)
  have "fair (\<lambda>_ xs. xs)" by (simp add: fair_def shuffler_def)
  then have step: "net_step joined_net (put_node (nodeID nodeA) n' out joined_net)"
    by (intro TimeOuts [OF n _ run])
  have "map_option State (view (table ?n) ''172.22.159.16:1:2'') = Some Alive" by code_simp
  then obtain m where m: "view (table ?n) ''172.22.159.16:1:2'' = Some m" "State m = Alive" by auto
  have "''172.22.159.16:1:2'' \<noteq> nodeID nodeA" by (simp add: new_nodes)
  moreover have "nodes (put_node (nodeID nodeA) n' out joined_net) (nodeID nodeA) = Some n'" by (simp add: nodes_put)
  ultimately have "\<exists>m'. view (table n') ''172.22.159.16:1:2'' = Some m'"
    using knowledge_only_advances [OF joined_net_reachable step n _ _ m(1)] m(2) by auto
  moreover have "snd (time_out_round (\<lambda>_ xs. xs) 9 ?n) = []" by code_simp
  ultimately show ?thesis using run by (auto simp: nodes_put)
qed

text \<open>
  C7. In every reachable state each node keeps its own identity and a sound table: its member
  list names every member once, every entry is found under the member's ID, and a ping never
  picks the node itself.
\<close>

theorem reachable_tables_sound:
  assumes "reachable s" and "nodes s k = Some n" and "fair shf"
  shows "nodeID n = k \<and> distinct (map ID (getMemberList (table n)))
    \<and> (\<forall>m\<in>set (getMemberList (table n)). view (table n) (ID m) = Some m)
    \<and> (\<forall>n' target out. ping_start shf n = (n', Some target, out) \<longrightarrow> ID target \<noteq> k)"
proof -
  have ok: "nodeID n = k" "table_ok (own_entry s) k (table n)"
    using reachable_inv [OF assms(1)] assms(2) by (auto simp: net_inv_def)
  then have inv: "ml_inv (table n)" "rr_ok k (table n)" by (simp_all add: table_ok_def)
  have "ID target \<noteq> k" if ping: "ping_start shf n = (n', Some target, out)" for n' target out
  proof -
    obtain p rest ml where rr: "roundRobinK shf 1 (nodeID n) (table n) = (p # rest, ml)" "target = heap ml p"
      using ping by (auto simp: ping_start_def Let_def split: prod.splits list.splits)
    have "rr_result k (table n) (p # rest, ml)"
      using roundRobinK_ok [of shf "table n" k 1] inv rr(1) ok(1) assms(3) by (simp add: fair_def)
    then show ?thesis using rr(2) by (simp add: rr_result_def)
  qed
  moreover have "distinct (map ID (getMemberList (table n)))"
    using inv(1) by (simp add: getMemberList_IDs ml_inv_def)
  ultimately show ?thesis using ok(1) listed_view [OF inv(1)] by blast
qed

theorem reachable_tables_sound_witness:
  "\<exists>n target out n'. nodes joined_net (nodeID nodeA) = Some n \<and> distinct (map ID (getMemberList (table n))) \<and>
    ping_start (\<lambda>_ xs. xs) n = (n', Some target, out) \<and> ID target \<noteq> nodeID nodeA"
proof -
  let ?n = "the (nodes joined_net (nodeID nodeA))"
  have n: "nodes joined_net (nodeID nodeA) = Some ?n"
    by (auto simp: joined_net_def Let_def nodes_put split: prod.split)
  have "fair (\<lambda>_ xs. xs)" by (simp add: fair_def shuffler_def)
  note sound = reachable_tables_sound [OF joined_net_reachable n this]
  have "map_option ID (fst (snd (ping_start (\<lambda>_ xs. xs) ?n))) = Some ''172.22.159.16:1:2''" by code_simp
  then obtain n' target out where "ping_start (\<lambda>_ xs. xs) ?n = (n', Some target, out)"
    by (metis option.map_disc_iff option.distinct(1) option.exhaust prod.collapse)
  then show ?thesis using sound n by blast
qed

end
