(* ===== verification/Wire.thy ===== *)
theory Wire
  imports GossipNet LogCodec
begin

text \<open>
  Gossip messages as datagrams: \<^verbatim>\<open>message.Message\<close> and \<^verbatim>\<open>member.Member\<close> through \<^verbatim>\<open>encoding/json\<close>,
  \<^verbatim>\<open>nodeSendMessage\<close> and the receiving loop \<^verbatim>\<open>listenMessage\<close> with its fixed buffer. The text of a time
  stamp (its calendar and zone) is an argument of the definitions: a function that writes a time and one
  that reads it. Locale \<open>codec\<close> is the contract of an encoding that can be read back and of a reader
  that does not depend on what follows; it is interpreted on strings, numbers, members, lists of
  members and messages. Then: what arrives is what was sent, a datagram that does not fit the buffer
  is dropped as a whole, and hearing datagrams is a step of the gossip network or nothing.
\<close>

section \<open>Readers\<close>

type_synonym 'a reader = "string \<Rightarrow> ('a \<times> string) option"

definition and_then :: "'a reader \<Rightarrow> ('a \<Rightarrow> 'b reader) \<Rightarrow> 'b reader" where
  "and_then p f s = Option.bind (p s) (\<lambda>(x, r). f x r)"

definition literal :: "string \<Rightarrow> unit reader" where
  "literal l s = map_option (Pair ()) (strip l s)"

definition result :: "'a \<Rightarrow> 'a reader" where
  "result x s = Some (x, s)"

text \<open>
  A reader settles when what it finds is a beginning of its input and does not depend on what
  follows that beginning.
\<close>

definition settles :: "'a reader \<Rightarrow> bool" where
  "settles p \<longleftrightarrow>
     (\<forall>s x r. p s = Some (x, r) \<longrightarrow> (\<exists>c. s = c @ r \<and> (\<forall>t. p (c @ t) = Some (x, t))))"

lemma settlesI:
  "(\<And>s x r. p s = Some (x, r) \<Longrightarrow> \<exists>c. s = c @ r \<and> (\<forall>t. p (c @ t) = Some (x, t))) \<Longrightarrow> settles p"
  by (simp add: settles_def)

lemma settlesD:
  "settles p \<Longrightarrow> p s = Some (x, r) \<Longrightarrow> \<exists>c. s = c @ r \<and> (\<forall>t. p (c @ t) = Some (x, t))"
  unfolding settles_def by blast

lemma settles_extends: "settles p \<Longrightarrow> p s = Some (x, r) \<Longrightarrow> p (s @ t) = Some (x, r @ t)"
  using settlesD [of p s x r] by auto

lemma settles_shrinks: "settles p \<Longrightarrow> p s = Some (x, r) \<Longrightarrow> length r \<le> length s"
  using settlesD [of p s x r] by auto

lemma reader_simps [simp]:
  "and_then (literal l) f (l @ s) = f () s"
  "and_then (result x) g = g x"
  "result y s = Some (y, s)"
  by (simp_all add: and_then_def literal_def result_def fun_eq_iff)

lemma strip_Some: "strip l s = Some r \<longleftrightarrow> s = l @ r"
  by (auto simp: strip_def has_prefix_iff)

lemma settles_and_then [intro]:
  assumes "settles p" and "\<And>x. settles (f x)"
  shows "settles (and_then p f)"
proof (rule settlesI)
  fix s y r
  assume "and_then p f s = Some (y, r)"
  then obtain x r1 where p: "p s = Some (x, r1)" and f: "f x r1 = Some (y, r)"
    by (auto simp: and_then_def bind_eq_Some_conv)
  from settlesD [OF assms(1) p] obtain c1 where c1: "s = c1 @ r1" "\<And>t. p (c1 @ t) = Some (x, t)" by blast
  from settlesD [OF assms(2) f] obtain c2 where c2: "r1 = c2 @ r" "\<And>t. f x (c2 @ t) = Some (y, t)" by blast
  have "s = (c1 @ c2) @ r \<and> (\<forall>t. and_then p f ((c1 @ c2) @ t) = Some (y, t))"
    using c1 c2 by (simp add: and_then_def)
  then show "\<exists>c. s = c @ r \<and> (\<forall>t. and_then p f (c @ t) = Some (y, t))" ..
qed

lemma settles_parts [intro]: "settles (literal l)" "settles (result x)"
  by (auto simp: settles_def literal_def result_def strip_Some)

section \<open>The contract of an encoding\<close>

locale codec =
  fixes enc :: "'a \<Rightarrow> string" and dec :: "'a reader" and norm :: "'a \<Rightarrow> 'a" and fits :: "'a \<Rightarrow> bool"
  assumes dec_enc: "fits x \<Longrightarrow> dec (enc x @ r) = Some (norm x, r)"
    and settled: "settles dec"
begin

lemma whole: "fits x \<Longrightarrow> dec (enc x) = Some (norm x, [])"
  using dec_enc [of x "[]"] by simp

lemma cut_rejected:
  assumes "fits x" and "n < length (enc x)"
  shows "dec (take n (enc x)) = None"
proof (cases "dec (take n (enc x))")
  case (Some p)
  then obtain y r where "dec (take n (enc x)) = Some (y, r)" by (cases p) auto
  from settles_extends [OF settled this, of "drop n (enc x)"] whole [OF assms(1)] assms(2)
  show ?thesis by simp
qed

lemma prefix_free:
  assumes "fits x" and "fits y" and "enc x @ r = enc y @ r'"
  shows "norm x = norm y \<and> r = r'"
  using dec_enc [OF assms(1), of r] dec_enc [OF assms(2), of r'] assms(3) by simp

end

section \<open>Strings and numbers\<close>

definition read_string :: "string reader" where
  "read_string = and_then (literal [DQ]) (\<lambda>_. json_unquote)"

text \<open>The numbers of a member stand before a comma, which the reader takes with them.\<close>

definition read_number :: "int reader" where
  "read_number s =
     (let d = takeWhile (\<lambda>c. c \<noteq> CHR '','') s
      in case dropWhile (\<lambda>c. c \<noteq> CHR '','') s of
           [] \<Rightarrow> None
         | _ # r \<Rightarrow> map_option (\<lambda>i. (i, r)) (atoi d))"

definition int64 :: "int \<Rightarrow> bool" where
  "int64 i \<longleftrightarrow> - (2 ^ 63) \<le> i \<and> i < 2 ^ 63"

text \<open>One character of a JSON string, escaped or not, and what it takes of the input.\<close>

lemma json_unquote_step:
  assumes "json_unquote s = Some (x, r)"
  shows "s = DQ # r \<and> x = [] \<or>
    (\<exists>pre rest y ch. s = pre @ rest \<and> pre \<noteq> [] \<and> x = ch # y \<and> json_unquote rest = Some (y, r)
      \<and> (\<forall>t. json_unquote (pre @ t) = map_option (apfst ((#) ch)) (json_unquote t)))"
proof -
  obtain c s1 where s: "s = c # s1" using assms by (cases s) auto
  have step: "?thesis" if "s = pre @ rest" "pre \<noteq> []"
    "\<And>t. json_unquote (pre @ t) = map_option (apfst ((#) ch)) (json_unquote t)" for pre rest ch
  proof -
    have "map_option (apfst ((#) ch)) (json_unquote rest) = Some (x, r)" using assms that(1,3) by simp
    then obtain y where "json_unquote rest = Some (y, r)" "x = ch # y" by auto
    with that show ?thesis by blast
  qed
  consider "c = DQ" | "c \<noteq> DQ" "c \<noteq> CHR 0x5C" | "c = CHR 0x5C" by blast
  then show ?thesis
  proof cases
    case 1
    then show ?thesis using assms s by simp
  next
    case 2
    then show ?thesis using s by (intro step [of "[c]" s1 c]) simp_all
  next
    case 3
    then obtain e s2 where s1: "s1 = e # s2" using assms s by (cases s1) auto
    show ?thesis
    proof (cases "e = CHR ''u''")
      case False
      then show ?thesis using 3 s s1 by (intro step [of "[c, e]" s2]) auto
    next
      case True
      then obtain z1 z2 h l s3 h' l' where "s2 = z1 # z2 # h # l # s3" "hex_val h = Some h'" "hex_val l = Some l'"
        "z1 = CHR ''0''" "z2 = CHR ''0''"
        using assms s s1 3 by (auto split: list.splits option.splits if_splits)
      then show ?thesis using True 3 s s1 by (intro step [of "[c, e, z1, z2, h, l]" s3]) auto
    qed
  qed
qed

lemma settles_json_unquote: "settles json_unquote"
proof -
  have "\<exists>c. s = c @ r \<and> (\<forall>t. json_unquote (c @ t) = Some (x, t))" if "json_unquote s = Some (x, r)" for s x r
    using that
  proof (induction "length s" arbitrary: s x rule: less_induct)
    case less
    from json_unquote_step [OF less.prems] show ?case
    proof (elim disjE exE conjE)
      assume "s = DQ # r" "x = []"
      then have "s = [DQ] @ r \<and> (\<forall>t. json_unquote ([DQ] @ t) = Some (x, t))" by simp
      then show ?thesis ..
    next
      fix pre rest y ch
      assume s: "s = pre @ rest" and p: "pre \<noteq> []" and x: "x = ch # y"
        and rest: "json_unquote rest = Some (y, r)"
        and pre: "\<forall>t. json_unquote (pre @ t) = map_option (apfst ((#) ch)) (json_unquote t)"
      from s p have "length rest < length s" by simp
      from less.hyps [OF this rest] obtain c
        where c: "rest = c @ r" "\<forall>t. json_unquote (c @ t) = Some (y, t)" by blast
      have "s = (pre @ c) @ r \<and> (\<forall>t. json_unquote ((pre @ c) @ t) = Some (x, t))"
        using s x pre c by simp
      then show ?thesis ..
    qed
  qed
  then show ?thesis by (rule settlesI)
qed

lemma read_string_quote: "read_string (json_quote s @ r) = Some (s, r)"
proof -
  have "json_quote s @ r = [DQ] @ concat (map json_esc s) @ DQ # r" by (simp add: json_quote_def)
  then show ?thesis by (simp only: read_string_def reader_simps json_unquote_quote)
qed

lemma read_number_show:
  assumes "int64 i"
  shows "read_number ((show_int i @ '','') @ r) = Some (i, r)"
proof -
  have "\<forall>c\<in>set (show_int i). c \<noteq> CHR '',''"
    using show_int_no [of "CHR '',''" i] by (auto simp: digit_val_def)
  then have "takeWhile (\<lambda>c. c \<noteq> CHR '','') (show_int i @ CHR '','' # r) = show_int i"
    "dropWhile (\<lambda>c. c \<noteq> CHR '','') (show_int i @ CHR '','' # r) = CHR '','' # r"
    by (simp_all add: takeWhile_append2 dropWhile_append2)
  then show ?thesis
    using atoi_show_int [of i] assms by (simp add: read_number_def int64_def)
qed

lemma settles_read_number: "settles read_number"
proof (rule settlesI)
  fix s x r
  let ?P = "\<lambda>c. c \<noteq> CHR '',''"
  assume read: "read_number s = Some (x, r)"
  then obtain c where drop: "dropWhile ?P s = c # r" and d: "atoi (takeWhile ?P s) = Some x"
    by (auto simp: read_number_def Let_def split: list.splits)
  have c: "c = CHR '',''" using hd_dropWhile [of ?P s] drop by simp
  have s: "s = takeWhile ?P s @ c # r" using drop takeWhile_dropWhile_id [of ?P s] by simp
  have all: "\<And>c. c \<in> set (takeWhile ?P s) \<Longrightarrow> ?P c" by (auto dest: set_takeWhileD)
  have "takeWhile ?P (takeWhile ?P s @ c # t) = takeWhile ?P s \<and>
      dropWhile ?P (takeWhile ?P s @ c # t) = c # t" for t
    using c all by (simp add: takeWhile_append2 dropWhile_append2)
  then have "read_number ((takeWhile ?P s @ [c]) @ t) = Some (x, t)" for t
    using d by (simp add: read_number_def)
  with s show "\<exists>u. s = u @ r \<and> (\<forall>t. read_number (u @ t) = Some (x, t))"
    by (intro exI [of _ "takeWhile ?P s @ [c]"]) simp
qed

interpretation str: codec json_quote read_string id "\<lambda>_. True"
  by unfold_locales (simp add: read_string_quote,
    unfold read_string_def, intro settles_and_then settles_parts settles_json_unquote)

interpretation num: codec "\<lambda>i. show_int i @ '',''" read_number id int64
  by unfold_locales (simp_all only: read_number_show settles_read_number id_apply)

section \<open>Members\<close>

definition json_key :: "string \<Rightarrow> string" where
  "json_key k = json_quote k @ '':''"

definition member_json :: "(int \<Rightarrow> string) \<Rightarrow> member \<Rightarrow> string" where
  "member_json showTime m =
     ''{'' @ json_key ''id'' @ json_quote (ID m)
     @ '','' @ json_key ''addr'' @ json_quote (Address m)
     @ '','' @ json_key ''heartbeatcounter'' @ show_int (HeartBeatCounter m)
     @ '','' @ json_key ''incarnation'' @ show_int (Incarnation m)
     @ '','' @ json_key ''state'' @ json_quote (State m)
     @ '','' @ json_key ''lastupdatetime'' @ json_quote (showTime (LastUpdateTime m)) @ ''}''"

definition read_time :: "(string \<Rightarrow> int option) \<Rightarrow> int reader" where
  "read_time parseTime s =
     Option.bind (read_string s) (\<lambda>(w, r). map_option (\<lambda>t. (t, r)) (parseTime w))"

text \<open>Reads the fields in the order in which they are written.\<close>

definition read_member :: "(string \<Rightarrow> int option) \<Rightarrow> member reader" where
  "read_member parseTime =
     and_then (literal (''{'' @ json_key ''id'')) (\<lambda>_. and_then read_string (\<lambda>i.
     and_then (literal ('','' @ json_key ''addr'')) (\<lambda>_. and_then read_string (\<lambda>a.
     and_then (literal ('','' @ json_key ''heartbeatcounter'')) (\<lambda>_. and_then read_number (\<lambda>h.
     and_then (literal (json_key ''incarnation'')) (\<lambda>_. and_then read_number (\<lambda>n.
     and_then (literal (json_key ''state'')) (\<lambda>_. and_then read_string (\<lambda>st.
     and_then (literal ('','' @ json_key ''lastupdatetime'')) (\<lambda>_. and_then (read_time parseTime) (\<lambda>t.
     and_then (literal ''}'') (\<lambda>_.
       result \<lparr>ID = i, Address = a, HeartBeatCounter = h, Incarnation = n, State = st,
               LastUpdateTime = t\<rparr>)))))))))))))"

text \<open>What can be written: counters of 64 bits and a time whose text can be read.\<close>

definition member_fits :: "(int \<Rightarrow> string) \<Rightarrow> (string \<Rightarrow> int option) \<Rightarrow> member \<Rightarrow> bool" where
  "member_fits showTime parseTime m \<longleftrightarrow>
     int64 (HeartBeatCounter m) \<and> int64 (Incarnation m) \<and> parseTime (showTime (LastUpdateTime m)) \<noteq> None"

text \<open>What arrives: the time as its text gives it (the text need not hold all of it).\<close>

definition as_read :: "(int \<Rightarrow> string) \<Rightarrow> (string \<Rightarrow> int option) \<Rightarrow> member \<Rightarrow> member" where
  "as_read showTime parseTime m =
     (case parseTime (showTime (LastUpdateTime m)) of None \<Rightarrow> m | Some t \<Rightarrow> m\<lparr>LastUpdateTime := t\<rparr>)"

lemma and_then_string [simp]: "and_then read_string f (json_quote s @ r) = f s r"
  by (simp add: and_then_def read_string_quote)

lemma and_then_number [simp]: "int64 i \<Longrightarrow> and_then read_number f (show_int i @ CHR '','' # r) = f i r"
  using read_number_show [of i r] by (simp add: and_then_def)

lemma and_then_time:
  "parseTime w = Some t \<Longrightarrow> and_then (read_time parseTime) f (json_quote w @ r) = f t r"
  by (simp add: and_then_def read_time_def read_string_quote)

lemma literal_two [simp]: "and_then (literal (a @ b)) f (a @ b @ s) = f () s"
  using reader_simps(1) [of "a @ b" f s] by simp

lemma literal_char [simp]:
  "and_then (literal (c # b)) f (c # b @ s) = f () s" "and_then (literal [c]) f (c # s) = f () s"
  using reader_simps(1) [of "c # b" f s] reader_simps(1) [of "[c]" f s] by simp_all

lemma read_member_json:
  assumes "member_fits sh pa m"
  shows "read_member pa (member_json sh m @ r) = Some (as_read sh pa m, r)"
  using assms
  by (cases m) (auto simp: read_member_def member_json_def member_fits_def as_read_def and_then_time)

lemma settles_read_time: "settles (read_time pa)"
proof -
  have "read_time pa = and_then read_string (\<lambda>w s. map_option (\<lambda>t. (t, s)) (pa w))"
    by (simp add: read_time_def and_then_def fun_eq_iff)
  moreover have "settles (\<lambda>s. map_option (\<lambda>t. (t, s)) (pa w))" for w
    by (auto simp: settles_def)
  ultimately show ?thesis using str.settled by auto
qed

lemma settles_read_member: "settles (read_member pa)"
  unfolding read_member_def
  by (intro settles_and_then settles_parts str.settled num.settled settles_read_time)

interpretation mem: codec "member_json sh" "read_member pa" "as_read sh pa" "member_fits sh pa" for sh pa
  by unfold_locales (simp_all add: read_member_json settles_read_member)

section \<open>Lists of members and messages\<close>

fun items_json :: "(int \<Rightarrow> string) \<Rightarrow> member list \<Rightarrow> string" where
  "items_json sh [] = '']''"
| "items_json sh [m] = member_json sh m @ '']''"
| "items_json sh (m # ms) = member_json sh m @ '','' @ items_json sh ms"

definition members_json :: "(int \<Rightarrow> string) \<Rightarrow> member list \<Rightarrow> string" where
  "members_json sh ms = ''['' @ items_json sh ms"

function read_items :: "(string \<Rightarrow> int option) \<Rightarrow> member list reader" where
  "read_items pa s =
     (case read_member pa s of
        None \<Rightarrow> None
      | Some (m, r) \<Rightarrow>
          (case r of
             [] \<Rightarrow> None
           | c # r1 \<Rightarrow>
               if c = CHR '','' then map_option (apfst ((#) m)) (read_items pa r1)
               else if c = CHR '']'' then Some ([m], r1)
               else None))"
  by pat_completeness auto

termination
  by (relation "measure (length \<circ> snd)")
    (auto dest!: settles_shrinks [OF settles_read_member])

declare read_items.simps [simp del]

definition read_members :: "(string \<Rightarrow> int option) \<Rightarrow> member list reader" where
  "read_members pa =
     and_then (literal ''['') (\<lambda>_ s.
       case s of
         [] \<Rightarrow> None
       | c # r \<Rightarrow> if c = CHR '']'' then Some ([], r) else read_items pa s)"

definition message_json :: "(int \<Rightarrow> string) \<Rightarrow> message \<Rightarrow> string" where
  "message_json sh msg =
     ''{'' @ json_key ''type'' @ json_quote (mType msg)
     @ '','' @ json_key ''memberlist'' @ members_json sh (mMemberlist msg)
     @ '','' @ json_key ''sendid'' @ json_quote (mSendID msg) @ ''}''"

definition read_message :: "(string \<Rightarrow> int option) \<Rightarrow> message reader" where
  "read_message pa =
     and_then (literal (''{'' @ json_key ''type'')) (\<lambda>_. and_then read_string (\<lambda>ty.
     and_then (literal ('','' @ json_key ''memberlist'')) (\<lambda>_. and_then (read_members pa) (\<lambda>ms.
     and_then (literal ('','' @ json_key ''sendid'')) (\<lambda>_. and_then read_string (\<lambda>i.
     and_then (literal ''}'') (\<lambda>_.
       result \<lparr>mType = ty, mMemberlist = ms, mSendID = i\<rparr>)))))))"

definition members_fit :: "(int \<Rightarrow> string) \<Rightarrow> (string \<Rightarrow> int option) \<Rightarrow> member list \<Rightarrow> bool" where
  "members_fit sh pa ms \<longleftrightarrow> list_all (member_fits sh pa) ms"

definition message_as_read :: "(int \<Rightarrow> string) \<Rightarrow> (string \<Rightarrow> int option) \<Rightarrow> message \<Rightarrow> message" where
  "message_as_read sh pa msg = msg\<lparr>mMemberlist := map (as_read sh pa) (mMemberlist msg)\<rparr>"

lemma read_items_json:
  assumes "ms \<noteq> []" and "list_all (member_fits sh pa) ms"
  shows "read_items pa (items_json sh ms @ r) = Some (map (as_read sh pa) ms, r)"
  using assms
proof (induction sh ms rule: items_json.induct)
  case (2 sh m)
  then show ?case by (subst read_items.simps) (simp add: mem.dec_enc)
next
  case (3 sh m m' ms)
  then show ?case by (subst read_items.simps) (simp add: mem.dec_enc)
qed simp

lemma items_json_head: "ms \<noteq> [] \<Longrightarrow> \<exists>s. items_json sh ms = CHR ''{'' # s"
  by (cases "(sh, ms)" rule: items_json.cases) (simp_all add: member_json_def)

lemma read_members_json:
  assumes "members_fit sh pa ms"
  shows "read_members pa (members_json sh ms @ r) = Some (map (as_read sh pa) ms, r)"
proof (cases "ms = []")
  case False
  then obtain s where "items_json sh ms = CHR ''{'' # s" using items_json_head by blast
  with False show ?thesis
    using read_items_json [of ms sh pa r] assms by (simp add: read_members_def members_json_def members_fit_def)
qed (simp add: read_members_def members_json_def)

lemma settles_read_items: "settles (read_items pa)"
proof -
  have "\<exists>c. s = c @ r \<and> (\<forall>t. read_items pa (c @ t) = Some (ms, t))" if "read_items pa s = Some (ms, r)" for s ms r
    using that
  proof (induction pa s arbitrary: ms rule: read_items.induct)
    case (1 pa s)
    from 1(2) obtain m d s1 where m: "read_member pa s = Some (m, d # s1)"
      and rest: "if d = CHR '','' then map_option (apfst ((#) m)) (read_items pa s1) = Some (ms, r)
        else d = CHR '']'' \<and> ms = [m] \<and> r = s1"
      by (subst (asm) read_items.simps) (auto split: option.splits list.splits if_splits)
    from settlesD [OF settles_read_member m] obtain c where
      c: "s = c @ d # s1" "\<And>t. read_member pa (c @ t) = Some (m, t)" by blast
    show ?case
    proof (cases "d = CHR '',''")
      case False
      with rest c have "s = (c @ '']'') @ r \<and> (\<forall>t. read_items pa ((c @ '']'') @ t) = Some (ms, t))"
        by (simp add: read_items.simps)
      then show ?thesis ..
    next
      case True
      with rest obtain ms' where ms': "read_items pa s1 = Some (ms', r)" "ms = m # ms'" by auto
      from 1(1) [OF m refl refl True ms'(1)] obtain c' where
        c': "s1 = c' @ r" "\<forall>t. read_items pa (c' @ t) = Some (ms', t)" by blast
      have "read_items pa ((c @ '','' @ c') @ t) = Some (ms, t)" for t
        using c c' ms' by (subst read_items.simps) simp
      then have "s = (c @ '','' @ c') @ r \<and> (\<forall>t. read_items pa ((c @ '','' @ c') @ t) = Some (ms, t))"
        using c c' True by simp
      then show ?thesis ..
    qed
  qed
  then show ?thesis by (rule settlesI)
qed

lemma settles_read_members: "settles (read_members pa)"
proof -
  let ?f = "\<lambda>s. case s of [] \<Rightarrow> None | c # r \<Rightarrow> if c = CHR '']'' then Some ([], r) else read_items pa s"
  have "settles ?f"
  proof (rule settlesI)
    fix s ms r
    assume f: "?f s = Some (ms, r)"
    show "\<exists>c. s = c @ r \<and> (\<forall>t. ?f (c @ t) = Some (ms, t))"
    proof (cases "read_items pa s = Some (ms, r) \<and> hd s \<noteq> CHR '']'' \<and> s \<noteq> []")
      case False
      with f have "s = '']'' @ r \<and> (\<forall>t. ?f ('']'' @ t) = Some (ms, t))"
        by (auto split: list.splits if_splits)
      then show ?thesis ..
    next
      case True
      with settlesD [OF settles_read_items] obtain c where
        c: "s = c @ r" "\<forall>t. read_items pa (c @ t) = Some (ms, t)" by blast
      have "read_items pa [] = None"
        by (subst read_items.simps) (simp add: read_member_def and_then_def literal_def strip_def has_prefix_def)
      with c(2) [rule_format, of "[]"] have "c \<noteq> []" by auto
      with c True have "s = c @ r \<and> (\<forall>t. ?f (c @ t) = Some (ms, t))" by (cases c) auto
      then show ?thesis ..
    qed
  qed
  then show ?thesis unfolding read_members_def by (intro settles_and_then settles_parts)
qed

interpretation mems: codec "members_json sh" "read_members pa" "map (as_read sh pa)" "members_fit sh pa" for sh pa
  by unfold_locales (simp_all add: read_members_json settles_read_members)

lemma and_then_members:
  "members_fit sh pa ms \<Longrightarrow> and_then (read_members pa) f (members_json sh ms @ r) = f (map (as_read sh pa) ms) r"
  by (simp add: and_then_def read_members_json)

lemma read_message_json:
  assumes "members_fit sh pa (mMemberlist msg)"
  shows "read_message pa (message_json sh msg @ r) = Some (message_as_read sh pa msg, r)"
  using assms
  by (cases msg) (simp add: read_message_def message_json_def message_as_read_def and_then_members)

interpretation msg: codec "message_json sh" "read_message pa" "message_as_read sh pa"
    "\<lambda>msg. members_fit sh pa (mMemberlist msg)" for sh pa
proof unfold_locales
  show "settles (read_message pa)"
    unfolding read_message_def
    by (intro settles_and_then settles_parts str.settled settles_read_members)
qed (rule read_message_json)

section \<open>Sending and listening\<close>

text \<open>
  \<^verbatim>\<open>json.Unmarshal\<close> of a whole datagram: anything after the message is an error. The reader accepts
  the texts the writer produces and rejects every cut of them, as the library does; the program
  never meets other texts.
\<close>

definition unmarshal_message :: "(string \<Rightarrow> int option) \<Rightarrow> string \<Rightarrow> message option" where
  "unmarshal_message pa s = (case read_message pa s of Some (msg, []) \<Rightarrow> Some msg | _ \<Rightarrow> None)"

text \<open>
  \<^verbatim>\<open>nodeSendMessage\<close>: the address may not resolve, the write may fail. The number is the traffic
  counter \<^verbatim>\<open>totalBytes\<close>, an \<^verbatim>\<open>int64\<close> that the program only ever adds to.
\<close>

definition nodeSendMessage ::
  "(int \<Rightarrow> string) \<Rightarrow> bool \<Rightarrow> bool \<Rightarrow> message \<Rightarrow> string \<Rightarrow> 64 word \<Rightarrow> 64 word \<times> (string \<times> string) option" where
  "nodeSendMessage sh resolves writes msg addressStr traffic =
     (if \<not> resolves then (traffic, None)
      else let bytes = message_json sh msg
           in if \<not> writes then (traffic, None)
              else (traffic + of_nat (length bytes), Some (addressStr, bytes)))"

text \<open>One round of \<^verbatim>\<open>listenMessage\<close>: the socket fails, or gives a datagram cut to the buffer.\<close>

datatype udp_read = SocketFails | Packet string string

definition listenMessage ::
  "(string \<Rightarrow> int option) \<Rightarrow> int \<Rightarrow> udp_read \<Rightarrow> gnode \<Rightarrow> 64 word \<Rightarrow> (gnode \<times> mail \<times> bool) \<times> 64 word" where
  "listenMessage pa now rd node traffic =
     (case rd of
        SocketFails \<Rightarrow> ((node, [], True), traffic)
      | Packet datagram sender \<Rightarrow>
          (let buffer = take ListenBufSize datagram;
               traffic1 = traffic + of_nat (length buffer)
           in case unmarshal_message pa buffer of
                None \<Rightarrow> ((node, [], True), traffic1)
              | Some msg \<Rightarrow> (handleMessage now msg sender node, traffic1)))"

lemma unmarshal_message_json:
  "members_fit sh pa (mMemberlist msg) \<Longrightarrow>
     unmarshal_message pa (message_json sh msg) = Some (message_as_read sh pa msg)"
  by (simp add: unmarshal_message_def msg.whole)

lemma unmarshal_cut:
  "members_fit sh pa (mMemberlist msg) \<Longrightarrow> n < length (message_json sh msg) \<Longrightarrow>
     unmarshal_message pa (take n (message_json sh msg)) = None"
  by (simp add: unmarshal_message_def msg.cut_rejected)

text \<open>The receiver never looks at the times of a report.\<close>

lemma as_read_time: "\<exists>t. as_read sh pa m = m\<lparr>LastUpdateTime := t\<rparr>"
proof (cases "pa (sh (LastUpdateTime m))")
  case None
  then have "as_read sh pa m = m\<lparr>LastUpdateTime := LastUpdateTime m\<rparr>" by (simp add: as_read_def)
  then show ?thesis ..
qed (auto simp: as_read_def)

lemma times_ignored:
  "refute now (m\<lparr>LastUpdateTime := t\<rparr>) cur = refute now m cur"
  "merge_known now (m\<lparr>LastUpdateTime := t\<rparr>) cur = merge_known now m cur"
  by (simp_all add: refute_def merge_known_def)

lemma as_read_frame [simp]:
  "ID (as_read sh pa m) = ID m" "State (as_read sh pa m) = State m"
  "refute now (as_read sh pa m) = refute now m"
  "merge_known now (as_read sh pa m) = merge_known now m"
  "(as_read sh pa m)\<lparr>LastUpdateTime := now\<rparr> = m\<lparr>LastUpdateTime := now\<rparr>"
  using as_read_time [of sh pa m] times_ignored by (auto simp: fun_eq_iff)

lemma Update_as_read:
  "UpdateMemberlist now (map (as_read sh pa) ms) i ml = UpdateMemberlist now ms i ml"
  by (induction now ms i ml rule: UpdateMemberlist.induct) (auto split: option.split)

lemma handle_as_read:
  "handleMessage now (message_as_read sh pa msg) sender node = handleMessage now msg sender node"
  by (cases msg) (simp only: handleMessage_def message_as_read_def message.simps Update_as_read)

lemma datagram_step:
  "members_fit sh pa (mMemberlist msg) \<Longrightarrow> length (message_json sh msg) \<le> ListenBufSize \<Longrightarrow>
     listenMessage pa now (Packet (message_json sh msg) sender) node traffic
      = (handleMessage now msg sender node, traffic + of_nat (length (message_json sh msg)))"
  by (simp add: listenMessage_def unmarshal_message_json handle_as_read)

text \<open>
  C17. A gossip message that fits the receive buffer arrives: whatever the sender's table holds, the
  bytes that \<^verbatim>\<open>nodeSendMessage\<close> writes make the listening loop do exactly what the message itself
  makes \<^verbatim>\<open>handleMessage\<close> do, although the times in it pass through a text that need not keep all of
  their digits; both ends count the same number of bytes.
\<close>

theorem datagram_delivers:
  assumes "members_fit sh pa (mMemberlist msg)"
    and "nodeSendMessage sh True True msg addr sent0 = (sent1, Some (addr', bytes))"
    and "length bytes \<le> ListenBufSize"
  shows "listenMessage pa now (Packet bytes sender) node heard0
      = (handleMessage now msg sender node, heard0 + of_nat (length bytes))
    \<and> addr' = addr \<and> sent1 = sent0 + of_nat (length bytes)"
  using assms datagram_step [of sh pa msg now sender node heard0]
  by (auto simp: nodeSendMessage_def Let_def)

text \<open>A message that does not fit is lost as a whole: its first 4096 bytes are no message.\<close>

lemma oversized_dropped:
  assumes "members_fit sh pa (mMemberlist msg)" and "ListenBufSize < length (message_json sh msg)"
  shows "listenMessage pa now (Packet (message_json sh msg) sender) node traffic
      = ((node, [], True), traffic + of_nat ListenBufSize)"
  using assms by (simp add: listenMessage_def unmarshal_cut)

section \<open>The gossip network over datagrams\<close>

lemma listen_step:
  assumes "reachable s" and "nodes s k = Some n" and "msg \<in> sent s"
    and "members_fit sh pa (mMemberlist msg)"
    and "listenMessage pa now (Packet (message_json sh msg) sender) n traffic = ((n', out, ok), traffic')"
  shows "reachable (put_node k n' out s)"
proof (cases "length (message_json sh msg) \<le> ListenBufSize")
  case True
  then have "handleMessage now msg sender n = (n', out, ok)"
    using datagram_step assms(4,5) by simp
  with assms(1-3) show ?thesis by (meson Handle rtranclp.rtrancl_into_rtrancl)
next
  case False
  then have "n' = n" "out = []" using oversized_dropped [OF assms(4), of now sender n traffic] assms(5) by simp_all
  then have "put_node k n' out s = s"
    using assms(2) by (simp add: put_node_def fun_upd_idem)
  with assms(1) show ?thesis by simp
qed

text \<open>
  C16. The gossip network over datagrams refines the gossip network over messages. When a node of a
  reachable network hears the datagram of a message that somebody sent, complete or cut to the
  buffer, the network it leads to is reachable again, so every property of reachable networks holds
  over datagrams too.
\<close>

theorem datagrams_refine_network:
  assumes "reachable s" and "nodes s k = Some n" and "msg \<in> sent s"
    and "members_fit sh pa (mMemberlist msg)"
    and "listenMessage pa now (Packet (message_json sh msg) sender) n traffic = ((n', out, ok), traffic')"
  shows "reachable (put_node k n' out s)"
  by (rule listen_step [OF assms])

section \<open>Tables that are too large\<close>

lemma length_json_quote: "length s + 2 \<le> length (json_quote s)"
proof -
  have "length s \<le> length (concat (map json_esc s))"
    by (induction s) (simp_all add: json_esc_def)
  then show ?thesis by (simp add: json_quote_def)
qed

lemma length_member_json: "length (ID m) + length (Address m) + 87 \<le> length (member_json sh m)"
proof -
  have "1 \<le> length (show_int i)" for i
    using show_int_not_Nil [of i] by (cases "show_int i") simp_all
  from this [of "HeartBeatCounter m"] this [of "Incarnation m"]
    length_json_quote [of "ID m"] length_json_quote [of "Address m"] length_json_quote [of "State m"]
    length_json_quote [of "sh (LastUpdateTime m)"]
    length_json_quote [of "''id''"] length_json_quote [of "''addr''"] length_json_quote [of "''state''"]
    length_json_quote [of "''heartbeatcounter''"] length_json_quote [of "''incarnation''"]
    length_json_quote [of "''lastupdatetime''"]
  show ?thesis by (simp add: member_json_def json_key_def)
qed

lemma length_items_json:
  "(\<Sum>m\<leftarrow>ms. length (ID m) + length (Address m) + 87) \<le> length (items_json sh ms)"
proof (induction sh ms rule: items_json.induct)
  case (2 sh m)
  then show ?case using length_member_json [of m sh] by simp
next
  case (3 sh m m' ms)
  then show ?case using length_member_json [of m sh] by simp
qed simp

text \<open>
  C32. A table that is too large silences its node. Every member takes at least 87 bytes beside its ID
  and its address; once these exceed the receive buffer, no heartbeat, ping, ack or answer to
  a join that carries the table reaches anybody: the receiver drops it and stays as it was.
\<close>

theorem large_table_unheard:
  assumes "ListenBufSize < (\<Sum>m\<leftarrow>getMemberList (table sdr). length (ID m) + length (Address m) + 87)"
    and "members_fit sh pa (getMemberList (table sdr))"
    and "nodeSendMessage sh True True \<lparr>mType = ty, mMemberlist = getMemberList (table sdr), mSendID = nodeID sdr\<rparr>
        addr sent0 = (sent1, Some (addr', bytes))"
  shows "fst (listenMessage pa now (Packet bytes from_addr) node heard0) = (node, [], True)"
proof -
  let ?msg = "\<lparr>mType = ty, mMemberlist = getMemberList (table sdr), mSendID = nodeID sdr\<rparr>"
  have "length (items_json sh (mMemberlist ?msg)) \<le> length (message_json sh ?msg)"
    by (simp add: message_json_def members_json_def)
  with assms(1) length_items_json [of "getMemberList (table sdr)" sh]
  have "ListenBufSize < length (message_json sh ?msg)" by simp
  moreover have "bytes = message_json sh ?msg" using assms(3) by (simp add: nodeSendMessage_def Let_def)
  ultimately show ?thesis using oversized_dropped [of sh pa ?msg] assms(2) by simp
qed

section \<open>Witnesses\<close>

definition sample_message :: message where
  "sample_message = \<lparr>mType = MessageGossip,
     mMemberlist = [(sample_member ''b'' ''h2:1'')\<lparr>HeartBeatCounter := 4\<rparr>], mSendID = ''b''\<rparr>"

theorem datagram_delivers_witness:
  "listenMessage atoi 5 (Packet (message_json show_int sample_message) ''h2:1'') sample_node 0
    = (handleMessage 5 sample_message ''h2:1'' sample_node, of_nat (length (message_json show_int sample_message)))"
proof -
  have "members_fit show_int atoi (mMemberlist sample_message)"
    "length (message_json show_int sample_message) \<le> ListenBufSize" by code_simp+
  then show ?thesis
    using datagram_delivers [of show_int atoi sample_message "''h1:1''" 0
        "of_nat (length (message_json show_int sample_message))" "''h1:1''" "message_json show_int sample_message"
        5 "''h2:1''" sample_node 0]
    by (simp add: nodeSendMessage_def Let_def)
qed

theorem datagrams_refine_network_witness:
  "\<exists>n' out. fst (listenMessage atoi 7 (Packet (message_json show_int (snd (hd (join_message nodeB)))) ''h:1'') nodeB 0)
      = (n', out, True) \<and> reachable (put_node ''172.22.159.16:1:2'' n' out joined_net)"
proof -
  let ?msg = "snd (hd (join_message nodeB))"
  let ?heard = "listenMessage atoi 7 (Packet (message_json show_int ?msg) ''h:1'') nodeB 0"
  have node: "nodes joined_net ''172.22.159.16:1:2'' = Some nodeB"
    by (auto simp: joined_net_def Let_def nodes_put new_nodes split: prod.split)
  have "join_message nodeB \<noteq> []" by code_simp
  then have msg: "?msg \<in> sent joined_net"
    by (auto simp: joined_net_def Let_def put_node_def split: prod.split)
  have fits: "members_fit show_int atoi (mMemberlist ?msg)" by code_simp
  have ok: "snd (snd (fst ?heard)) = True" by code_simp
  obtain n' out okay tr where h: "?heard = ((n', out, okay), tr)" by (metis prod_cases4 prod.collapse)
  from datagrams_refine_network [OF joined_net_reachable node msg fits h] h ok show ?thesis by auto
qed

text \<open>Thirty-one members with addresses and IDs as long as those of the machines in the address table.\<close>

definition crowd :: "member list" where
  "crowd = map (\<lambda>i. sample_member (''172.22.155.16:9000:17635000000'' @ show_nat (10 + i)) ''172.22.155.16:9000'') [0..<31]"

definition crowded_node :: gnode where
  "crowded_node = sample_node\<lparr>table := NewMemberList\<lparr>heap := \<lambda>p. crowd ! p,
     memberlist := map (\<lambda>p. (ID (crowd ! p), p)) [0..<31]\<rparr>\<rparr>"

lemma crowded_members: "getMemberList (table crowded_node) = crowd"
proof -
  have "length crowd = 31" by (simp add: crowd_def)
  then have "map (\<lambda>p. crowd ! p) [0..<31] = crowd" using map_nth [of crowd] by simp
  then show ?thesis by (simp add: getMemberList_def crowded_node_def o_def)
qed

theorem large_table_unheard_witness:
  "fst (listenMessage atoi 5 (Packet (message_json show_int
      \<lparr>mType = MessageGossip, mMemberlist = getMemberList (table crowded_node), mSendID = nodeID crowded_node\<rparr>) ''h2:1'')
      sample_node 0) = (sample_node, [], True)"
proof -
  have "ListenBufSize < (\<Sum>m\<leftarrow>getMemberList (table crowded_node). length (ID m) + length (Address m) + 87)"
    "members_fit show_int atoi (getMemberList (table crowded_node))" unfolding crowded_members by code_simp+
  from large_table_unheard [OF this, of MessageGossip "''h1:1''" 0 _ "''h1:1''" _ 5 "''h2:1''" sample_node 0]
  show ?thesis by (simp add: nodeSendMessage_def Let_def)
qed

end
