(* ===== verification/Listeners.thy ===== *)
theory Listeners
  imports Boot LogQuerier Wire
begin

text \<open>
  The accept loops of a process and what crosses them as JSON. A loop gets a list of what the
  listener gives it, one connection or datagram after the other; each one goes to the handler that the
  other theories model. Then: a process that serves commands and hears datagrams stays a node of a
  reachable gossip network, and \<^verbatim>\<open>grep\<close> on the command line reaches the members of the introducer's
  table although the table travels as JSON that the client reads with a type of its own.
\<close>

section \<open>Accept loops\<close>

datatype accept = AcceptFails | Accepted string

text \<open>
  \<^verbatim>\<open>listenCommand\<close>: without the port the routine ends; a failed accept is skipped; each connection is
  served with the time of its arrival. The result: the node, the answers, the gossip.
\<close>

fun listenCommand :: "bool \<Rightarrow> shuffles \<Rightarrow> string list \<Rightarrow> (int \<times> accept) list \<Rightarrow> gnode
    \<Rightarrow> gnode \<times> answer list \<times> mail" where
  "listenCommand binds shf fs [] node = (node, [], [])"
| "listenCommand binds shf fs ((now, conn) # conns) node =
     (if \<not> binds then (node, [], [])
      else (case conn of
              AcceptFails \<Rightarrow> listenCommand binds shf fs conns node
            | Accepted bytes \<Rightarrow>
                (case serve shf now fs bytes node of (node1, ans, out, cmds) \<Rightarrow>
                   (case listenCommand binds shf fs conns node1 of (node2, answers, outs) \<Rightarrow>
                      (node2, ans # answers, out @ outs)))))"

text \<open>
  \<^verbatim>\<open>startDistributedLogQuerierServer\<close>; \<^const>\<open>None\<close> when \<^verbatim>\<open>CheckError\<close> has ended the process. A
  connection is what its reader gets.
\<close>

fun startDistributedLogQuerierServer :: "bool \<Rightarrow> shuffles \<Rightarrow> (int \<Rightarrow> string) \<Rightarrow> grep
    \<Rightarrow> (int \<times> incoming option) list \<Rightarrow> gnode option \<Rightarrow> (gnode option \<times> mail \<times> string list) option" where
  "startDistributedLogQuerierServer listens shf rfc3339 grep [] node = Some (node, [], [])"
| "startDistributedLogQuerierServer listens shf rfc3339 grep ((now, conn) # conns) node =
     (if \<not> listens then Some (node, [], [])
      else (case conn of
              None \<Rightarrow> startDistributedLogQuerierServer listens shf rfc3339 grep conns node
            | Some input \<Rightarrow>
                (case Connect2Server shf now rfc3339 grep input node of
                   None \<Rightarrow> None
                 | Some (node1, out, ans) \<Rightarrow>
                     map_option (\<lambda>(node2, outs, answers). (node2, out @ outs, ans # answers))
                       (startDistributedLogQuerierServer listens shf rfc3339 grep conns node1))))"

text \<open>
  The goroutine of \<^verbatim>\<open>joinMemberList\<close> that asks the introducer for its mode: the line it sends and
  where to, and what it does with the bytes that come back. A failed write is only reported.
\<close>

definition mode_request :: "gnode \<Rightarrow> string \<times> string" where
  "mode_request node = (hd (split_on CHR '':'' (introducerAddr node)) @ '':'' @ CommandPort, ''get_switch'' @ [NL])"

definition mode_exchange :: "shuffles \<Rightarrow> int \<Rightarrow> bool \<Rightarrow> string \<Rightarrow> gnode \<Rightarrow> gnode \<times> mail" where
  "mode_exchange shf now dials bytes node =
     (if \<not> dials then (node, [])
      else (case ReadString bytes of None \<Rightarrow> (node, []) | Some line \<Rightarrow> adopt_mode shf now line node))"

section \<open>A process in the network\<close>

datatype input = Conn accept | Datagram udp_read

fun process_run :: "shuffles \<Rightarrow> string list \<Rightarrow> (string \<Rightarrow> int option) \<Rightarrow> (int \<times> input) list \<Rightarrow> gnode
    \<Rightarrow> gnode \<times> mail" where
  "process_run shf fs pa [] node = (node, [])"
| "process_run shf fs pa ((now, Conn conn) # ins) node =
     (case listenCommand True shf fs [(now, conn)] node of (node1, _, out) \<Rightarrow>
        (case process_run shf fs pa ins node1 of (node2, outs) \<Rightarrow> (node2, out @ outs)))"
| "process_run shf fs pa ((now, Datagram rd) # ins) node =
     (case listenMessage pa now rd node 0 of ((node1, out, _), _) \<Rightarrow>
        (case process_run shf fs pa ins node1 of (node2, outs) \<Rightarrow> (node2, out @ outs)))"

text \<open>Everything that arrives on the gossip port is the datagram of a message that somebody sent.\<close>

definition genuine :: "(int \<Rightarrow> string) \<Rightarrow> (string \<Rightarrow> int option) \<Rightarrow> net_state \<Rightarrow> input \<Rightarrow> bool" where
  "genuine sh pa s i \<longleftrightarrow> (\<forall>bytes sender. i = Datagram (Packet bytes sender) \<longrightarrow>
     (\<exists>msg\<in>sent s. members_fit sh pa (mMemberlist msg) \<and> bytes = message_json sh msg))"

lemma sent_put: "sent (put_node k n out s) = sent s \<union> snd ` set out"
  by (simp add: put_node_def)

lemma put_node_same: "nodes s k = Some n \<Longrightarrow> put_node k n [] s = s"
  by (simp add: put_node_def fun_upd_idem)

lemma genuine_mono: "genuine sh pa s i \<Longrightarrow> sent s \<subseteq> sent s' \<Longrightarrow> genuine sh pa s' i"
  unfolding genuine_def by blast

lemma serve_step:
  assumes "reachable s" and "nodes s k = Some n" and "fair shf"
    and "serve shf now fs bytes n = (n', ans, out, cmds)"
  shows "reachable (put_node k n' out s)"
proof (cases "ReadString bytes")
  case None
  with assms show ?thesis by (auto simp: serve_def put_node_same)
next
  case (Some line)
  with assms(4) have "HandleCommand shf now fs line n = (n', ans, out, cmds)" by (simp add: serve_def)
  with assms(1-3) show ?thesis by (meson Command rtranclp.rtrancl_into_rtrancl)
qed

lemma input_step:
  assumes "reachable s" and "nodes s k = Some n" and "fair shf" and "genuine sh pa s i"
    and "process_run shf fs pa [(now, i)] n = (n', out)"
  shows "reachable (put_node k n' out s)"
proof (cases i)
  case (Conn conn)
  show ?thesis
  proof (cases conn)
    case AcceptFails
    with Conn assms show ?thesis by (simp add: put_node_same)
  next
    case (Accepted bytes)
    obtain n1 ans o1 cmds where "serve shf now fs bytes n = (n1, ans, o1, cmds)" by (metis prod_cases4)
    with serve_step [OF assms(1-3) this] Conn Accepted assms(5) show ?thesis by simp
  qed
next
  case (Datagram rd)
  show ?thesis
  proof (cases rd)
    case SocketFails
    with Datagram assms show ?thesis by (simp add: listenMessage_def put_node_same)
  next
    case (Packet bytes sender)
    obtain n1 o1 ok tr where l: "listenMessage pa now (Packet bytes sender) n 0 = ((n1, o1, ok), tr)"
      by (metis prod.collapse)
    obtain msg where "msg \<in> sent s" "members_fit sh pa (mMemberlist msg)" "bytes = message_json sh msg"
      using assms(4) Datagram Packet by (auto simp: genuine_def)
    with listen_step [OF assms(1,2)] l have "reachable (put_node k n1 o1 s)" by blast
    with Datagram Packet l assms(5) show ?thesis by simp
  qed
qed

lemma process_run_Cons:
  "process_run shf fs pa (i # ins) node =
     (case process_run shf fs pa [i] node of (node1, out) \<Rightarrow>
        (case process_run shf fs pa ins node1 of (node2, outs) \<Rightarrow> (node2, out @ outs)))"
  by (cases i; cases "snd i") (auto split: prod.splits)

text \<open>
  Commands and datagrams in any order keep a process a node of a reachable network, which has
  everything that the process sent.
\<close>

lemma process_in_network:
  assumes "reachable s" and "nodes s k = Some n" and "fair shf"
    and "\<forall>(now, i)\<in>set ins. genuine sh pa s i"
    and "process_run shf fs pa ins n = (n', out)"
  shows "\<exists>s'. reachable s' \<and> nodes s' k = Some n' \<and> sent s' = sent s \<union> snd ` set out"
  using assms
proof (induction ins arbitrary: s n out)
  case (Cons i ins)
  obtain now j where i: "i = (now, j)" by (cases i)
  obtain n1 o1 where one: "process_run shf fs pa [(now, j)] n = (n1, o1)" by (metis prod.collapse)
  obtain os where rest: "process_run shf fs pa ins n1 = (n', os)" "out = o1 @ os"
    using Cons.prems(5) one process_run_Cons [of shf fs pa "(now, j)" ins n] i
    by (cases "process_run shf fs pa ins n1") auto
  let ?s = "put_node k n1 o1 s"
  have "genuine sh pa s j" using Cons.prems(4) i by auto
  from input_step [OF Cons.prems(1-3) this one] have "reachable ?s" .
  moreover have "nodes ?s k = Some n1" by (simp add: nodes_put)
  moreover have "\<forall>(now, i)\<in>set ins. genuine sh pa ?s i"
    using Cons.prems(4) genuine_mono [of sh pa s _ ?s] by (auto simp: sent_put)
  ultimately obtain s' where "reachable s'" "nodes s' k = Some n'" "sent s' = sent ?s \<union> snd ` set os"
    using Cons.IH [of ?s n1 os] Cons.prems(3) rest(1) by blast
  then show ?case using rest(2) by (auto simp: sent_put)
qed auto

section \<open>Grep from the command line\<close>

text \<open>
  The client's own type \<^verbatim>\<open>CliMember\<close> has the ID, the address and the state; the other fields of the
  JSON are skipped, the time without being read.
\<close>

definition unmarshal_members :: "string \<Rightarrow> member list option" where
  "unmarshal_members bytes = (case read_members (\<lambda>_. Some 0) bytes of Some (ms, []) \<Rightarrow> Some ms | _ \<Rightarrow> None)"

definition grep_main :: "(string \<Rightarrow> string \<Rightarrow> string option) \<Rightarrow> string list \<Rightarrow> bool
    \<Rightarrow> string + (string \<times> string \<times> int) list" where
  "grep_main ask grepArg cInArgs =
     (case ask introAddress ''mem_list_json'' of
        None \<Rightarrow> Inl ''Cannot send getting the member list command''
      | Some bytes \<Rightarrow>
          (case unmarshal_members bytes of
             None \<Rightarrow> Inl ''Cannot Marshal the memberlist''
           | Some currentMembers \<Rightarrow> Inr (getGrepResult ask currentMembers grepArg cInArgs)))"

lemma members_served:
  "serve shf now fs (SendCommand ''mem_list_json'') node = (node, MembersJSON (getMemberList (table node)), [], [])"
proof -
  have "NL \<notin> set ''mem_list_json''" "split_on CHR '' '' ''mem_list_json'' = [''mem_list_json'']" by simp_all
  then show ?thesis by (simp add: serve_def ReadString_Send HandleCommand_def trim_suffix_char_def)
qed

lemma grep_targets_as_read: "grep_targets (map (as_read sh pa) ms) = grep_targets ms"
proof -
  have "Address (as_read sh pa m) = Address m" for m using as_read_time [of sh pa m] by auto
  then show ?thesis by (induction ms) (simp_all add: grep_targets_def)
qed

text \<open>The introducer's answer reaches the client as the members it has.\<close>

lemma grep_main_members:
  assumes "ask introAddress ''mem_list_json'' =
      Some (answer_bytes (members_json sh) grep (fst (snd (serve shf now fs (SendCommand ''mem_list_json'') intro))))"
    and "\<forall>m\<in>set (getMemberList (table intro)). int64 (HeartBeatCounter m) \<and> int64 (Incarnation m)"
  shows "grep_main ask ws c = Inr (getGrepResult ask (getMemberList (table intro)) ws c)"
proof -
  let ?ms = "getMemberList (table intro)"
  have "members_fit sh (\<lambda>_. Some 0) ?ms"
    using assms(2) by (simp add: members_fit_def member_fits_def list_all_iff)
  then have "unmarshal_members (members_json sh ?ms) = Some (map (as_read sh (\<lambda>_. Some 0)) ?ms)"
    by (simp add: unmarshal_members_def mems.whole)
  then show ?thesis
    using assms(1) by (simp add: grep_main_def members_served answer_bytes_def getGrepResult_def grep_targets_as_read)
qed

end
