(* ===== verification/Spec2Isabelle.thy ===== *)
theory Spec2Isabelle
  imports Pipeline Rates Loggers Listeners
begin

text \<open>
  \<^bold>\<open>A verification development for RainStorm.\<close>

  The program is one Go process per machine with three layers. The bottom layer is a group
  membership service (\<^verbatim>\<open>node/membership_crud.go\<close>, \<^verbatim>\<open>node/node.go\<close>): heartbeats spread by gossip or
  by ping and ack, with or without suspicion. On top of the member list, HyDFS
  (\<^verbatim>\<open>node/node.go\<close>, \<^verbatim>\<open>utils/utils.go\<close>) is a replicated file system: a file lives on the three
  successors of its hash on the ring of members; the first one is the primary, which writes
  locally and then to the others; every node also keeps a log of the operations on each file, and
  a merge makes the replicas equal again from their logs. RainStorm
  (\<^verbatim>\<open>node/node_stream.go\<close>, \<^verbatim>\<open>node/node_autoscale.go\<close>, \<^verbatim>\<open>utils/stream_utils.go\<close>, \<^verbatim>\<open>ops/\<close>) runs jobs of
  several stages of tasks; a task writes each input to a dedup log in HyDFS before it gives it to its
  operator process, which is how a restarted task gets its state back; a leader starts the tasks,
  restarts crashed ones and adds or removes tasks by load. \<^verbatim>\<open>demo/demo.go\<close> is the command line.

  \<^bold>\<open>Library.\<close>
  \<^item> \<open>Prelude\<close>: outcomes of calls (\<^const>\<open>Blocked\<close> for a call that never returns, an error, a reply), what the
    network does to a call (\<^typ>\<open>net\<close>), hint collections, facts on lists and association lists.
  \<^item> \<open>GoStrings\<close>: the string functions of the Go library that the code uses, the line scanner with its
    token limit, numbers in decimal. \<open>Constants\<close>: \<^verbatim>\<open>constants/constants.go\<close> and the wire records.

  \<^bold>\<open>Membership.\<close>
  \<^item> \<open>MemberTable\<close>: \<^verbatim>\<open>MemberList\<close>. The map and the round-robin list of the code hold pointers to the same
    entries, so the state has a heap; locale \<open>member_table\<close> states what the operations rely on.
  \<^item> \<open>Membership\<close>: every operation of \<^verbatim>\<open>membership_crud.go\<close>. \<open>Detection\<close>: merging of reports, refutation and
    the time line of a silent member. \<open>RoundRobin\<close>: what a round of probes covers.
  \<^item> \<open>GossipNode\<close>: a node with its protocol mode and its ack channels, the periodic routines, the
    message and the command handler. \<open>GossipNet\<close>: all nodes with a set of messages that may be delivered
    in any order, again, or never, as a step relation; its properties hold in every reachable state.
  \<^item> \<open>Wire\<close>: the messages as JSON datagrams, \<^verbatim>\<open>nodeSendMessage\<close> and \<^verbatim>\<open>listenMessage\<close> with its 4096 byte
    buffer; locale \<open>codec\<close> is the contract of an encoding and its reader, interpreted on strings, numbers,
    members, lists and messages. The network over datagrams refines the network over messages.

  \<^bold>\<open>HyDFS.\<close>
  \<^item> \<open>Addressing\<close>, \<open>Ring\<close>: the address book, FNV-1a hashing on 32-bit words, ring and successor list;
    locale \<open>placement\<close> is the contract of a placement, interpreted on the code's own.
  \<^item> \<open>LogCodec\<close>: one line of the operation log as \<^verbatim>\<open>encoding/json\<close> writes it (escapes, base64) and its reader.
  \<^item> \<open>FileNode\<close>: files, logs and mutexes of one node; the handlers take what the disk does as an
    argument, torn writes included. \<open>Replication\<close>: fan-out, \<^verbatim>\<open>CreateFile\<close>, \<^verbatim>\<open>AppendFile\<close>, \<^verbatim>\<open>CallHyDFSWrite\<close>.
  \<^item> \<open>Merge\<close>: \<^verbatim>\<open>MergeFile\<close> for any interleaving of its goroutines, \<^verbatim>\<open>Rereplicate\<close>, the replica check and
    \<^verbatim>\<open>TriggerAppend\<close>. \<open>Store\<close>: downloads, and locale \<open>append_store\<close>, the contract of an append-only
    store, interpreted on the HyDFS operations.
  \<^item> \<open>Samples\<close>: a small cluster for the witnesses. \<open>HyDFS\<close>: the properties of the file system.
    \<open>Availability\<close>: which calls return and which hang; locale \<open>returning_service\<close> is the contract of handlers
    that give back the mutexes they take, interpreted on the file handlers.

  \<^bold>\<open>RainStorm.\<close>
  \<^item> \<open>StreamTask\<close>: task state, \<^verbatim>\<open>PushTuple\<close>, dedup logs and their replay, start, kill, orphan logs.
    \<open>Operators\<close>: the four operator programs; locales \<open>line_operator\<close> and \<open>stateless_operator\<close> are what the
    task layer relies on, interpreted on each operator.
  \<^item> \<open>Delivery\<close>: output handling, retries, routing, the source. \<open>ExactlyOnce\<close>: what deduplication,
    recovery and routing guarantee together, and where the guarantee ends.
  \<^item> \<open>Leader\<close>, \<open>Autoscaler\<close>: planning, start, completion, restart; rates, scaling, broadcasts.
    \<open>JobControl\<close>: a step relation over a whole job, the soundness of the task map, and end marks.
  \<^item> \<open>Rates\<close>: the rate monitor of a task, its reports at the leader, the loop and the decisions of the
    autoscaler. \<open>Pipeline\<close>: the source with its rate and its goroutines, the output side of a task, retries
    that end, end marks over a whole job and over a restart.

  \<^bold>\<open>Processes and commands.\<close>
  \<^item> \<open>Client\<close>: the commands of \<^verbatim>\<open>demo/demo.go\<close> with the calls they make and what they report, job
    arguments. \<open>Commands\<close>: the dispatch of its \<^verbatim>\<open>main\<close>, the command port of a node from bytes to bytes, the
    distributed \<^verbatim>\<open>grep\<close>, the switch of the protocol mode.
  \<^item> \<open>Boot\<close>: \<^verbatim>\<open>mp4_main\<close>, the choice of an address and how a start fails. \<open>Loggers\<close>: \<^verbatim>\<open>streamlog\<close> and
    \<^verbatim>\<open>vmlog\<close>. \<open>LogQuerier\<close>: \<^verbatim>\<open>distributed_log_querier/\<close>, server and client. \<open>Listeners\<close>: the accept loops, a
    process inside the gossip network, and \<^verbatim>\<open>grep\<close> with the member list as it travels in JSON.

  \<^bold>\<open>Conventions.\<close> A Go map is an association list with distinct keys; a handler is a function from
  its state to the new state and an outcome; failures of disks, network, processes and clocks are
  arguments, so the theorems quantify over them. A mutex is modelled by whether a handler releases it: a
  handler that leaves it locked makes the next one \<^const>\<open>Blocked\<close>. Parallel calls whose order does
  not matter run in list order, with a lemma that says so (\<open>fan_out_result\<close>, \<open>push_result\<close>); where the order
  matters (the polls of a merge, replay beside pushes, the gossip network, the steps of the leader) it is an
  explicit schedule, list of events or step relation. A loop that retries for ever takes the list of
  its attempts, and its result says whether it ended within them, so no fuel is needed; every other
  loop is a structural recursion, except the CSV reader, whose termination is proved by the length of the
  rest of the line. Go \<^verbatim>\<open>int\<close> counters are unbounded here; hashes are 32-bit words.
  Several goroutines on one state are an interleaving given as a list of events (pushes, replayed lines,
  seconds of a ticker, source sends); what lies outside a component (the attempts of a sender, connections, the
  environment of a process) is a list in the order of arrival.

  \<^bold>\<open>Not modelled.\<close> Sockets below the bytes that arrive, \<^verbatim>\<open>net/rpc\<close> (a call is delivered, lost, or its reply
  is lost), operating-system processes and pipes beyond what a write does, sleeps and tickers (except that a
  ticker with interval zero panics), progress and latency lines on the terminal, and which lines the components
  print to their logs. The digest, the program \<^verbatim>\<open>grep\<close>, the text of a time stamp and the parsed
  configuration file are parameters, and theorems that need something of them say so. JSON readers accept what
  the writers of this program produce and reject every cut of it; bytes from elsewhere are outside the
  model. File names are directory entries without path separators; host names other than the addresses in the
  table are plain strings.
\<close>

end
